(* ===== verification/Prelude.thy ===== *)
theory Prelude
  imports Main "HOL-Library.Word" "HOL-Library.Product_Lexorder"
begin

text \<open>
  Shared vocabulary of the development: the Go base types the program uses, the outcome of
  an operation that can fail or be cut off by a process crash, the two SQL idioms every
  component of the spool relies on (an ordered \<open>LIMIT 1\<close> query and an update of the rows
  that match a condition), and the facts about them.
\<close>

section \<open>Go base types\<close>

text \<open>
  Go strings and byte slices are byte sequences. An instant (\<open>time.Time\<close>) is its number of
  nanoseconds since the Unix epoch, a \<open>time.Duration\<close> a signed 64-bit number of
  nanoseconds; an LSN is 64 bits wide, a transaction id 32, a SHA-256 digest 256.
\<close>

type_synonym bytes = "char list"
type_synonym time = int
type_synonym duration = int
type_synonym lsn = "64 word"
type_synonym xid = "32 word"
type_synonym digest = "256 word"

definition zero_time :: time where
  "zero_time = - 62135596800000000000"

definition Nanosecond :: duration where "Nanosecond = 1"
definition Millisecond :: duration where "Millisecond = 1000000"
definition Second :: duration where "Second = 1000000000"
definition Minute :: duration where "Minute = 60 * Second"
definition Hour :: duration where "Hour = 60 * Minute"

lemmas duration_defs = Nanosecond_def Millisecond_def Second_def Minute_def Hour_def

text \<open>Two's complement wrap-around of a signed 64-bit result, and Go's truncating division.\<close>

definition max_int64 :: int where "max_int64 = 9223372036854775807"
definition min_int64 :: int where "min_int64 = - 9223372036854775808"

definition i64 :: "int \<Rightarrow> int" where
  "i64 n = (n + 9223372036854775808) mod 18446744073709551616 - 9223372036854775808"

definition go_div :: "int \<Rightarrow> int \<Rightarrow> int" where
  "go_div a b = sgn a * sgn b * (\<bar>a\<bar> div \<bar>b\<bar>)"

text \<open>\<open>t.Sub(u)\<close> saturates at the ends of the duration range.\<close>

definition time_sub :: "time \<Rightarrow> time \<Rightarrow> duration" where
  "time_sub t u = max min_int64 (min max_int64 (t - u))"

lemma i64_in_range: "min_int64 \<le> n \<Longrightarrow> n \<le> max_int64 \<Longrightarrow> i64 n = n"
  by (simp add: i64_def min_int64_def max_int64_def)

lemma i64_bounds: "min_int64 \<le> i64 n \<and> i64 n \<le> max_int64"
  by (simp add: i64_def min_int64_def max_int64_def)

lemma go_div_2: "0 \<le> a \<Longrightarrow> go_div a 2 = a div 2"
  by (cases "a = 0") (simp_all add: go_div_def)

section \<open>Outcomes\<close>

text \<open>
  An operation returns a value, returns an error, or does not return because the process
  was terminated at a crash boundary (\<open>internal/failure\<close>).
\<close>

datatype ('e, 'a) outcome = Ok 'a | Err 'e | Halted

lemma outcome_not_Ok: "(\<forall>a. r \<noteq> Ok a) \<longleftrightarrow> (\<exists>e. r = Err e) \<or> r = Halted"
  by (cases r) auto

section \<open>Ordered queries\<close>

text \<open>\<open>SELECT ... ORDER BY key LIMIT 1\<close> over the rows \<open>xs\<close>.\<close>

definition first_by :: "('a \<Rightarrow> 'k::linorder) \<Rightarrow> 'a list \<Rightarrow> 'a option" where
  "first_by k xs = (case sort_key k xs of [] \<Rightarrow> None | x # _ \<Rightarrow> Some x)"

lemma first_by_None [simp]: "first_by k xs = None \<longleftrightarrow> xs = []"
proof -
  have "sort_key k xs = [] \<longleftrightarrow> xs = []"
    by (metis length_0_conv length_sort)
  then show ?thesis by (cases "sort_key k xs") (simp_all add: first_by_def)
qed

lemma first_by_Some:
  assumes "first_by k xs = Some x"
  shows "x \<in> set xs" and "y \<in> set xs \<Longrightarrow> k x \<le> k y"
proof -
  obtain zs where zs: "sort_key k xs = x # zs"
    using assms by (auto simp: first_by_def split: list.splits)
  have s: "set xs = insert x (set zs)"
    by (metis zs list.simps(15) set_sort)
  have "sorted (map k (x # zs))"
    using sorted_sort_key [of k xs] zs by simp
  then have "\<forall>y \<in> set zs. k x \<le> k y" by simp
  with s show "x \<in> set xs" and "y \<in> set xs \<Longrightarrow> k x \<le> k y" by auto
qed

lemma first_by_eqI:
  assumes "x \<in> set xs" and "\<And>y. y \<in> set xs \<Longrightarrow> y \<noteq> x \<Longrightarrow> k x < k y"
  shows "first_by k xs = Some x"
proof (cases "first_by k xs")
  case None
  with assms(1) show ?thesis by simp
next
  case (Some y)
  with first_by_Some [OF Some] assms show ?thesis
    by (metis leD)
qed

section \<open>Updates of matching rows\<close>

text \<open>\<open>UPDATE t SET f WHERE p\<close> over the rows \<open>xs\<close>, and the number of rows it changes.\<close>

definition update_where :: "('a \<Rightarrow> bool) \<Rightarrow> ('a \<Rightarrow> 'a) \<Rightarrow> 'a list \<Rightarrow> 'a list" where
  "update_where p f xs = map (\<lambda>x. if p x then f x else x) xs"

definition count_where :: "('a \<Rightarrow> bool) \<Rightarrow> 'a list \<Rightarrow> nat" where
  "count_where p xs = length (filter p xs)"

lemma set_update_where:
  "set (update_where p f xs) = {x \<in> set xs. \<not> p x} \<union> f ` {x \<in> set xs. p x}"
  by (auto simp: update_where_def)

lemma length_update_where [simp]: "length (update_where p f xs) = length xs"
  by (simp add: update_where_def)

lemma map_update_where:
  assumes "\<And>x. x \<in> set xs \<Longrightarrow> p x \<Longrightarrow> g (f x) = g x"
  shows "map g (update_where p f xs) = map g xs"
  using assms by (simp add: update_where_def)

lemma update_where_none: "(\<And>x. x \<in> set xs \<Longrightarrow> \<not> p x) \<Longrightarrow> update_where p f xs = xs"
  by (induction xs) (auto simp: update_where_def)

lemma count_where_0 [simp]: "count_where p xs = 0 \<longleftrightarrow> (\<forall>x \<in> set xs. \<not> p x)"
  by (auto simp: count_where_def filter_empty_conv)

lemma distinct_map_unique:
  "distinct (map k xs) \<Longrightarrow> x \<in> set xs \<Longrightarrow> y \<in> set xs \<Longrightarrow> k x = k y \<Longrightarrow> x = y"
  by (auto simp: distinct_map dest: inj_onD)

lemma count_where_unique:
  assumes "distinct (map k xs)" and "\<And>y. y \<in> set xs \<Longrightarrow> p y \<Longrightarrow> k y = c"
  shows "count_where p xs \<le> 1"
  using assms
proof (induction xs)
  case Nil
  then show ?case by (simp add: count_where_def)
next
  case (Cons x xs)
  show ?case
  proof (cases "p x")
    case True
    have "\<not> p y" if "y \<in> set xs" for y
      using that True Cons.prems by (metis distinct.simps(2) image_eqI list.set_intros list.set_map list.simps(9))
    then show ?thesis by (simp add: count_where_def True)
  next
    case False
    have "count_where p xs \<le> 1"
      using Cons.IH Cons.prems by simp
    with False show ?thesis by (simp add: count_where_def)
  qed
qed

lemma count_where_1_set:
  assumes "count_where p xs = 1"
  obtains x where "{y \<in> set xs. p y} = {x}"
proof -
  obtain x where "filter p xs = [x]"
    using assms by (auto simp: count_where_def length_Suc_conv)
  then have "{y \<in> set xs. p y} = {x}"
    by (metis empty_set list.simps(15) set_filter)
  then show ?thesis by (rule that)
qed

section \<open>Searching rows\<close>

lemma find_None_set: "List.find p xs = None \<longleftrightarrow> (\<forall>x \<in> set xs. \<not> p x)"
  by (auto simp: find_None_iff)

lemma find_SomeD: "List.find p xs = Some x \<Longrightarrow> x \<in> set xs \<and> p x"
  by (auto simp: find_Some_iff)

lemma find_unique:
  assumes "distinct (map k xs)" and "x \<in> set xs" and "p x"
    and "\<And>y. y \<in> set xs \<Longrightarrow> p y \<Longrightarrow> k y = k x"
  shows "List.find p xs = Some x"
proof -
  obtain y where y: "List.find p xs = Some y"
    using assms(2,3) by (metis find_None_set not_None_eq)
  then have "y \<in> set xs" "p y" by (auto dest: find_SomeD)
  with assms have "y = x" by (blast intro: distinct_map_unique)
  with y show ?thesis by simp
qed

lemma option_ext: "(\<And>v. a = Some v \<longleftrightarrow> b = Some v) \<Longrightarrow> a = b"
  by (cases a; cases b) auto

end
