(* ===== verification/Go_Strconv.thy ===== *)
theory Go_Strconv
  imports Prelude
begin

text \<open>
  What the program uses of Go's \<open>strconv\<close> and \<open>encoding/hex\<close>: decimal printing, \<open>ParseInt\<close> in
  base 10 with 64 bits, and the lower-case hexadecimal form of a SHA-256 digest. Strings are
  lists of bytes.
\<close>

section \<open>Decimal\<close>

definition digit_char :: "nat \<Rightarrow> char" where
  "digit_char n = char_of (48 + n)"

definition char_digit :: "char \<Rightarrow> nat option" where
  "char_digit c = (let n = of_char c :: nat in if 48 \<le> n \<and> n \<le> 57 then Some (n - 48) else None)"

fun nat_decimal :: "nat \<Rightarrow> string" where
  "nat_decimal n = (if n < 10 then [digit_char n] else nat_decimal (n div 10) @ [digit_char (n mod 10)])"

declare nat_decimal.simps [simp del]

definition Itoa :: "int \<Rightarrow> string" where
  "Itoa n = (if n < 0 then CHR ''-'' # nat_decimal (nat (- n)) else nat_decimal (nat n))"

fun parse_decimal :: "string \<Rightarrow> nat \<Rightarrow> nat option" where
  "parse_decimal [] acc = Some acc"
| "parse_decimal (c # cs) acc =
     (case char_digit c of None \<Rightarrow> None | Some k \<Rightarrow> parse_decimal cs (10 * acc + k))"

definition ParseUint :: "string \<Rightarrow> nat option" where
  "ParseUint s = (if s = [] then None else parse_decimal s 0)"

definition ParseInt :: "string \<Rightarrow> int option" where
  "ParseInt s =
     (let neg = (s \<noteq> [] \<and> hd s = CHR ''-'');
          body = (if s \<noteq> [] \<and> (hd s = CHR ''-'' \<or> hd s = CHR ''+'') then tl s else s) in
      case ParseUint body of
        None \<Rightarrow> None
      | Some un \<Rightarrow>
          if \<not> neg \<and> un \<ge> 2 ^ 63 then None
          else if neg \<and> un > 2 ^ 63 then None
          else Some (if neg then - int un else int un))"

lemma char_digit_digit [simp]: "n < 10 \<Longrightarrow> char_digit (digit_char n) = Some n"
  by (simp add: char_digit_def digit_char_def)

lemma char_digit_less: "char_digit c = Some k \<Longrightarrow> k < 10"
  by (auto simp: char_digit_def Let_def split: if_splits)

lemma digit_char_sign: "n < 10 \<Longrightarrow> digit_char n \<noteq> CHR ''-'' \<and> digit_char n \<noteq> CHR ''+''"
  using char_digit_digit [of n] by (auto simp: char_digit_def)

lemma nat_decimal_Nil [simp]: "nat_decimal n \<noteq> []"
  by (subst nat_decimal.simps) simp

lemma parse_decimal_append:
  "parse_decimal (xs @ ys) acc = (case parse_decimal xs acc of None \<Rightarrow> None | Some k \<Rightarrow> parse_decimal ys k)"
  by (induction xs arbitrary: acc) (auto split: option.splits)

lemma parse_nat_decimal [simp]: "parse_decimal (nat_decimal n) 0 = Some n"
proof (induction n rule: nat_decimal.induct)
  case (1 n)
  show ?case
  proof (cases "n < 10")
    case True
    then show ?thesis by (subst nat_decimal.simps) simp
  next
    case False
    with 1 show ?thesis by (subst nat_decimal.simps) (simp add: parse_decimal_append)
  qed
qed

lemma hd_nat_decimal: "hd (nat_decimal n) \<noteq> CHR ''-'' \<and> hd (nat_decimal n) \<noteq> CHR ''+''"
proof (induction n rule: nat_decimal.induct)
  case (1 n)
  show ?case
  proof (cases "n < 10")
    case True
    then show ?thesis using digit_char_sign [of n] by (subst (1 2) nat_decimal.simps) simp
  next
    case False
    with 1 show ?thesis by (subst (1 2) nat_decimal.simps) simp
  qed
qed

lemma ParseInt_Itoa: "min_int64 \<le> n \<Longrightarrow> n \<le> max_int64 \<Longrightarrow> ParseInt (Itoa n) = Some n"
  using hd_nat_decimal [of "nat n"]
  by (auto simp: ParseInt_def Itoa_def ParseUint_def Let_def min_int64_def max_int64_def)

lemma ParseInt_range: "ParseInt s = Some n \<Longrightarrow> min_int64 \<le> n \<and> n \<le> max_int64"
  by (auto simp: ParseInt_def Let_def min_int64_def max_int64_def split: option.splits if_splits)

section \<open>Hexadecimal\<close>

definition hex_char :: "nat \<Rightarrow> char" where
  "hex_char n = (if n < 10 then char_of (48 + n) else char_of (87 + n))"

definition is_hex :: "char \<Rightarrow> bool" where
  "is_hex c = (let n = of_char c :: nat in 48 \<le> n \<and> n \<le> 57 \<or> 97 \<le> n \<and> n \<le> 102)"

fun hex_digits :: "nat \<Rightarrow> nat \<Rightarrow> string" where
  "hex_digits 0 n = []"
| "hex_digits (Suc k) n = hex_digits k (n div 16) @ [hex_char (n mod 16)]"

definition EncodeToString :: "digest \<Rightarrow> string" where
  "EncodeToString d = hex_digits 64 (unat d)"

lemma hex_char_inj: "a < 16 \<Longrightarrow> b < 16 \<Longrightarrow> hex_char a = hex_char b \<longleftrightarrow> a = b"
  by (auto simp: hex_char_def dest!: arg_cong [where f = "of_char :: char \<Rightarrow> nat"])

lemma is_hex_char: "n < 16 \<Longrightarrow> is_hex (hex_char n)"
  by (simp add: is_hex_def hex_char_def)

lemma length_hex_digits [simp]: "length (hex_digits k n) = k"
  by (induction k arbitrary: n) simp_all

lemma hex_digits_hex: "list_all is_hex (hex_digits k n)"
  by (induction k arbitrary: n) (simp_all add: is_hex_char)

lemma hex_digits_inj: "a < 16 ^ k \<Longrightarrow> b < 16 ^ k \<Longrightarrow> hex_digits k a = hex_digits k b \<Longrightarrow> a = b"
proof (induction k arbitrary: a b)
  case (Suc k)
  have "a div 16 < 16 ^ k" "b div 16 < 16 ^ k"
    using Suc.prems(1,2) by (simp_all add: less_mult_imp_div_less mult.commute)
  moreover have "hex_digits k (a div 16) = hex_digits k (b div 16)" "a mod 16 = b mod 16"
    using Suc.prems(3) by (simp_all add: hex_char_inj)
  ultimately have "a div 16 = b div 16" "a mod 16 = b mod 16" using Suc.IH by blast+
  then show ?case by (metis div_mult_mod_eq)
qed simp

lemma EncodeToString_inj [simp]: "EncodeToString a = EncodeToString b \<longleftrightarrow> a = b"
proof
  have "unat w < 16 ^ 64" for w :: digest using unsigned_less [of w] by simp
  then show "EncodeToString a = EncodeToString b \<Longrightarrow> a = b"
    unfolding EncodeToString_def using hex_digits_inj unsigned_word_eqI by blast
qed simp

lemma EncodeToString_shape: "length (EncodeToString d) = 64 \<and> list_all is_hex (EncodeToString d)"
  unfolding EncodeToString_def by (simp add: hex_digits_hex)

end
