(* ===== verification/Relay_Config.thy ===== *)
theory Relay_Config
  imports Go_Strconv
begin

text \<open>
  The configuration of \<open>internal/config/config.go\<close>: its types, and the functions that fill in
  defaults and validate. The YAML decoder is a parameter; so are the standard library's duration,
  address and URL parsers, of which the code uses the value and whether there is an error.
\<close>

section \<open>Types\<close>

record PostgresConfig =
  pg_DSN :: string
  pg_DSNEnv :: string
  pg_Slot :: string
  pg_Publication :: string
  pg_MessagePrefix :: string
  pg_StatusInterval :: duration
  pg_StatusIntervalValue :: string
  pg_CreateSlotIfMissing :: bool
  pg_MaxTransactionEvents :: int
  pg_MaxTransactionBytes :: int

record DiskSpaceConfig =
  ds_PauseBelowBytes :: int
  ds_ResumeAtBytes :: int
  ds_CheckInterval :: duration
  ds_CheckIntervalValue :: string

record SpoolConfig =
  sp_Path :: string
  sp_MaxEventBytes :: int
  sp_DiskSpace :: DiskSpaceConfig

record RetryConfig =
  rc_InitialDelay :: duration
  rc_InitialDelayValue :: string
  rc_MaxDelay :: duration
  rc_MaxDelayValue :: string
  rc_MaxAttempts :: int

record SinkConfig =
  sc_Name :: string
  sc_Type :: string
  sc_URL :: string
  sc_AuthorizationEnv :: string
  sc_SigningSecretEnv :: string
  sc_AllowInsecureHTTP :: bool

record DeliveryConfig =
  dc_PollInterval :: duration
  dc_PollIntervalValue :: string
  dc_RequestTimeout :: duration
  dc_RequestTimeoutValue :: string
  dc_Retry :: RetryConfig
  dc_Sinks :: "SinkConfig list"

record MonitoringConfig =
  mc_Listen :: string
  mc_SampleInterval :: duration
  mc_SampleIntervalValue :: string

record LoggingConfig =
  lc_Level :: string
  lc_Format :: string

record Config =
  cfg_Version :: int
  cfg_Postgres :: PostgresConfig
  cfg_Spool :: SpoolConfig
  cfg_Delivery :: DeliveryConfig
  cfg_Monitoring :: MonitoringConfig
  cfg_Logging :: LoggingConfig

text \<open>What \<open>url.Parse\<close> returns of an address, as far as the code looks at it.\<close>

record parsed_url =
  url_Scheme :: string
  url_Host :: string
  url_HasUser :: bool
  url_Fragment :: string

record parsers =
  ParseDuration :: "string \<Rightarrow> duration option"
  ParseAddrPort :: "string \<Rightarrow> nat option"
  ParseURL :: "string \<Rightarrow> parsed_url option"

section \<open>Operations\<close>

definition CurrentVersion :: int where
  "CurrentVersion = 1"

definition RequiredPrefix :: string where
  "RequiredPrefix = ''writerelay.v1''"

definition DefaultMaxEventBytes :: int where
  "DefaultMaxEventBytes = 256 * 1024"

definition in_range :: "char \<Rightarrow> char \<Rightarrow> char \<Rightarrow> bool" where
  "in_range lo hi c \<longleftrightarrow> (of_char lo :: nat) \<le> of_char c \<and> (of_char c :: nat) \<le> of_char hi"

text \<open>\<open>^[a-z_][a-z0-9_]{0,62}$\<close>\<close>

definition identifierPattern :: "string \<Rightarrow> bool" where
  "identifierPattern s = (case s of
     [] \<Rightarrow> False
   | c # cs \<Rightarrow> (in_range CHR ''a'' CHR ''z'' c \<or> c = CHR ''_'') \<and> length cs \<le> 62 \<and>
       list_all (\<lambda>k. in_range CHR ''a'' CHR ''z'' k \<or> in_range CHR ''0'' CHR ''9'' k \<or> k = CHR ''_'') cs)"

text \<open>\<open>^[A-Z_][A-Z0-9_]*$\<close>\<close>

definition envPattern :: "string \<Rightarrow> bool" where
  "envPattern s = (case s of
     [] \<Rightarrow> False
   | c # cs \<Rightarrow> (in_range CHR ''A'' CHR ''Z'' c \<or> c = CHR ''_'') \<and>
       list_all (\<lambda>k. in_range CHR ''A'' CHR ''Z'' k \<or> in_range CHR ''0'' CHR ''9'' k \<or> k = CHR ''_'') cs)"

text \<open>\<open>strings.ToLower\<close> on the bytes of a URL scheme, which are ASCII.\<close>

definition to_lower :: "string \<Rightarrow> string" where
  "to_lower = map (\<lambda>c. if in_range CHR ''A'' CHR ''Z'' c then char_of (of_char c + 32 :: nat) else c)"

definition boundedDuration :: "parsers \<Rightarrow> string \<Rightarrow> string \<Rightarrow> duration \<Rightarrow> duration \<Rightarrow> string + duration" where
  "boundedDuration p name v minimum maximum =
     (case ParseDuration p v of
        None \<Rightarrow> Inl (name @ '': invalid duration'')
      | Some duration \<Rightarrow>
          if duration < minimum \<or> duration > maximum then Inl (name @ '' must be between its bounds'')
          else Inr duration)"

definition validateOptionalEnvironmentName :: "string \<Rightarrow> string \<Rightarrow> string + unit" where
  "validateOptionalEnvironmentName name v =
     (if v = [] then Inr ()
      else if \<not> envPattern v then Inl (name @ '' must be an uppercase environment variable name'')
      else Inr ())"

definition or_default :: "string \<Rightarrow> string \<Rightarrow> string" where
  "or_default v d = (if v = [] then d else v)"

definition DiskSpaceConfig_setDefaultsAndValidate :: "parsers \<Rightarrow> DiskSpaceConfig \<Rightarrow> string + DiskSpaceConfig" where
  "DiskSpaceConfig_setDefaultsAndValidate p c =
     (if ds_PauseBelowBytes c < 0 \<or> ds_ResumeAtBytes c < 0 then
        Inl ''spool.disk_space thresholds must be non-negative byte counts''
      else if ds_PauseBelowBytes c = 0 \<and> ds_ResumeAtBytes c \<noteq> 0 then
        Inl ''spool.disk_space.resume_at_bytes requires pause_below_bytes''
      else if ds_PauseBelowBytes c \<noteq> 0 \<and> ds_ResumeAtBytes c \<le> ds_PauseBelowBytes c then
        Inl ''spool.disk_space.resume_at_bytes must exceed pause_below_bytes''
      else
        (let v = or_default (ds_CheckIntervalValue c) ''5s'' in
         case boundedDuration p ''spool.disk_space.check_interval'' v Second Minute of
           Inl err \<Rightarrow> Inl err
         | Inr interval \<Rightarrow> Inr (c\<lparr>ds_CheckIntervalValue := v, ds_CheckInterval := interval\<rparr>)))"

definition validate_webhook :: "parsers \<Rightarrow> string \<Rightarrow> SinkConfig \<Rightarrow> string + unit" where
  "validate_webhook p path sink =
     (case ParseURL p (sc_URL sink) of
        None \<Rightarrow> Inl (path @ ''.url must be an absolute HTTP(S) URL'')
      | Some endpoint \<Rightarrow>
          if url_Host endpoint = [] then Inl (path @ ''.url must be an absolute HTTP(S) URL'')
          else if url_HasUser endpoint \<or> url_Fragment endpoint \<noteq> [] then
            Inl (path @ ''.url must not contain user information or a fragment'')
          else if to_lower (url_Scheme endpoint) = ''http'' \<and> \<not> sc_AllowInsecureHTTP sink then
            Inl (path @ ''.url requires HTTPS unless allow_insecure_http is true'')
          else if to_lower (url_Scheme endpoint) \<noteq> ''https'' \<and> to_lower (url_Scheme endpoint) \<noteq> ''http'' then
            Inl (path @ ''.url must use HTTP or HTTPS'')
          else
            (case validateOptionalEnvironmentName (path @ ''.authorization_env'') (sc_AuthorizationEnv sink) of
               Inl err \<Rightarrow> Inl err
             | Inr _ \<Rightarrow> validateOptionalEnvironmentName (path @ ''.signing_secret_env'') (sc_SigningSecretEnv sink)))"

definition validate_sink :: "parsers \<Rightarrow> nat \<Rightarrow> string set \<Rightarrow> SinkConfig \<Rightarrow> string + unit" where
  "validate_sink p index names sink =
     (let path = ''delivery.sinks['' @ Itoa (int index) @ '']'' in
      if \<not> identifierPattern (sc_Name sink) then Inl (path @ ''.name must match ^[a-z_][a-z0-9_]{0,62}$'')
      else if sc_Name sink \<in> names then Inl (path @ ''.name is duplicated'')
      else if sc_Type sink = ''webhook'' then validate_webhook p path sink
      else if sc_Type sink = ''stdout'' then
        (if sc_URL sink \<noteq> [] \<or> sc_AuthorizationEnv sink \<noteq> [] \<or> sc_SigningSecretEnv sink \<noteq> [] \<or>
            sc_AllowInsecureHTTP sink
         then Inl (path @ '' stdout sink does not accept webhook fields'') else Inr ())
      else Inl (path @ ''.type must be webhook or stdout''))"

fun validate_sinks :: "parsers \<Rightarrow> nat \<Rightarrow> string set \<Rightarrow> SinkConfig list \<Rightarrow> string + unit" where
  "validate_sinks p index names [] = Inr ()"
| "validate_sinks p index names (sink # sinks) =
     (case validate_sink p index names sink of
        Inl err \<Rightarrow> Inl err
      | Inr _ \<Rightarrow> validate_sinks p (Suc index) (insert (sc_Name sink) names) sinks)"

definition retry_defaults :: "parsers \<Rightarrow> RetryConfig \<Rightarrow> string + RetryConfig" where
  "retry_defaults p c =
     (let iv = or_default (rc_InitialDelayValue c) ''1s''; mv = or_default (rc_MaxDelayValue c) ''5m'';
          attempts = (if rc_MaxAttempts c = 0 then 10 else rc_MaxAttempts c) in
      case boundedDuration p ''delivery.retry.initial_delay'' iv (100 * Millisecond) Hour of
        Inl err \<Rightarrow> Inl err
      | Inr initialDelay \<Rightarrow>
          (case boundedDuration p ''delivery.retry.max_delay'' mv (100 * Millisecond) (24 * Hour) of
             Inl err \<Rightarrow> Inl err
           | Inr maxDelay \<Rightarrow>
               if maxDelay < initialDelay then
                 Inl ''delivery.retry.max_delay must not be less than initial_delay''
               else if attempts < 1 \<or> attempts > 1000 then
                 Inl ''delivery.retry.max_attempts must be between 1 and 1000''
               else Inr \<lparr>rc_InitialDelay = initialDelay, rc_InitialDelayValue = iv, rc_MaxDelay = maxDelay,
                      rc_MaxDelayValue = mv, rc_MaxAttempts = attempts\<rparr>))"

definition DeliveryConfig_setDefaultsAndValidate :: "parsers \<Rightarrow> DeliveryConfig \<Rightarrow> string + DeliveryConfig" where
  "DeliveryConfig_setDefaultsAndValidate p c =
     (let pv = or_default (dc_PollIntervalValue c) ''1s''; tv = or_default (dc_RequestTimeoutValue c) ''10s'' in
      case boundedDuration p ''delivery.poll_interval'' pv (50 * Millisecond) Minute of
        Inl err \<Rightarrow> Inl err
      | Inr pollInterval \<Rightarrow>
          (case boundedDuration p ''delivery.request_timeout'' tv (100 * Millisecond) (2 * Minute) of
             Inl err \<Rightarrow> Inl err
           | Inr requestTimeout \<Rightarrow>
               (case retry_defaults p (dc_Retry c) of
                  Inl err \<Rightarrow> Inl err
                | Inr retry \<Rightarrow>
                    (case validate_sinks p 0 {} (dc_Sinks c) of
                       Inl err \<Rightarrow> Inl err
                     | Inr _ \<Rightarrow> Inr \<lparr>dc_PollInterval = pollInterval, dc_PollIntervalValue = pv,
                         dc_RequestTimeout = requestTimeout, dc_RequestTimeoutValue = tv,
                         dc_Retry = retry, dc_Sinks = dc_Sinks c\<rparr>))))"

definition monitoring_defaults :: "parsers \<Rightarrow> MonitoringConfig \<Rightarrow> string + MonitoringConfig" where
  "monitoring_defaults p c =
     (let v = or_default (mc_SampleIntervalValue c) ''15s'' in
      if mc_Listen c \<noteq> [] \<and> (ParseAddrPort p (mc_Listen c) = None \<or> ParseAddrPort p (mc_Listen c) = Some 0) then
        Inl ''monitoring.listen must be an IP address and port between 1 and 65535 (for example 127.0.0.1:9090)''
      else (case boundedDuration p ''monitoring.sample_interval'' v Second (5 * Minute) of
              Inl err \<Rightarrow> Inl err
            | Inr interval \<Rightarrow> Inr (c\<lparr>mc_SampleIntervalValue := v, mc_SampleInterval := interval\<rparr>)))"

definition postgres_defaults :: "parsers \<Rightarrow> PostgresConfig \<Rightarrow> string + PostgresConfig" where
  "postgres_defaults p c =
     (let v = or_default (pg_StatusIntervalValue c) ''10s'';
          events = (if pg_MaxTransactionEvents c = 0 then 10000 else pg_MaxTransactionEvents c);
          bytes = (if pg_MaxTransactionBytes c = 0 then 8 * 1024 * 1024 else pg_MaxTransactionBytes c) in
      if (pg_DSN c = []) = (pg_DSNEnv c = []) then Inl ''postgres requires exactly one of dsn and dsn_env''
      else if pg_DSNEnv c \<noteq> [] \<and> \<not> envPattern (pg_DSNEnv c) then
        Inl ''postgres.dsn_env must be an uppercase environment variable name''
      else if \<not> identifierPattern (pg_Slot c) then Inl ''postgres.slot must match ^[a-z_][a-z0-9_]{0,62}$''
      else if \<not> identifierPattern (pg_Publication c) then
        Inl ''postgres.publication must match ^[a-z_][a-z0-9_]{0,62}$''
      else if pg_MessagePrefix c \<noteq> RequiredPrefix then
        Inl (''postgres.message_prefix must be exactly '' @ RequiredPrefix)
      else (case ParseDuration p v of
              None \<Rightarrow> Inl ''postgres.status_interval: invalid duration''
            | Some duration \<Rightarrow>
                if duration < Second \<or> duration > 5 * Minute then
                  Inl ''postgres.status_interval must be between 1s and 5m''
                else if events < 1 \<or> events > 1000000 then
                  Inl ''postgres.max_transaction_events must be between 1 and 1000000''
                else if bytes < DefaultMaxEventBytes then
                  Inl (''postgres.max_transaction_bytes must be at least '' @ Itoa DefaultMaxEventBytes)
                else Inr (c\<lparr>pg_StatusInterval := duration, pg_StatusIntervalValue := v,
                       pg_MaxTransactionEvents := events, pg_MaxTransactionBytes := bytes\<rparr>)))"

definition spool_defaults :: "parsers \<Rightarrow> SpoolConfig \<Rightarrow> string + SpoolConfig" where
  "spool_defaults p c =
     (let bytes = (if sp_MaxEventBytes c = 0 then DefaultMaxEventBytes else sp_MaxEventBytes c) in
      if sp_Path c = [] then Inl ''spool.path is required''
      else if bytes < 1 \<or> bytes > DefaultMaxEventBytes then
        Inl (''spool.max_event_bytes must be between 1 and '' @ Itoa DefaultMaxEventBytes)
      else (case DiskSpaceConfig_setDefaultsAndValidate p (sp_DiskSpace c) of
              Inl err \<Rightarrow> Inl err
            | Inr disk \<Rightarrow> Inr (c\<lparr>sp_MaxEventBytes := bytes, sp_DiskSpace := disk\<rparr>)))"

definition logging_defaults :: "LoggingConfig \<Rightarrow> string + LoggingConfig" where
  "logging_defaults c =
     (let level = or_default (lc_Level c) ''info''; format = or_default (lc_Format c) ''text'' in
      if level \<notin> {''debug'', ''info'', ''warn'', ''error''} then
        Inl ''logging.level must be debug, info, warn, or error''
      else if format \<noteq> ''text'' \<and> format \<noteq> ''json'' then Inl ''logging.format must be text or json''
      else Inr (c\<lparr>lc_Level := level, lc_Format := format\<rparr>))"

definition Config_setDefaultsAndValidate :: "parsers \<Rightarrow> Config \<Rightarrow> string + Config" where
  "Config_setDefaultsAndValidate p c =
     (case monitoring_defaults p (cfg_Monitoring c) of
        Inl err \<Rightarrow> Inl err
      | Inr monitoring \<Rightarrow>
          if cfg_Version c \<noteq> CurrentVersion then Inl (''configuration version must be '' @ Itoa CurrentVersion)
          else (case postgres_defaults p (cfg_Postgres c) of
                  Inl err \<Rightarrow> Inl err
                | Inr postgres \<Rightarrow>
                    (case spool_defaults p (cfg_Spool c) of
                       Inl err \<Rightarrow> Inl err
                     | Inr spool \<Rightarrow>
                         (case DeliveryConfig_setDefaultsAndValidate p (cfg_Delivery c) of
                            Inl err \<Rightarrow> Inl err
                          | Inr delivery \<Rightarrow>
                              (case logging_defaults (cfg_Logging c) of
                                 Inl err \<Rightarrow> Inl err
                               | Inr logging \<Rightarrow>
                                   Inr (c\<lparr>cfg_Monitoring := monitoring, cfg_Postgres := postgres, cfg_Spool := spool,
                                          cfg_Delivery := delivery, cfg_Logging := logging\<rparr>))))))"

text \<open>\<open>Decode\<close> and \<open>Load\<close> with the YAML decoder's result as an argument.\<close>

definition Decode :: "parsers \<Rightarrow> string + Config \<Rightarrow> string + Config" where
  "Decode p decoded =
     (case decoded of
        Inl err \<Rightarrow> Inl (''decode YAML: '' @ err)
      | Inr cfg \<Rightarrow> Config_setDefaultsAndValidate p cfg)"

definition Load :: "parsers \<Rightarrow> string \<Rightarrow> (string + Config) option \<Rightarrow> string + Config" where
  "Load p path file =
     (case file of
        None \<Rightarrow> Inl ''open config''
      | Some decoded \<Rightarrow>
          (case Decode p decoded of
             Inl err \<Rightarrow> Inl (''load config '' @ path @ '': '' @ err)
           | Inr cfg \<Rightarrow> Inr cfg))"

definition PostgreSQLDSN :: "(string \<Rightarrow> string option) \<Rightarrow> Config \<Rightarrow> string + string" where
  "PostgreSQLDSN env c =
     (if pg_DSN (cfg_Postgres c) \<noteq> [] then Inr (pg_DSN (cfg_Postgres c))
      else (case env (pg_DSNEnv (cfg_Postgres c)) of
              None \<Rightarrow> Inl (''environment variable '' @ pg_DSNEnv (cfg_Postgres c) @ '' is not set'')
            | Some v \<Rightarrow>
                if v = [] then Inl (''environment variable '' @ pg_DSNEnv (cfg_Postgres c) @ '' is not set'')
                else Inr v))"
section \<open>What a valid configuration is\<close>

definition duration_ok :: "parsers \<Rightarrow> string \<Rightarrow> duration \<Rightarrow> duration \<Rightarrow> duration \<Rightarrow> bool" where
  "duration_ok p v d lo hi \<longleftrightarrow> v \<noteq> [] \<and> ParseDuration p v = Some d \<and> lo \<le> d \<and> d \<le> hi"

definition sink_ok :: "parsers \<Rightarrow> SinkConfig \<Rightarrow> bool" where
  "sink_ok p s \<longleftrightarrow> identifierPattern (sc_Name s) \<and>
     (sc_Type s = ''webhook'' \<and>
        (\<exists>u. ParseURL p (sc_URL s) = Some u \<and> url_Host u \<noteq> [] \<and> \<not> url_HasUser u \<and> url_Fragment u = [] \<and>
           (to_lower (url_Scheme u) = ''https'' \<or> to_lower (url_Scheme u) = ''http'' \<and> sc_AllowInsecureHTTP s)) \<and>
        (\<forall>v \<in> {sc_AuthorizationEnv s, sc_SigningSecretEnv s}. v = [] \<or> envPattern v) \<or>
      sc_Type s = ''stdout'' \<and> sc_URL s = [] \<and> sc_AuthorizationEnv s = [] \<and> sc_SigningSecretEnv s = [] \<and>
        \<not> sc_AllowInsecureHTTP s)"

definition retry_ok :: "parsers \<Rightarrow> RetryConfig \<Rightarrow> bool" where
  "retry_ok p r \<longleftrightarrow> duration_ok p (rc_InitialDelayValue r) (rc_InitialDelay r) (100 * Millisecond) Hour \<and>
     duration_ok p (rc_MaxDelayValue r) (rc_MaxDelay r) (100 * Millisecond) (24 * Hour) \<and>
     rc_InitialDelay r \<le> rc_MaxDelay r \<and> 1 \<le> rc_MaxAttempts r \<and> rc_MaxAttempts r \<le> 1000"

definition delivery_config_ok :: "parsers \<Rightarrow> DeliveryConfig \<Rightarrow> bool" where
  "delivery_config_ok p c \<longleftrightarrow> duration_ok p (dc_PollIntervalValue c) (dc_PollInterval c) (50 * Millisecond) Minute \<and>
     duration_ok p (dc_RequestTimeoutValue c) (dc_RequestTimeout c) (100 * Millisecond) (2 * Minute) \<and>
     retry_ok p (dc_Retry c) \<and> distinct (map sc_Name (dc_Sinks c)) \<and> (\<forall>s \<in> set (dc_Sinks c). sink_ok p s)"

definition disk_ok :: "parsers \<Rightarrow> DiskSpaceConfig \<Rightarrow> bool" where
  "disk_ok p c \<longleftrightarrow> duration_ok p (ds_CheckIntervalValue c) (ds_CheckInterval c) Second Minute \<and>
     (ds_PauseBelowBytes c = 0 \<and> ds_ResumeAtBytes c = 0 \<or>
      0 < ds_PauseBelowBytes c \<and> ds_PauseBelowBytes c < ds_ResumeAtBytes c)"

definition postgres_ok :: "parsers \<Rightarrow> PostgresConfig \<Rightarrow> bool" where
  "postgres_ok p c \<longleftrightarrow> (pg_DSN c = [] \<and> envPattern (pg_DSNEnv c) \<or> pg_DSN c \<noteq> [] \<and> pg_DSNEnv c = []) \<and>
     identifierPattern (pg_Slot c) \<and> identifierPattern (pg_Publication c) \<and> pg_MessagePrefix c = RequiredPrefix \<and>
     duration_ok p (pg_StatusIntervalValue c) (pg_StatusInterval c) Second (5 * Minute) \<and>
     1 \<le> pg_MaxTransactionEvents c \<and> pg_MaxTransactionEvents c \<le> 1000000 \<and>
     DefaultMaxEventBytes \<le> pg_MaxTransactionBytes c"

definition config_ok :: "parsers \<Rightarrow> Config \<Rightarrow> bool" where
  "config_ok p c \<longleftrightarrow> cfg_Version c = CurrentVersion \<and> postgres_ok p (cfg_Postgres c) \<and>
     sp_Path (cfg_Spool c) \<noteq> [] \<and> 1 \<le> sp_MaxEventBytes (cfg_Spool c) \<and>
     sp_MaxEventBytes (cfg_Spool c) \<le> DefaultMaxEventBytes \<and> disk_ok p (sp_DiskSpace (cfg_Spool c)) \<and>
     delivery_config_ok p (cfg_Delivery c) \<and>
     (mc_Listen (cfg_Monitoring c) = [] \<or> (\<exists>port > 0. ParseAddrPort p (mc_Listen (cfg_Monitoring c)) = Some port)) \<and>
     duration_ok p (mc_SampleIntervalValue (cfg_Monitoring c)) (mc_SampleInterval (cfg_Monitoring c)) Second (5 * Minute) \<and>
     lc_Level (cfg_Logging c) \<in> {''debug'', ''info'', ''warn'', ''error''} \<and>
     lc_Format (cfg_Logging c) \<in> {''text'', ''json''}"

section \<open>Validation accepts exactly the valid configurations\<close>

lemma or_default_nonempty: "d \<noteq> [] \<Longrightarrow> or_default v d \<noteq> []"
  by (simp add: or_default_def)

lemma or_default_set [simp]: "v \<noteq> [] \<Longrightarrow> or_default v d = v"
  by (simp add: or_default_def)

lemma boundedDuration_Inr: "boundedDuration p n v lo hi = Inr d \<longleftrightarrow> ParseDuration p v = Some d \<and> lo \<le> d \<and> d \<le> hi"
  by (auto simp: boundedDuration_def split: option.splits)

lemma bounded_default:
  "boundedDuration p n (or_default v def) lo hi = Inr d \<Longrightarrow> def \<noteq> [] \<Longrightarrow> duration_ok p (or_default v def) d lo hi"
  by (simp add: duration_ok_def boundedDuration_Inr or_default_nonempty)



lemma identifier_nonempty: "\<not> identifierPattern []"
  by (simp add: identifierPattern_def)

lemma envPattern_nonempty: "\<not> envPattern []"
  by (simp add: envPattern_def)

lemma validateOptionalEnvironmentName_Inr:
  "validateOptionalEnvironmentName n v = Inr u \<longleftrightarrow> v = [] \<or> envPattern v"
  by (simp add: validateOptionalEnvironmentName_def)

lemma validate_webhook_Inr:
  "validate_webhook p path s = Inr u \<longleftrightarrow>
     (\<exists>e. ParseURL p (sc_URL s) = Some e \<and> url_Host e \<noteq> [] \<and> \<not> url_HasUser e \<and> url_Fragment e = [] \<and>
        (to_lower (url_Scheme e) = ''https'' \<or> to_lower (url_Scheme e) = ''http'' \<and> sc_AllowInsecureHTTP s)) \<and>
     (\<forall>v \<in> {sc_AuthorizationEnv s, sc_SigningSecretEnv s}. v = [] \<or> envPattern v)"
proof (cases "ParseURL p (sc_URL s)")
  case (Some e)
  then show ?thesis
    by (cases "validateOptionalEnvironmentName (path @ ''.authorization_env'') (sc_AuthorizationEnv s)")
       (auto simp: validate_webhook_def validateOptionalEnvironmentName_Inr validateOptionalEnvironmentName_def
             split: if_splits)
qed (simp add: validate_webhook_def)

lemma validate_sink_Inr:
  "validate_sink p i names s = Inr u \<longleftrightarrow> sc_Name s \<notin> names \<and> sink_ok p s"
  unfolding validate_sink_def sink_ok_def Let_def
  by (simp add: validate_webhook_Inr)

lemma validate_sinks_Inr:
  "validate_sinks p i names ss = Inr u \<longleftrightarrow>
     distinct (map sc_Name ss) \<and> names \<inter> sc_Name ` set ss = {} \<and> (\<forall>s \<in> set ss. sink_ok p s)"
proof (induction ss arbitrary: i names)
  case (Cons s ss)
  show ?case
  proof (cases "validate_sink p i names s")
    case (Inl e)
    then have "\<not> (sc_Name s \<notin> names \<and> sink_ok p s)"
      using validate_sink_Inr [of p i names s "()"] by simp
    with Inl show ?thesis by auto
  next
    case (Inr v)
    then have "sc_Name s \<notin> names \<and> sink_ok p s"
      using validate_sink_Inr [of p i names s v] by simp
    with Inr Cons show ?thesis by auto
  qed
qed simp

lemma retry_defaults_ok: "retry_defaults p c = Inr c' \<Longrightarrow> retry_ok p c'"
  by (auto simp: retry_defaults_def retry_ok_def Let_def bounded_default split: sum.splits if_splits)

lemma retry_defaults_fixed: "retry_ok p c \<Longrightarrow> retry_defaults p c = Inr c"
  by (auto simp: retry_defaults_def retry_ok_def Let_def duration_ok_def boundedDuration_def)

lemma delivery_defaults_ok: "DeliveryConfig_setDefaultsAndValidate p c = Inr c' \<Longrightarrow> delivery_config_ok p c'"
  by (auto simp: DeliveryConfig_setDefaultsAndValidate_def delivery_config_ok_def Let_def bounded_default
        retry_defaults_ok validate_sinks_Inr split: sum.splits)

lemma delivery_defaults_fixed:
  assumes "delivery_config_ok p c"
  shows "DeliveryConfig_setDefaultsAndValidate p c = Inr c"
proof -
  have "validate_sinks p 0 {} (dc_Sinks c) = Inr ()" "retry_defaults p (dc_Retry c) = Inr (dc_Retry c)"
    using assms by (auto simp: validate_sinks_Inr delivery_config_ok_def intro: retry_defaults_fixed)
  then show ?thesis
    using assms
    by (auto simp: DeliveryConfig_setDefaultsAndValidate_def delivery_config_ok_def Let_def duration_ok_def boundedDuration_def)
qed

lemma disk_defaults_ok: "DiskSpaceConfig_setDefaultsAndValidate p c = Inr c' \<Longrightarrow> disk_ok p c'"
  by (auto simp: DiskSpaceConfig_setDefaultsAndValidate_def disk_ok_def Let_def bounded_default
      split: sum.splits if_splits)

lemma disk_defaults_fixed: "disk_ok p c \<Longrightarrow> DiskSpaceConfig_setDefaultsAndValidate p c = Inr c"
  by (auto simp: DiskSpaceConfig_setDefaultsAndValidate_def disk_ok_def Let_def duration_ok_def boundedDuration_def)

lemma postgres_defaults_ok: "postgres_defaults p c = Inr c' \<Longrightarrow> postgres_ok p c'"
  by (auto simp: postgres_defaults_def postgres_ok_def Let_def duration_ok_def or_default_nonempty
        DefaultMaxEventBytes_def split: option.splits if_splits)

lemma postgres_defaults_fixed: "postgres_ok p c \<Longrightarrow> postgres_defaults p c = Inr c"
  by (auto simp: postgres_defaults_def postgres_ok_def Let_def duration_ok_def DefaultMaxEventBytes_def envPattern_nonempty)

lemma monitoring_defaults_ok:
  "monitoring_defaults p c = Inr c' \<Longrightarrow>
     (mc_Listen c' = [] \<or> (\<exists>port > 0. ParseAddrPort p (mc_Listen c') = Some port)) \<and>
     duration_ok p (mc_SampleIntervalValue c') (mc_SampleInterval c') Second (5 * Minute)"
  by (auto simp: monitoring_defaults_def Let_def bounded_default split: sum.splits if_splits)

lemma spool_defaults_ok:
  "spool_defaults p c = Inr c' \<Longrightarrow> sp_Path c' \<noteq> [] \<and> 1 \<le> sp_MaxEventBytes c' \<and>
     sp_MaxEventBytes c' \<le> DefaultMaxEventBytes \<and> disk_ok p (sp_DiskSpace c')"
  by (auto simp: spool_defaults_def Let_def disk_defaults_ok split: sum.splits if_splits)

lemma logging_defaults_ok:
  "logging_defaults c = Inr c' \<Longrightarrow> lc_Level c' \<in> {''debug'', ''info'', ''warn'', ''error''} \<and> lc_Format c' \<in> {''text'', ''json''}"
  by (auto simp: logging_defaults_def Let_def split: if_splits)

lemma defaults_config_ok:
  assumes "Config_setDefaultsAndValidate p c = Inr c'"
  shows "config_ok p c'"
proof -
  obtain m po sp de l where parts: "monitoring_defaults p (cfg_Monitoring c) = Inr m"
    "postgres_defaults p (cfg_Postgres c) = Inr po" "spool_defaults p (cfg_Spool c) = Inr sp"
    "DeliveryConfig_setDefaultsAndValidate p (cfg_Delivery c) = Inr de" "logging_defaults (cfg_Logging c) = Inr l"
    and c': "cfg_Version c = CurrentVersion"
      "c' = c\<lparr>cfg_Monitoring := m, cfg_Postgres := po, cfg_Spool := sp, cfg_Delivery := de, cfg_Logging := l\<rparr>"
    using assms by (auto simp: Config_setDefaultsAndValidate_def split: sum.splits if_splits)
  show ?thesis
    using c' monitoring_defaults_ok [OF parts(1)] postgres_defaults_ok [OF parts(2)] spool_defaults_ok [OF parts(3)]
      delivery_defaults_ok [OF parts(4)] logging_defaults_ok [OF parts(5)]
    by (simp add: config_ok_def)
qed

text \<open>(C37) A configuration that validation accepts is valid, defaults included: versions, names and
  intervals are within their bounds, sink names are distinct, a webhook uses HTTPS unless plain
  HTTP was allowed, and the resume threshold of the disk guard lies above the pause threshold.\<close>

theorem config_validated:
  assumes "Config_setDefaultsAndValidate p c = Inr c'"
  shows "config_ok p c'"
  using assms by (rule defaults_config_ok)

text \<open>Nothing valid is refused or altered: validation returns every valid configuration
  unchanged. With the previous property, validation is idempotent.\<close>

theorem config_accepted:
  assumes "config_ok p c"
  shows "Config_setDefaultsAndValidate p c = Inr c"
proof -
  have "monitoring_defaults p (cfg_Monitoring c) = Inr (cfg_Monitoring c)"
    using assms by (auto simp: monitoring_defaults_def config_ok_def Let_def duration_ok_def boundedDuration_def)
  moreover have "postgres_defaults p (cfg_Postgres c) = Inr (cfg_Postgres c)"
    using assms by (simp add: config_ok_def postgres_defaults_fixed)
  moreover have "spool_defaults p (cfg_Spool c) = Inr (cfg_Spool c)"
    using assms disk_defaults_fixed [of p "sp_DiskSpace (cfg_Spool c)"] by (simp add: config_ok_def spool_defaults_def Let_def)
  moreover have "logging_defaults (cfg_Logging c) = Inr (cfg_Logging c)"
    using assms by (auto simp: config_ok_def logging_defaults_def Let_def)
  ultimately show ?thesis
    using assms by (simp add: Config_setDefaultsAndValidate_def config_ok_def delivery_defaults_fixed)
qed
section \<open>A concrete configuration\<close>

definition example_parsers :: parsers where
  "example_parsers = \<lparr>
     ParseDuration = (\<lambda>v. if v = ''1s'' then Some Second else if v = ''5s'' then Some (5 * Second)
       else if v = ''10s'' then Some (10 * Second) else if v = ''15s'' then Some (15 * Second)
       else if v = ''5m'' then Some (5 * Minute) else None),
     ParseAddrPort = (\<lambda>_. None),
     ParseURL = (\<lambda>v. if v = ''https://billing.example/hook''
       then Some \<lparr>url_Scheme = ''https'', url_Host = ''billing.example'', url_HasUser = False, url_Fragment = []\<rparr>
       else None)\<rparr>"

definition orders_config :: SinkConfig where
  "orders_config = \<lparr>sc_Name = ''orders'', sc_Type = ''webhook'', sc_URL = ''https://billing.example/hook'',
     sc_AuthorizationEnv = [], sc_SigningSecretEnv = ''ORDERS_SECRET'', sc_AllowInsecureHTTP = False\<rparr>"

definition example_config :: Config where
  "example_config = \<lparr>cfg_Version = 1,
     cfg_Postgres = \<lparr>pg_DSN = [], pg_DSNEnv = ''WRITERELAY_DSN'', pg_Slot = ''writerelay'',
       pg_Publication = ''writerelay'', pg_MessagePrefix = ''writerelay.v1'', pg_StatusInterval = 0,
       pg_StatusIntervalValue = [], pg_CreateSlotIfMissing = False, pg_MaxTransactionEvents = 0,
       pg_MaxTransactionBytes = 0\<rparr>,
     cfg_Spool = \<lparr>sp_Path = ''spool.db'', sp_MaxEventBytes = 0,
       sp_DiskSpace = \<lparr>ds_PauseBelowBytes = 100, ds_ResumeAtBytes = 200, ds_CheckInterval = 0,
         ds_CheckIntervalValue = []\<rparr>\<rparr>,
     cfg_Delivery = \<lparr>dc_PollInterval = 0, dc_PollIntervalValue = [], dc_RequestTimeout = 0,
       dc_RequestTimeoutValue = [],
       dc_Retry = \<lparr>rc_InitialDelay = 0, rc_InitialDelayValue = [], rc_MaxDelay = 0, rc_MaxDelayValue = [],
         rc_MaxAttempts = 0\<rparr>,
       dc_Sinks = [orders_config]\<rparr>,
     cfg_Monitoring = \<lparr>mc_Listen = [], mc_SampleInterval = 0, mc_SampleIntervalValue = []\<rparr>,
     cfg_Logging = \<lparr>lc_Level = [], lc_Format = []\<rparr>\<rparr>"

lemmas config_defs = Config_setDefaultsAndValidate_def monitoring_defaults_def postgres_defaults_def
  spool_defaults_def logging_defaults_def DeliveryConfig_setDefaultsAndValidate_def retry_defaults_def
  DiskSpaceConfig_setDefaultsAndValidate_def validate_sink_def validate_webhook_def
  validateOptionalEnvironmentName_def boundedDuration_def or_default_def CurrentVersion_def
  RequiredPrefix_def DefaultMaxEventBytes_def identifierPattern_def envPattern_def in_range_def to_lower_def
  duration_defs

definition example_validated :: Config where
  "example_validated = (case Config_setDefaultsAndValidate example_parsers example_config of
     Inl _ \<Rightarrow> example_config | Inr c \<Rightarrow> c)"

lemma example_validates: "Config_setDefaultsAndValidate example_parsers example_config = Inr example_validated"
  unfolding example_validated_def
  by (simp add: config_defs example_config_def orders_config_def example_parsers_def Let_def)

theorem config_validated_witness: "config_ok example_parsers example_validated"
  by (rule config_validated [OF example_validates])

theorem config_accepted_witness: "Config_setDefaultsAndValidate example_parsers example_validated = Inr example_validated"
proof (rule config_accepted)
  show "config_ok example_parsers example_validated"
    by (simp add: example_validated_def config_defs example_config_def orders_config_def example_parsers_def Let_def
        config_ok_def postgres_ok_def disk_ok_def delivery_config_ok_def retry_ok_def sink_ok_def duration_ok_def)
qed

end
