(* ===== verification/Go_JSON.thy ===== *)
theory Go_JSON
  imports Go_Strconv
begin

text \<open>
  What the program uses of Go's \<open>unicode/utf8\<close> and \<open>encoding/json\<close>: decoding and encoding of
  UTF-8, and the decoder's grammar of JSON values with the decoded contents of strings. Input is
  a list of bytes.
\<close>

section \<open>UTF-8\<close>

abbreviation code :: "char \<Rightarrow> nat" where
  "code c \<equiv> of_char c"

definition RuneError :: nat where
  "RuneError = 65533"

definition continuation :: "nat \<Rightarrow> nat \<Rightarrow> char list \<Rightarrow> bool" where
  "continuation lo hi s \<longleftrightarrow> (case s of [] \<Rightarrow> False | c # _ \<Rightarrow> lo \<le> code c \<and> code c \<le> hi)"

text \<open>The first rune of a byte string and its width, width 1 and \<open>RuneError\<close> for an invalid
  encoding.\<close>

definition DecodeRune :: "bytes \<Rightarrow> nat \<times> nat" where
  "DecodeRune s = (case s of
     [] \<Rightarrow> (RuneError, 0)
   | c # t \<Rightarrow>
       (let b = code c;
            lo = (if b = 224 then 160 else if b = 240 then 144 else 128);
            hi = (if b = 237 then 159 else if b = 244 then 143 else 191);
            low6 = (\<lambda>k. code (t ! k) mod 64) in
        if b < 128 then (b, 1)
        else if 194 \<le> b \<and> b \<le> 223 \<and> continuation lo hi t then ((b mod 32) * 64 + low6 0, 2)
        else if 224 \<le> b \<and> b \<le> 239 \<and> continuation lo hi t \<and> continuation 128 191 (drop 1 t)
          then ((b mod 16) * 4096 + low6 0 * 64 + low6 1, 3)
        else if 240 \<le> b \<and> b \<le> 244 \<and> continuation lo hi t \<and> continuation 128 191 (drop 1 t) \<and>
            continuation 128 191 (drop 2 t)
          then ((b mod 8) * 262144 + low6 0 * 4096 + low6 1 * 64 + low6 2, 4)
        else (RuneError, 1)))"

definition EncodeRune :: "nat \<Rightarrow> bytes" where
  "EncodeRune rune =
     (let r = (if rune > 1114111 \<or> 55296 \<le> rune \<and> rune \<le> 57343 then RuneError else rune) in
      map char_of
        (if r < 128 then [r]
         else if r < 2048 then [192 + r div 64, 128 + r mod 64]
         else if r < 65536 then [224 + r div 4096, 128 + r div 64 mod 64, 128 + r mod 64]
         else [240 + r div 262144, 128 + r div 4096 mod 64, 128 + r div 64 mod 64, 128 + r mod 64]))"

lemma DecodeRune_width: "s \<noteq> [] \<Longrightarrow> 1 \<le> snd (DecodeRune s)"
  by (cases s) (auto simp: DecodeRune_def Let_def)

section \<open>Strings\<close>

definition hex_value :: "char \<Rightarrow> nat option" where
  "hex_value c =
     (let n = code c in
      if 48 \<le> n \<and> n \<le> 57 then Some (n - 48)
      else if 97 \<le> n \<and> n \<le> 102 then Some (n - 87)
      else if 65 \<le> n \<and> n \<le> 70 then Some (n - 55) else None)"

definition hex4 :: "bytes \<Rightarrow> (nat \<times> bytes) option" where
  "hex4 s = (case s of
     a # b # c # d # rest \<Rightarrow>
       (case (hex_value a, hex_value b, hex_value c, hex_value d) of
          (Some w, Some x, Some y, Some z) \<Rightarrow> Some (((w * 16 + x) * 16 + y) * 16 + z, rest)
        | _ \<Rightarrow> None)
   | _ \<Rightarrow> None)"

text \<open>The rune of a \<open>\u\<close> escape. A valid surrogate pair is one rune; a surrogate that is not the
  first half of one becomes \<open>RuneError\<close>.\<close>

definition escape_rune :: "nat \<Rightarrow> bytes \<Rightarrow> nat \<times> bytes" where
  "escape_rune u rest =
     (if 55296 \<le> u \<and> u \<le> 57343 then
        (case rest of
           a # b # t \<Rightarrow>
             (case hex4 t of
                Some (v, rest') \<Rightarrow>
                  if a = CHR 0x5C \<and> b = CHR ''u'' \<and> u < 56320 \<and> 56320 \<le> v \<and> v \<le> 57343
                  then ((u - 55296) * 1024 + (v - 56320) + 65536, rest') else (RuneError, rest)
              | None \<Rightarrow> (RuneError, rest))
         | _ \<Rightarrow> (RuneError, rest))
      else (u, rest))"

definition parse_escape :: "bytes \<Rightarrow> (bytes \<times> bytes) option" where
  "parse_escape s = (case s of
     [] \<Rightarrow> None
   | e # rest \<Rightarrow>
       if e = CHR 0x22 \<or> e = CHR 0x5C \<or> e = CHR ''/'' then Some ([e], rest)
       else if e = CHR ''b'' then Some ([CHR 0x08], rest)
       else if e = CHR ''f'' then Some ([CHR 0x0C], rest)
       else if e = CHR ''n'' then Some ([CHR 0x0A], rest)
       else if e = CHR ''r'' then Some ([CHR 0x0D], rest)
       else if e = CHR ''t'' then Some ([CHR 0x09], rest)
       else if e = CHR ''u'' then
         (case hex4 rest of
            None \<Rightarrow> None
          | Some (u, rest') \<Rightarrow> (case escape_rune u rest' of (rune, rest'') \<Rightarrow> Some (EncodeRune rune, rest'')))
       else None)"

lemma hex4_shorter: "hex4 s = Some (u, r) \<Longrightarrow> length r < length s"
  by (auto simp: hex4_def split: list.splits option.splits)

lemma escape_rune_shorter: "length (snd (escape_rune u r)) \<le> length r"
  using hex4_shorter by (auto simp: escape_rune_def split: list.splits option.splits) fastforce

lemma parse_escape_shorter: "parse_escape s = Some (b, r) \<Longrightarrow> length r < length s"
proof -
  assume "parse_escape s = Some (b, r)"
  moreover have "length (snd (escape_rune u t)) \<le> length t" for u t by (rule escape_rune_shorter)
  ultimately show ?thesis
    using hex4_shorter [of "tl s"]
    by (auto simp: parse_escape_def split: list.splits if_splits option.splits prod.splits)
       (metis le_less_trans less_SucI snd_conv)
qed

text \<open>The rest of a string after its opening quote.\<close>

function parse_chars :: "bytes \<Rightarrow> (bytes \<times> bytes) option" where
  "parse_chars s = (case s of
     [] \<Rightarrow> None
   | c # cs \<Rightarrow>
       if c = CHR 0x22 then Some ([], cs)
       else if c = CHR 0x5C then
         (case parse_escape cs of
            None \<Rightarrow> None
          | Some (out, rest) \<Rightarrow>
              (case parse_chars rest of None \<Rightarrow> None | Some (b, r) \<Rightarrow> Some (out @ b, r)))
       else if code c < 32 then None
       else
         (case parse_chars (drop (snd (DecodeRune s)) s) of
            None \<Rightarrow> None
          | Some (b, r) \<Rightarrow> Some (EncodeRune (fst (DecodeRune s)) @ b, r)))"
  by pat_completeness auto
termination
proof (relation "measure length", goal_cases)
  case (2 s c cs a out rest)
  then show ?case using parse_escape_shorter by fastforce
next
  case (3 s c cs)
  then show ?case using DecodeRune_width [of s] by simp
qed simp

declare parse_chars.simps [simp del]

lemma parse_chars_Nil [simp]: "parse_chars [] = None"
  by (simp add: parse_chars.simps)

lemma parse_chars_Cons:
  "parse_chars (c # cs) =
     (if c = CHR 0x22 then Some ([], cs)
      else if c = CHR 0x5C then
        (case parse_escape cs of
           None \<Rightarrow> None
         | Some (out, rest) \<Rightarrow>
             (case parse_chars rest of None \<Rightarrow> None | Some (b, r) \<Rightarrow> Some (out @ b, r)))
      else if code c < 32 then None
      else
        (case parse_chars (drop (snd (DecodeRune (c # cs))) (c # cs)) of
           None \<Rightarrow> None
         | Some (b, r) \<Rightarrow> Some (EncodeRune (fst (DecodeRune (c # cs))) @ b, r)))"
  by (simp add: parse_chars.simps [of "c # cs"])

lemma parse_chars_shorter: "parse_chars s = Some (b, r) \<Longrightarrow> length r < length s"
proof (induction s arbitrary: b r rule: parse_chars.induct)
  case (1 s)
  show ?case
  proof (cases s)
    case Nil
    with 1(3) show ?thesis by (simp add: parse_chars.simps)
  next
    case (Cons c cs)
    show ?thesis
    proof (cases "c = CHR 0x22 \<or> code c < 32 \<and> c \<noteq> CHR 0x5C")
      case True
      with 1(3) Cons show ?thesis by (auto simp: parse_chars_Cons split: if_splits)
    next
      case False
      show ?thesis
      proof (cases "c = CHR 0x5C")
        case True
        then obtain out rest b' where "parse_escape cs = Some (out, rest)" "parse_chars rest = Some (b', r)"
          using 1(3) Cons by (auto simp: parse_chars_Cons split: option.splits)
        with 1(1) [OF Cons _ True] parse_escape_shorter [of cs] Cons True show ?thesis by fastforce
      next
        case esc: False
        then obtain b' where "parse_chars (drop (snd (DecodeRune s)) s) = Some (b', r)"
          using 1(3) Cons False by (auto simp: parse_chars_Cons split: option.splits)
        with 1(2) [OF Cons _ esc] False esc have "length r < length (drop (snd (DecodeRune s)) s)" by blast
        then show ?thesis by simp
      qed
    qed
  qed
qed
section \<open>Values\<close>

datatype json =
    JNull
  | JBool bool
  | JNumber string
  | JString bytes
  | JArray "json list"
  | JObject "(bytes \<times> json) list"

definition is_space :: "char \<Rightarrow> bool" where
  "is_space c \<longleftrightarrow> c \<in> {CHR 0x20, CHR 0x09, CHR 0x0D, CHR 0x0A}"

definition skip_ws :: "bytes \<Rightarrow> bytes" where
  "skip_ws s = dropWhile is_space s"

definition is_digit :: "char \<Rightarrow> bool" where
  "is_digit c \<longleftrightarrow> 48 \<le> code c \<and> code c \<le> 57"

definition starts_with :: "string \<Rightarrow> bytes \<Rightarrow> bool" where
  "starts_with w s \<longleftrightarrow> take (length w) s = w"

text \<open>A run of at least one digit.\<close>

definition digits1 :: "bytes \<Rightarrow> (string \<times> bytes) option" where
  "digits1 s = (if takeWhile is_digit s = [] then None else Some (takeWhile is_digit s, dropWhile is_digit s))"

definition parse_int :: "bytes \<Rightarrow> (string \<times> bytes) option" where
  "parse_int s = (case s of
     [] \<Rightarrow> None
   | c # cs \<Rightarrow> if c = CHR ''0'' then Some (''0'', cs) else digits1 s)"

definition parse_frac :: "bytes \<Rightarrow> (string \<times> bytes) option" where
  "parse_frac s = (case s of
     [] \<Rightarrow> Some ([], [])
   | c # cs \<Rightarrow>
       if c = CHR ''.'' then (case digits1 cs of None \<Rightarrow> None | Some (d, r) \<Rightarrow> Some (c # d, r))
       else Some ([], s))"

definition parse_exp :: "bytes \<Rightarrow> (string \<times> bytes) option" where
  "parse_exp s = (case s of
     [] \<Rightarrow> Some ([], [])
   | c # cs \<Rightarrow>
       if c = CHR ''e'' \<or> c = CHR ''E'' then
         (let sign = (if cs \<noteq> [] \<and> (hd cs = CHR ''+'' \<or> hd cs = CHR ''-'') then [hd cs] else []) in
          case digits1 (drop (length sign) cs) of None \<Rightarrow> None | Some (d, r) \<Rightarrow> Some (c # sign @ d, r))
       else Some ([], s))"

definition parse_number :: "bytes \<Rightarrow> (string \<times> bytes) option" where
  "parse_number s =
     (let sign = (if s \<noteq> [] \<and> hd s = CHR ''-'' then ''-'' else []) in
      case parse_int (drop (length sign) s) of
        None \<Rightarrow> None
      | Some (i, r) \<Rightarrow>
          (case parse_frac r of
             None \<Rightarrow> None
           | Some (f, r') \<Rightarrow>
               (case parse_exp r' of None \<Rightarrow> None | Some (e, r'') \<Rightarrow> Some (sign @ i @ f @ e, r''))))"

text \<open>Values that do not nest.\<close>

definition parse_scalar :: "bytes \<Rightarrow> (json \<times> bytes) option" where
  "parse_scalar s =
     (if s = [] then None
      else if hd s = CHR 0x22 then map_option (\<lambda>(b, r). (JString b, r)) (parse_chars (tl s))
      else if starts_with ''null'' s then Some (JNull, drop 4 s)
      else if starts_with ''true'' s then Some (JBool True, drop 4 s)
      else if starts_with ''false'' s then Some (JBool False, drop 5 s)
      else map_option (\<lambda>(b, r). (JNumber b, r)) (parse_number s))"

text \<open>
  The first argument bounds the recursion; one more than twice the length of the input is enough, as
  \<open>parse_value_fuel\<close> shows. The second is the nesting that is still allowed: Go's scanner
  refuses more than 10000 levels.
\<close>

fun parse_value :: "nat \<Rightarrow> nat \<Rightarrow> bytes \<Rightarrow> (json \<times> bytes) option"
  and parse_elements :: "nat \<Rightarrow> nat \<Rightarrow> bytes \<Rightarrow> (json list \<times> bytes) option"
  and parse_members :: "nat \<Rightarrow> nat \<Rightarrow> bytes \<Rightarrow> ((bytes \<times> json) list \<times> bytes) option" where
  "parse_value 0 d s = None"
| "parse_value (Suc n) d s = (case skip_ws s of
     [] \<Rightarrow> None
   | c # cs \<Rightarrow>
       if c = CHR ''{'' then
         if d = 0 then None
         else if starts_with ''}'' (skip_ws cs) then Some (JObject [], tl (skip_ws cs))
         else map_option (\<lambda>(ms, r). (JObject ms, r)) (parse_members n (d - 1) cs)
       else if c = CHR ''['' then
         if d = 0 then None
         else if starts_with '']'' (skip_ws cs) then Some (JArray [], tl (skip_ws cs))
         else map_option (\<lambda>(vs, r). (JArray vs, r)) (parse_elements n (d - 1) cs)
       else parse_scalar (c # cs))"
| "parse_elements 0 d s = None"
| "parse_elements (Suc n) d s = (case parse_value n d s of
     None \<Rightarrow> None
   | Some (v, r) \<Rightarrow>
       (case skip_ws r of
          [] \<Rightarrow> None
        | c # cs \<Rightarrow>
            if c = CHR '','' then map_option (\<lambda>(vs, t). (v # vs, t)) (parse_elements n d cs)
            else if c = CHR '']'' then Some ([v], cs) else None))"
| "parse_members 0 d s = None"
| "parse_members (Suc n) d s = (case skip_ws s of
     [] \<Rightarrow> None
   | q # t \<Rightarrow>
       if q \<noteq> CHR 0x22 then None
       else (case parse_chars t of
               None \<Rightarrow> None
             | Some (k, r) \<Rightarrow>
                 if \<not> starts_with '':'' (skip_ws r) then None
                 else (case parse_value n d (tl (skip_ws r)) of
                         None \<Rightarrow> None
                       | Some (v, r') \<Rightarrow>
                           (case skip_ws r' of
                              [] \<Rightarrow> None
                            | c # cs \<Rightarrow>
                                if c = CHR '','' then map_option (\<lambda>(ms, u). ((k, v) # ms, u)) (parse_members n d cs)
                                else if c = CHR ''}'' then Some ([(k, v)], cs) else None))))"

definition maxNestingDepth :: nat where
  "maxNestingDepth = 10000"

definition parse_json :: "bytes \<Rightarrow> (json \<times> bytes) option" where
  "parse_json s = parse_value (Suc (2 * length s)) maxNestingDepth s"

text \<open>\<open>Decoder.Decode\<close>: the next value of the stream, the end of the stream, or an error.\<close>

datatype decode_result = DecodeEOF | DecodeError | DecodeValue json bytes

definition decoder_Decode :: "bytes \<Rightarrow> decode_result" where
  "decoder_Decode s =
     (if skip_ws s = [] then DecodeEOF
      else (case parse_json s of None \<Rightarrow> DecodeError | Some (v, r) \<Rightarrow> DecodeValue v r))"

text \<open>Storing members into a Go map keeps the last value of a key.\<close>

definition object_map :: "(bytes \<times> json) list \<Rightarrow> bytes \<Rightarrow> json option" where
  "object_map ms = map_of (rev ms)"

section \<open>The recursion bound is enough\<close>

lemma skip_ws_length: "length (skip_ws s) \<le> length s"
  by (simp add: skip_ws_def length_dropWhile_le)

lemma digits1_shorter: "digits1 s = Some (d, r) \<Longrightarrow> length r < length s"
proof -
  assume "digits1 s = Some (d, r)"
  then have "takeWhile is_digit s \<noteq> []" "r = dropWhile is_digit s"
    by (auto simp: digits1_def split: if_splits)
  then show ?thesis by (cases s) (auto simp: less_Suc_eq_le length_dropWhile_le split: if_splits)
qed

lemma parse_int_shorter: "parse_int s = Some (d, r) \<Longrightarrow> length r < length s"
  by (auto simp: parse_int_def split: list.splits if_splits dest: digits1_shorter)

lemma parse_frac_shorter: "parse_frac s = Some (d, r) \<Longrightarrow> length r \<le> length s"
  by (auto simp: parse_frac_def split: list.splits if_splits option.splits dest!: digits1_shorter)

lemma parse_exp_shorter: "parse_exp s = Some (d, r) \<Longrightarrow> length r \<le> length s"
  by (auto simp: parse_exp_def Let_def split: list.splits if_splits option.splits dest!: digits1_shorter)

lemma parse_number_shorter: "parse_number s = Some (d, r) \<Longrightarrow> length r < length s"
  by (force simp: parse_number_def Let_def split: option.splits if_splits
      dest!: parse_int_shorter parse_frac_shorter parse_exp_shorter)

lemma parse_scalar_shorter: "parse_scalar s = Some (v, r) \<Longrightarrow> length r < length s"
  by (cases s) (auto simp: parse_scalar_def split: if_splits dest!: parse_chars_shorter parse_number_shorter)

lemma parse_shorter:
  "parse_value n d s = Some (v, r) \<Longrightarrow> length r < length s"
  "parse_elements n d s = Some (vs, r) \<Longrightarrow> length r < length s"
  "parse_members n d s = Some (ms, r) \<Longrightarrow> length r < length s"
proof (induction n d s and n d s and n d s arbitrary: v r and vs r and ms r
    rule: parse_value_parse_elements_parse_members.induct)
  case (2 n d s)
  obtain c cs where s: "skip_ws s = c # cs" using 2(3) by (cases "skip_ws s") auto
  have len: "length cs < length s" using skip_ws_length [of s] s by simp
  have tl: "length (tl (skip_ws cs)) \<le> length cs" using skip_ws_length [of cs] by simp
  from 2 s len tl parse_scalar_shorter [of "c # cs"] skip_ws_length [of s] show ?case
    by (fastforce split: if_splits)
next
  case (4 n d s)
  then obtain w t c cs where "parse_value n d s = Some (w, t)" "skip_ws t = c # cs"
    by (auto split: option.splits list.splits)
  with 4 skip_ws_length [of t] show ?case by (fastforce split: if_splits)
next
  case (6 n d s)
  then obtain t k u w x c cs where r: "skip_ws s = CHR 0x22 # t" "parse_chars t = Some (k, u)"
    "starts_with '':'' (skip_ws u)" "parse_value n d (tl (skip_ws u)) = Some (w, x)" "skip_ws x = c # cs"
    by (auto split: option.splits list.splits if_splits)
  have "length x < length (tl (skip_ws u))" using 6(1) r by auto
  then have "length cs < length s"
    using parse_chars_shorter [OF r(2)] skip_ws_length [of s] skip_ws_length [of u] skip_ws_length [of x] r(1,5) by simp
  with 6 r show ?case by (fastforce split: if_splits)
qed simp_all

text \<open>Any two bounds that are large enough for the input give the same result.\<close>

lemma parse_fuel:
  "2 * length s < n \<Longrightarrow> 2 * length s < m \<Longrightarrow> parse_value n d s = parse_value m d s"
  "2 * length s + 1 < n \<Longrightarrow> 2 * length s + 1 < m \<Longrightarrow> parse_elements n d s = parse_elements m d s"
  "2 * length s + 1 < n \<Longrightarrow> 2 * length s + 1 < m \<Longrightarrow> parse_members n d s = parse_members m d s"
proof (induction n d s and n d s and n d s arbitrary: m and m and m
    rule: parse_value_parse_elements_parse_members.induct)
  case (2 n d s)
  obtain k where m: "m = Suc k" using 2(4) by (cases m) auto
  show ?case
  proof (cases "skip_ws s")
    case (Cons c cs)
    then have "length cs < length s" using skip_ws_length [of s] by simp
    then have b: "2 * length cs + 1 < n" "2 * length cs + 1 < k" using 2(3,4) m by linarith+
    have ms: "parse_members n (d - 1) cs = parse_members k (d - 1) cs"
      if "d \<noteq> 0" "c = CHR ''{''" "\<not> starts_with ''}'' (skip_ws cs)"
      by (rule 2(1) [OF Cons that(2,1,3) b])
    have es: "parse_elements n (d - 1) cs = parse_elements k (d - 1) cs"
      if "d \<noteq> 0" "c = CHR ''[''" "\<not> starts_with '']'' (skip_ws cs)"
      by (rule 2(2) [OF Cons _ that(2,1,3) b]) (simp add: that(2))
    show ?thesis using ms es by (simp add: m Cons)
  next
    case Nil
    show ?thesis by (simp only: m parse_value.simps Nil list.case)
  qed
next
  case (4 n d s)
  obtain k where m: "m = Suc k" using 4(4) by (cases m) auto
  have v: "parse_value n d s = parse_value k d s"
    by (rule 4(1)) (use 4(3,4) m in linarith)+
  have "parse_elements n d cs = parse_elements k d cs"
    if "parse_value n d s = Some (w, r)" "skip_ws r = CHR '','' # cs" for w r cs
  proof -
    have "length cs < length s" using parse_shorter(1) [OF that(1)] skip_ws_length [of r] that(2) by simp
    then have b: "2 * length cs + 1 < n" "2 * length cs + 1 < k" using 4(3,4) m by linarith+
    show ?thesis by (rule 4(2) [OF that(1) refl that(2) refl b])
  qed
  then show ?case
    by (simp add: m v [symmetric] split: option.split list.split)
next
  case (6 n d s)
  obtain k where m: "m = Suc k" using 6(4) by (cases m) auto
  have v: "parse_value n d (tl (skip_ws r)) = parse_value k d (tl (skip_ws r))"
    if "skip_ws s = CHR 0x22 # t" "parse_chars t = Some (key, r)" "starts_with '':'' (skip_ws r)" for t key r
  proof -
    have "length (tl (skip_ws r)) < length s"
      using parse_chars_shorter [OF that(2)] skip_ws_length [of s] skip_ws_length [of r] that(1) by simp
    then have b: "2 * length (tl (skip_ws r)) < n" "2 * length (tl (skip_ws r)) < k" using 6(3,4) m by linarith+
    show ?thesis by (rule 6(1) [OF that(1) _ that(2) refl _ b]) (use that(3) in simp_all)
  qed
  have ms: "parse_members n d cs = parse_members k d cs"
    if "skip_ws s = CHR 0x22 # t" "parse_chars t = Some (key, r)" "starts_with '':'' (skip_ws r)"
      "parse_value n d (tl (skip_ws r)) = Some (w, r')" "skip_ws r' = CHR '','' # cs" for t key r w r' cs
  proof -
    have "length r' < length s"
      using parse_shorter(1) [OF that(4)] parse_chars_shorter [OF that(2)] skip_ws_length [of s] skip_ws_length [of r] that(1)
      by simp
    then have "length cs < length s" using skip_ws_length [of r'] that(5) by simp
    then have b: "2 * length cs + 1 < n" "2 * length cs + 1 < k" using 6(3,4) m by linarith+
    show ?thesis by (rule 6(2) [OF that(1) _ that(2) refl _ that(4) refl that(5) refl b]) (use that(3) in simp_all)
  qed
  show ?case
    using v ms by (simp add: m split: option.split list.split)
qed simp_all

lemma parse_value_fuel: "2 * length s < n \<Longrightarrow> parse_value n maxNestingDepth s = parse_json s"
  unfolding parse_json_def by (rule parse_fuel(1)) simp_all

end
