(* ===== verification/Event_Validation.thy ===== *)
theory Event_Validation
  imports Go_JSON "HOL-Library.Code_Target_Nat"
begin

text \<open>
  The envelope check of \<open>internal/event/event.go\<close>. The RFC 3339 parser of the \<open>time\<close> package is
  a parameter; of its result only the presence of an error matters to the relay.
\<close>

section \<open>Definitions\<close>

datatype event_error = ErrMalformed string | ErrOversized string

record Metadata =
  md_SpecVersion :: string
  md_ID :: string
  md_Source :: string
  md_Type :: string
  md_Subject :: string
  md_Time :: "time option"
  md_DataContentType :: string

text \<open>\<open>json.Unmarshal\<close> of a raw value into a string: JSON null leaves the zero value.\<close>

definition decodeString :: "json \<Rightarrow> string \<Rightarrow> event_error + string" where
  "decodeString raw name =
     (case raw of
        JString v \<Rightarrow> Inr v
      | JNull \<Rightarrow> Inr []
      | _ \<Rightarrow> Inl (ErrMalformed (name @ '' must be a string'')))"

definition requiredString :: "(string \<Rightarrow> json option) \<Rightarrow> string \<Rightarrow> event_error + string" where
  "requiredString object name =
     (case object name of
        None \<Rightarrow> Inl (ErrMalformed (name @ '' is required''))
      | Some raw \<Rightarrow>
          (case decodeString raw name of
             Inl err \<Rightarrow> Inl err
           | Inr v \<Rightarrow> if v = [] then Inl (ErrMalformed (name @ '' must be a non-empty string'')) else Inr v))"

definition optionalString :: "(string \<Rightarrow> json option) \<Rightarrow> string \<Rightarrow> bool \<Rightarrow> event_error + string" where
  "optionalString object name allowEmpty =
     (case object name of
        None \<Rightarrow> Inr []
      | Some raw \<Rightarrow>
          (case decodeString raw name of
             Inl err \<Rightarrow> Inl err
           | Inr v \<Rightarrow>
               if \<not> allowEmpty \<and> v = [] then Inl (ErrMalformed (name @ '' must be a non-empty string''))
               else Inr v))"

definition ensureEOF :: "bytes \<Rightarrow> string option" where
  "ensureEOF rest =
     (case decoder_Decode rest of
        DecodeEOF \<Rightarrow> None
      | DecodeValue _ _ \<Rightarrow> Some ''multiple JSON values are not allowed''
      | DecodeError \<Rightarrow> Some ''invalid trailing content'')"

text \<open>The root of a payload: one JSON object and nothing after it.\<close>

definition decode_root :: "bytes \<Rightarrow> event_error + (string \<Rightarrow> json option)" where
  "decode_root payload =
     (case decoder_Decode payload of
        DecodeValue root rest \<Rightarrow>
          (case root of
             JObject ms \<Rightarrow>
               (case ensureEOF rest of
                  None \<Rightarrow> Inr (object_map ms)
                | Some err \<Rightarrow> Inl (ErrMalformed err))
           | JNull \<Rightarrow> Inl (ErrMalformed ''root value must be an object'')
           | _ \<Rightarrow> Inl (ErrMalformed ''invalid JSON''))
      | _ \<Rightarrow> Inl (ErrMalformed ''invalid JSON''))"

definition optionalTime :: "(string \<Rightarrow> time option) \<Rightarrow> (string \<Rightarrow> json option) \<Rightarrow> event_error + time option" where
  "optionalTime parseTime object =
     (case object ''time'' of
        None \<Rightarrow> Inr None
      | Some raw \<Rightarrow>
          (case decodeString raw ''time'' of
             Inl _ \<Rightarrow> Inl (ErrMalformed ''time must be an RFC 3339 string'')
           | Inr v \<Rightarrow>
               if v = [] then Inl (ErrMalformed ''time must be an RFC 3339 string'')
               else (case parseTime v of
                       None \<Rightarrow> Inl (ErrMalformed ''time must be RFC 3339'')
                     | Some t \<Rightarrow> Inr (Some t))))"

definition read_metadata :: "(string \<Rightarrow> time option) \<Rightarrow> (string \<Rightarrow> json option) \<Rightarrow> event_error + Metadata" where
  "read_metadata parseTime object =
     (case requiredString object ''specversion'' of Inl e \<Rightarrow> Inl e | Inr specVersion \<Rightarrow>
      if specVersion \<noteq> ''1.0'' then Inl (ErrMalformed ''specversion must be 1.0'') else
      (case requiredString object ''id'' of Inl e \<Rightarrow> Inl e | Inr i \<Rightarrow>
      (case requiredString object ''source'' of Inl e \<Rightarrow> Inl e | Inr source \<Rightarrow>
      (case requiredString object ''type'' of Inl e \<Rightarrow> Inl e | Inr typ \<Rightarrow>
      (case optionalString object ''subject'' True of Inl e \<Rightarrow> Inl e | Inr subject \<Rightarrow>
      (case optionalString object ''datacontenttype'' False of Inl e \<Rightarrow> Inl e | Inr contentType \<Rightarrow>
      (case optionalTime parseTime object of Inl e \<Rightarrow> Inl e | Inr t \<Rightarrow>
       Inr \<lparr>md_SpecVersion = specVersion, md_ID = i, md_Source = source, md_Type = typ,
            md_Subject = subject, md_Time = t, md_DataContentType = contentType\<rparr>)))))))"

definition Validate :: "(string \<Rightarrow> time option) \<Rightarrow> bytes \<Rightarrow> int \<Rightarrow> event_error + Metadata" where
  "Validate parseTime payload maxBytes =
     (if maxBytes < 1 then Inl (ErrOversized ''invalid maximum size'')
      else if int (length payload) > maxBytes then Inl (ErrOversized ''payload too large'')
      else (case decode_root payload of
              Inl err \<Rightarrow> Inl err
            | Inr object \<Rightarrow> read_metadata parseTime object))"

section \<open>Properties\<close>

lemma decodeString_Inr: "decodeString raw n = Inr v \<longleftrightarrow> raw = JString v \<or> raw = JNull \<and> v = []"
  by (auto simp: decodeString_def split: json.splits)

lemma requiredString_Inr: "requiredString obj n = Inr v \<longleftrightarrow> v \<noteq> [] \<and> obj n = Some (JString v)"
  by (auto simp: requiredString_def decodeString_Inr split: option.splits sum.splits)
     (auto simp: decodeString_def split: json.splits)

lemma optionalString_Inr:
  "optionalString obj n ae = Inr v \<longleftrightarrow>
     obj n = None \<and> v = [] \<or> (obj n = Some (JString v) \<or> obj n = Some JNull \<and> v = []) \<and> (ae \<or> v \<noteq> [])"
  by (auto simp: optionalString_def decodeString_Inr split: option.splits sum.splits)
     (auto simp: decodeString_def split: json.splits)

lemma optionalTime_Inr:
  "optionalTime pt obj = Inr t \<longleftrightarrow>
     obj ''time'' = None \<and> t = None \<or>
     (\<exists>v u. obj ''time'' = Some (JString v) \<and> v \<noteq> [] \<and> pt v = Some u \<and> t = Some u)"
  by (auto simp: optionalTime_def decodeString_Inr split: option.splits sum.splits if_splits)
     (auto simp: decodeString_def split: json.splits)

lemma decode_root_Inr:
  "decode_root p = Inr obj \<longleftrightarrow>
     (\<exists>ms rest. parse_json p = Some (JObject ms, rest) \<and> skip_ws rest = [] \<and> obj = object_map ms)"
proof -
  have "skip_ws p = [] \<Longrightarrow> parse_json p = None" by (simp add: parse_json_def)
  then show ?thesis
    by (auto simp: decode_root_def decoder_Decode_def ensureEOF_def split: json.splits option.splits if_splits)
qed

definition envelope_ok :: "(string \<Rightarrow> time option) \<Rightarrow> (string \<Rightarrow> json option) \<Rightarrow> bool" where
  "envelope_ok parseTime obj \<longleftrightarrow> obj ''specversion'' = Some (JString ''1.0'') \<and>
     (\<forall>name \<in> {''id'', ''source'', ''type''}. \<exists>v. v \<noteq> [] \<and> obj name = Some (JString v)) \<and>
     (obj ''subject'' = None \<or> obj ''subject'' = Some JNull \<or> (\<exists>v. obj ''subject'' = Some (JString v))) \<and>
     (obj ''datacontenttype'' = None \<or> (\<exists>v. v \<noteq> [] \<and> obj ''datacontenttype'' = Some (JString v))) \<and>
     (obj ''time'' = None \<or> (\<exists>v t. v \<noteq> [] \<and> obj ''time'' = Some (JString v) \<and> parseTime v = Some t))"

lemma read_metadata_ok: "(\<exists>m. read_metadata parseTime obj = Inr m) \<longleftrightarrow> envelope_ok parseTime obj"
proof -
  have "(\<exists>m. read_metadata parseTime obj = Inr m) \<longleftrightarrow>
      requiredString obj ''specversion'' = Inr ''1.0'' \<and>
      (\<forall>n \<in> {''id'', ''source'', ''type''}. \<exists>v. requiredString obj n = Inr v) \<and>
      (\<exists>v. optionalString obj ''subject'' True = Inr v) \<and> (\<exists>v. optionalString obj ''datacontenttype'' False = Inr v) \<and>
      (\<exists>t. optionalTime parseTime obj = Inr t)"
    by (auto simp: read_metadata_def split: sum.splits if_splits)
  moreover have "(\<exists>v. optionalString obj n True = Inr v) \<longleftrightarrow>
      obj n = None \<or> obj n = Some JNull \<or> (\<exists>v. obj n = Some (JString v))"
    "(\<exists>v. optionalString obj n False = Inr v) \<longleftrightarrow> obj n = None \<or> (\<exists>v. v \<noteq> [] \<and> obj n = Some (JString v))"
    "(\<exists>t. optionalTime parseTime obj = Inr t) \<longleftrightarrow>
      obj ''time'' = None \<or> (\<exists>v t. v \<noteq> [] \<and> obj ''time'' = Some (JString v) \<and> parseTime v = Some t)" for n
    by (auto simp: optionalString_Inr optionalTime_Inr)
  ultimately show ?thesis by (simp add: envelope_ok_def requiredString_Inr)
qed

lemma Validate_fields:
  assumes "Validate parseTime payload maxBytes = Inr m"
  shows "md_ID m \<noteq> []" "md_Source m \<noteq> []" "md_Type m \<noteq> []" "int (length payload) \<le> maxBytes"
  using assms
  by (auto simp: Validate_def read_metadata_def requiredString_Inr split: sum.splits if_splits)

text \<open>(C28) A payload passes exactly when it fits the limit and is one JSON object, with nothing but
  white space around it, in which \<open>specversion\<close> is \<open>1.0\<close>, \<open>id\<close>, \<open>source\<close> and \<open>type\<close> are non-empty
  strings, \<open>subject\<close> is absent, null or a string, \<open>datacontenttype\<close> is absent or a non-empty
  string and \<open>time\<close> is absent or an RFC 3339 string; of duplicate keys the last one counts.\<close>

theorem Validate_accepts:
  "(\<exists>m. Validate parseTime payload maxBytes = Inr m) \<longleftrightarrow>
     int (length payload) \<le> maxBytes \<and> 1 \<le> maxBytes \<and>
     (\<exists>ms rest. parse_json payload = Some (JObject ms, rest) \<and> skip_ws rest = [] \<and>
        envelope_ok parseTime (object_map ms))"
proof -
  have "(\<exists>m. Validate parseTime payload maxBytes = Inr m) \<longleftrightarrow>
      int (length payload) \<le> maxBytes \<and> 1 \<le> maxBytes \<and>
      (\<exists>obj. decode_root payload = Inr obj \<and> (\<exists>m. read_metadata parseTime obj = Inr m))"
    by (auto simp: Validate_def split: sum.splits)
  then show ?thesis unfolding read_metadata_ok decode_root_Inr by blast
qed

section \<open>A concrete envelope\<close>

definition example_payload :: bytes where
  "example_payload = map (\<lambda>c. if c = CHR 0x27 then CHR 0x22 else c)
     (concat [''{'', [CHR 0x27], ''specversion'', [CHR 0x27], '':'', [CHR 0x27], ''1.0'', [CHR 0x27], '','',
       [CHR 0x27], ''id'', [CHR 0x27], '': '', [CHR 0x27], ''evt-1'', [CHR 0x27], '','',
       [CHR 0x27], ''source'', [CHR 0x27], '':'', [CHR 0x27], ''urn:billing'', [CHR 0x27], '','',
       [CHR 0x27], ''type'', [CHR 0x27], '':'', [CHR 0x27], ''order.paid'', [CHR 0x27], ''} ''])"

lemma example_payload_valid:
  "Validate (\<lambda>_. None) example_payload 262144 =
     Inr \<lparr>md_SpecVersion = ''1.0'', md_ID = ''evt-1'', md_Source = ''urn:billing'', md_Type = ''order.paid'',
          md_Subject = [], md_Time = None, md_DataContentType = []\<rparr>"
  by code_simp

end
