(* ===== verification/Spool_Types.thy ===== *)
theory Spool_Types
  imports Prelude
begin

text \<open>
  The types of \<open>internal/spool/spool.go\<close> that capture and storage exchange, and the
  functions of other packages that both rely on. A field keeps the Go name behind a short
  prefix naming its struct.
\<close>

record CapturedEvent =
  ce_Source :: string
  ce_ID :: string
  ce_Type :: string
  ce_Subject :: string
  ce_Payload :: bytes
  ce_PayloadSHA256 :: digest
  ce_TransactionID :: xid
  ce_MessageLSN :: lsn
  ce_CommitLSN :: lsn
  ce_CommitEndLSN :: lsn
  ce_CommitTime :: time
  ce_MessageIndex :: int

record CommittedBatch =
  cb_TransactionID :: xid
  cb_CommitLSN :: lsn
  cb_CommitEndLSN :: lsn
  cb_CommitTime :: time
  cb_Events :: "CapturedEvent list"

record PersistResult =
  pr_Inserted :: nat
  pr_Replayed :: nat
  pr_DurableLSN :: lsn

text \<open>
  The errors of the spool package and of its SQLite implementation. The text of a message
  is kept only as far as it names the failing step.
\<close>

datatype store_error =
    ErrDurability string
  | ErrIdentityConflict string string
  | ErrSinkConfigurationConflict string
  | ErrActiveSinkRemoval string nat
  | ErrStore string

text \<open>
  Functions of other packages: \<open>sha256.Sum256\<close> (\<open>crypto/sha256\<close>), and \<open>LSN.String\<close> and
  \<open>ParseLSN\<close> of \<open>pglogrepl\<close>, which are parameters of the model. What the code relies on is
  that parsing a printed LSN gives it back.
\<close>

record externals =
  Sum256 :: "bytes \<Rightarrow> digest"
  LSN_String :: "lsn \<Rightarrow> string"
  ParseLSN :: "string \<Rightarrow> lsn option"

definition lsn_codec :: "externals \<Rightarrow> bool" where
  "lsn_codec x \<longleftrightarrow> (\<forall>l. ParseLSN x (LSN_String x l) = Some l)"

lemma lsn_codecD [simp]: "lsn_codec x \<Longrightarrow> ParseLSN x (LSN_String x l) = Some l"
  by (simp add: lsn_codec_def)

text \<open>
  A concrete instance for evaluating the model: an LSN printed as its 64 binary digits, and
  a checksum in place of the digest.
\<close>

definition bits_string :: "lsn \<Rightarrow> string" where
  "bits_string l = map (\<lambda>i. if bit l i then CHR ''1'' else CHR ''0'') [0..<64]"

definition parse_bits :: "string \<Rightarrow> lsn option" where
  "parse_bits s = (if length s = 64 then Some (horner_sum of_bool 2 (map (\<lambda>c. c = CHR ''1'') s)) else None)"

definition checksum :: "bytes \<Rightarrow> digest" where
  "checksum p = of_nat (foldl (\<lambda>h c. 31 * h + of_char c) (length p) p)"

definition example_externals :: externals where
  "example_externals = \<lparr>Sum256 = checksum, LSN_String = bits_string, ParseLSN = parse_bits\<rparr>"

lemma parse_bits_string: "parse_bits (bits_string l) = Some l"
proof -
  have "map (\<lambda>c. c = CHR ''1'') (bits_string l) = map (bit l) [0..<64]"
    by (auto simp: bits_string_def)
  moreover have "length (bits_string l) = 64"
    by (simp add: bits_string_def)
  ultimately show ?thesis
    by (simp add: parse_bits_def horner_sum_bit_eq_take_bit take_bit_word_eq_self del: map_eq_conv)
qed

lemma example_externals_codec [simp]: "lsn_codec example_externals"
  by (simp add: lsn_codec_def example_externals_def parse_bits_string)

end
