(* ===== verification/Store_Schema.thy ===== *)
theory Store_Schema
  imports Spool_Types
begin

text \<open>
  The tables of the SQLite spool (\<open>internal/spool/sqlite/migrations\<close>), the statements that
  write them with the constraints and triggers the schema declares, and the invariant of a
  spool. Columns that hold a timestamp hold the instant, columns that hold an LSN its text.
\<close>

section \<open>Tables\<close>

record event_row =
  ev_sequence :: int
  ev_source :: string
  ev_id :: string
  ev_type :: string
  ev_subject :: "string option"
  ev_payload :: bytes
  ev_payload_sha256 :: digest
  ev_transaction_id :: xid
  ev_message_lsn :: string
  ev_commit_lsn :: string
  ev_commit_end_lsn :: string
  ev_commit_time :: time
  ev_message_index :: int
  ev_captured_at :: time
  ev_pruned_at :: "time option"

record sink_row =
  sk_id :: int
  sk_name :: string
  sk_type :: string
  sk_config_sha256 :: digest
  sk_active :: bool
  sk_created_at :: time

datatype delivery_state = Pending | RetryWait | Delivered | DeadLetter

record delivery_row =
  dl_event :: int
  dl_sink :: int
  dl_state :: delivery_state
  dl_attempts :: int
  dl_next_attempt_at :: time
  dl_last_attempt_at :: "time option"
  dl_delivered_at :: "time option"
  dl_dead_lettered_at :: "time option"
  dl_last_error :: "string option"
  dl_response_status :: "int option"

text \<open>
  The database: the four tables, and for the two tables with an \<open>AUTOINCREMENT\<close> key the
  largest key SQLite ever gave out (\<open>sqlite_sequence\<close>).
\<close>

record db =
  db_schema :: "nat list"
  db_metadata :: "string \<Rightarrow> string option"
  db_events :: "event_row list"
  db_events_seq :: int
  db_sinks :: "sink_row list"
  db_sinks_seq :: int
  db_deliveries :: "delivery_row list"

abbreviation delivery_key :: "delivery_row \<Rightarrow> int \<times> int" where
  "delivery_key w \<equiv> (dl_event w, dl_sink w)"

abbreviation event_identity :: "event_row \<Rightarrow> string \<times> string" where
  "event_identity r \<equiv> (ev_source r, ev_id r)"

abbreviation waiting :: "delivery_row \<Rightarrow> bool" where
  "waiting w \<equiv> dl_state w \<in> {Pending, RetryWait}"

abbreviation retained :: "event_row \<Rightarrow> bool" where
  "retained r \<equiv> ev_pruned_at r = None"

definition find_event :: "string \<Rightarrow> string \<Rightarrow> db \<Rightarrow> event_row option" where
  "find_event source i d = List.find (\<lambda>r. ev_source r = source \<and> ev_id r = i) (db_events d)"

definition find_sink :: "string \<Rightarrow> db \<Rightarrow> sink_row option" where
  "find_sink name d = List.find (\<lambda>s. sk_name s = name) (db_sinks d)"

definition event_pruned :: "int \<Rightarrow> db \<Rightarrow> bool" where
  "event_pruned sequence d = (\<exists>r \<in> set (db_events d). ev_sequence r = sequence \<and> \<not> retained r)"

definition event_retained :: "int \<Rightarrow> db \<Rightarrow> bool" where
  "event_retained sequence d = (\<exists>r \<in> set (db_events d). ev_sequence r = sequence \<and> retained r)"

section \<open>Statements with their constraints\<close>

text \<open>
  A delivery record as the two \<open>INSERT INTO deliveries\<close> statements of the program create it.
\<close>

definition new_delivery :: "int \<Rightarrow> int \<Rightarrow> time \<Rightarrow> delivery_row" where
  "new_delivery sequence sink now =
     \<lparr>dl_event = sequence, dl_sink = sink, dl_state = Pending, dl_attempts = 0,
      dl_next_attempt_at = now, dl_last_attempt_at = None, dl_delivered_at = None,
      dl_dead_lettered_at = None, dl_last_error = None, dl_response_status = None\<rparr>"

text \<open>
  \<open>INSERT INTO deliveries ... ON CONFLICT(event_sequence, sink_id) DO NOTHING\<close> for one row.
  The trigger \<open>deliveries_require_payload\<close> and the two foreign keys abort the statement.
\<close>

definition insert_delivery :: "delivery_row \<Rightarrow> db \<Rightarrow> db option" where
  "insert_delivery w d =
     (if event_pruned (dl_event w) d then None
      else if delivery_key w \<in> delivery_key ` set (db_deliveries d) then Some d
      else if dl_event w \<notin> ev_sequence ` set (db_events d) \<or> dl_sink w \<notin> sk_id ` set (db_sinks d)
      then None
      else Some (d\<lparr>db_deliveries := db_deliveries d @ [w]\<rparr>))"

fun insert_deliveries :: "delivery_row list \<Rightarrow> db \<Rightarrow> db option" where
  "insert_deliveries [] d = Some d"
| "insert_deliveries (w # ws) d =
     (case insert_delivery w d of None \<Rightarrow> None | Some d' \<Rightarrow> insert_deliveries ws d')"

text \<open>
  \<open>UPDATE deliveries SET ... WHERE p\<close>, where the assignment \<open>f\<close> writes the state. The trigger
  \<open>deliveries_pruned_terminal\<close> aborts it when a row of a pruned event would leave
  \<open>delivered\<close>, the check on the column when \<open>attempts\<close> would be negative. The result has the
  number of changed rows.
\<close>

definition update_deliveries ::
    "(delivery_row \<Rightarrow> bool) \<Rightarrow> (delivery_row \<Rightarrow> delivery_row) \<Rightarrow> db \<Rightarrow> (db \<times> nat) option" where
  "update_deliveries p f d =
     (if \<exists>w \<in> set (db_deliveries d). p w \<and>
           (dl_state (f w) \<noteq> Delivered \<and> event_pruned (dl_event (f w)) d \<or> dl_attempts (f w) < 0)
      then None
      else Some (d\<lparr>db_deliveries := update_where p f (db_deliveries d)\<rparr>,
                 count_where p (db_deliveries d)))"

text \<open>
  \<open>UPDATE events SET payload = X'', payload_pruned_at = ? WHERE sequence = ? AND
  payload_pruned_at IS NULL\<close>. The trigger \<open>events_prune_requires_delivered\<close> aborts it unless
  the event has deliveries and all of them succeeded.
\<close>

definition all_delivered :: "int \<Rightarrow> db \<Rightarrow> bool" where
  "all_delivered sequence d =
     ((\<exists>w \<in> set (db_deliveries d). dl_event w = sequence) \<and>
      (\<forall>w \<in> set (db_deliveries d). dl_event w = sequence \<longrightarrow>
         dl_state w = Delivered \<and> dl_delivered_at w \<noteq> None))"

lemma all_delivered_frame [simp]:
  "all_delivered q (d\<lparr>db_metadata := m\<rparr>) = all_delivered q d"
  "all_delivered q (d\<lparr>db_events := rs\<rparr>) = all_delivered q d"
  "all_delivered q (d\<lparr>db_events_seq := n\<rparr>) = all_delivered q d"
  "all_delivered q (d\<lparr>db_sinks := ss\<rparr>) = all_delivered q d"
  "all_delivered q (d\<lparr>db_sinks_seq := n\<rparr>) = all_delivered q d"
  by (simp_all add: all_delivered_def)

definition update_pruned :: "int \<Rightarrow> time \<Rightarrow> db \<Rightarrow> (db \<times> nat) option" where
  "update_pruned sequence now d =
     (let p = (\<lambda>r. ev_sequence r = sequence \<and> retained r) in
      if (\<exists>r \<in> set (db_events d). p r) \<and> \<not> all_delivered sequence d then None
      else Some (d\<lparr>db_events := update_where p
                     (\<lambda>r. r\<lparr>ev_payload := [], ev_pruned_at := Some now\<rparr>) (db_events d)\<rparr>,
                 count_where p (db_events d)))"

section \<open>The invariant of a spool\<close>

text \<open>
  Keys: sequences and sink ids increase in insertion order and never pass the
  \<open>AUTOINCREMENT\<close> counters; event identities, sink names and delivery keys are unique.
\<close>

definition keys_ok :: "db \<Rightarrow> bool" where
  "keys_ok d \<longleftrightarrow>
     sorted_wrt (<) (map ev_sequence (db_events d)) \<and>
     (\<forall>r \<in> set (db_events d). ev_sequence r \<le> db_events_seq d) \<and>
     distinct (map event_identity (db_events d)) \<and>
     sorted_wrt (<) (map sk_id (db_sinks d)) \<and>
     (\<forall>s \<in> set (db_sinks d). sk_id s \<le> db_sinks_seq d) \<and>
     distinct (map sk_name (db_sinks d)) \<and>
     distinct (map delivery_key (db_deliveries d))"

text \<open>References: every delivery belongs to a stored event and a registered sink.\<close>

definition refs_ok :: "db \<Rightarrow> bool" where
  "refs_ok d \<longleftrightarrow>
     (\<forall>w \<in> set (db_deliveries d).
        dl_event w \<in> ev_sequence ` set (db_events d) \<and> dl_sink w \<in> sk_id ` set (db_sinks d))"

text \<open>Each delivery row agrees with its state.\<close>

definition delivery_ok :: "delivery_row \<Rightarrow> bool" where
  "delivery_ok w \<longleftrightarrow>
     (dl_state w = Delivered \<longleftrightarrow> dl_delivered_at w \<noteq> None) \<and>
     (dl_state w = DeadLetter \<longleftrightarrow> dl_dead_lettered_at w \<noteq> None) \<and>
     (dl_state w = Pending \<longrightarrow> dl_attempts w = 0 \<and> dl_last_attempt_at w = None) \<and>
     0 \<le> dl_attempts w"

text \<open>
  Payloads: a retained payload has the recorded digest; a pruned one is empty and every
  delivery of its event succeeded.
\<close>

definition payloads_ok :: "externals \<Rightarrow> db \<Rightarrow> bool" where
  "payloads_ok x d \<longleftrightarrow>
     (\<forall>r \<in> set (db_events d).
        if retained r then Sum256 x (ev_payload r) = ev_payload_sha256 r
        else ev_payload r = [] \<and> all_delivered (ev_sequence r) d)"

text \<open>Fan-out: a retained event has a delivery record for every active sink.\<close>

definition fanout_ok :: "db \<Rightarrow> bool" where
  "fanout_ok d \<longleftrightarrow>
     (\<forall>r \<in> set (db_events d). retained r \<longrightarrow>
        (\<forall>s \<in> set (db_sinks d). sk_active s \<longrightarrow>
           (ev_sequence r, sk_id s) \<in> delivery_key ` set (db_deliveries d)))"

text \<open>Routing: a delivery that still waits belongs to an active sink, so it is not stranded.\<close>

definition routed_ok :: "db \<Rightarrow> bool" where
  "routed_ok d \<longleftrightarrow>
     (\<forall>w \<in> set (db_deliveries d). waiting w \<longrightarrow>
        (\<exists>s \<in> set (db_sinks d). sk_id s = dl_sink w \<and> sk_active s))"

definition durableLSNKey :: string where
  "durableLSNKey = ''last_durable_lsn''"

definition checkpoint_ok :: "externals \<Rightarrow> db \<Rightarrow> bool" where
  "checkpoint_ok x d \<longleftrightarrow>
     (case db_metadata d durableLSNKey of None \<Rightarrow> True | Some v \<Rightarrow> ParseLSN x v \<noteq> None)"

definition core_inv :: "externals \<Rightarrow> db \<Rightarrow> bool" where
  "core_inv x d \<longleftrightarrow> keys_ok d \<and> refs_ok d \<and> (\<forall>w \<in> set (db_deliveries d). delivery_ok w) \<and>
     payloads_ok x d \<and> checkpoint_ok x d"

definition db_inv :: "externals \<Rightarrow> db \<Rightarrow> bool" where
  "db_inv x d \<longleftrightarrow> core_inv x d \<and> fanout_ok d \<and> routed_ok d"

lemmas db_inv_defs = db_inv_def core_inv_def keys_ok_def refs_ok_def payloads_ok_def
  fanout_ok_def routed_ok_def checkpoint_ok_def

definition empty_db :: db where
  "empty_db = \<lparr>db_schema = [], db_metadata = Map.empty, db_events = [], db_events_seq = 0,
     db_sinks = [], db_sinks_seq = 0, db_deliveries = []\<rparr>"

lemma db_inv_empty [simp]: "db_inv x empty_db"
  by (simp add: db_inv_defs empty_db_def)

section \<open>Consequences of the invariant\<close>

lemma core_invD:
  assumes "core_inv x d"
  shows "keys_ok d" "refs_ok d" "payloads_ok x d" "checkpoint_ok x d"
    "w \<in> set (db_deliveries d) \<Longrightarrow> delivery_ok w"
  using assms by (auto simp: core_inv_def)

lemma db_invD [dest]: "db_inv x d \<Longrightarrow> core_inv x d" "db_inv x d \<Longrightarrow> fanout_ok d" "db_inv x d \<Longrightarrow> routed_ok d"
  by (simp_all add: db_inv_def)

lemma strict_sorted_distinct: "sorted_wrt (<) (xs :: 'a::linorder list) \<Longrightarrow> distinct xs"
  by (simp add: strict_sorted_iff)

lemma event_unique:
  "core_inv x d \<Longrightarrow> r \<in> set (db_events d) \<Longrightarrow> r' \<in> set (db_events d) \<Longrightarrow>
     ev_sequence r = ev_sequence r' \<Longrightarrow> r = r'"
  by (auto simp: core_inv_def keys_ok_def dest: strict_sorted_distinct intro: distinct_map_unique)

lemma sink_unique:
  "core_inv x d \<Longrightarrow> s \<in> set (db_sinks d) \<Longrightarrow> s' \<in> set (db_sinks d) \<Longrightarrow> sk_id s = sk_id s' \<Longrightarrow> s = s'"
  by (auto simp: core_inv_def keys_ok_def dest: strict_sorted_distinct intro: distinct_map_unique)

lemma delivery_unique:
  "core_inv x d \<Longrightarrow> w \<in> set (db_deliveries d) \<Longrightarrow> w' \<in> set (db_deliveries d) \<Longrightarrow>
     delivery_key w = delivery_key w' \<Longrightarrow> w = w'"
  by (rule distinct_map_unique [of delivery_key]) (auto simp: core_inv_def keys_ok_def)

lemma identity_unique:
  "core_inv x d \<Longrightarrow> r \<in> set (db_events d) \<Longrightarrow> r' \<in> set (db_events d) \<Longrightarrow>
     event_identity r = event_identity r' \<Longrightarrow> r = r'"
  by (rule distinct_map_unique [of event_identity]) (auto simp: core_inv_def keys_ok_def)

lemma find_event_eq:
  "core_inv x d \<Longrightarrow> r \<in> set (db_events d) \<Longrightarrow> find_event (ev_source r) (ev_id r) d = Some r"
  unfolding find_event_def
  by (rule find_unique [of event_identity]) (auto simp: core_inv_def keys_ok_def)

lemma find_event_None:
  "find_event source i d = None \<longleftrightarrow> (\<forall>r \<in> set (db_events d). event_identity r \<noteq> (source, i))"
  by (auto simp: find_event_def find_None_set)

lemma find_event_SomeD:
  "find_event source i d = Some r \<Longrightarrow> r \<in> set (db_events d) \<and> event_identity r = (source, i)"
  by (auto simp: find_event_def dest: find_SomeD)

lemma event_pruned_retained:
  "core_inv x d \<Longrightarrow> event_retained q d \<Longrightarrow> \<not> event_pruned q d"
  by (auto simp: event_pruned_def event_retained_def dest: event_unique)

lemma event_retained_in: "event_retained q d \<Longrightarrow> q \<in> ev_sequence ` set (db_events d)"
  by (auto simp: event_retained_def)

lemma waiting_not_pruned:
  assumes "core_inv x d" and "w \<in> set (db_deliveries d)" and "dl_state w \<noteq> Delivered"
  shows "\<not> event_pruned (dl_event w) d"
  using assms by (fastforce simp: event_pruned_def core_inv_def payloads_ok_def all_delivered_def)

section \<open>The statements keep the invariant\<close>

lemma delivery_ok_new [simp]: "delivery_ok (new_delivery q s now)"
  by (simp add: delivery_ok_def new_delivery_def)

lemma new_delivery_simps [simp]:
  "dl_event (new_delivery q s now) = q" "dl_sink (new_delivery q s now) = s"
  "dl_state (new_delivery q s now) = Pending"
  by (simp_all add: new_delivery_def)

lemma insert_delivery_cases:
  assumes "insert_delivery w d = Some d'"
  obtains (kept) "d' = d" "delivery_key w \<in> delivery_key ` set (db_deliveries d)"
    | (added) "d' = d\<lparr>db_deliveries := db_deliveries d @ [w]\<rparr>" "\<not> event_pruned (dl_event w) d"
        "delivery_key w \<notin> delivery_key ` set (db_deliveries d)"
        "dl_event w \<in> ev_sequence ` set (db_events d)" "dl_sink w \<in> sk_id ` set (db_sinks d)"
  using assms by (auto simp: insert_delivery_def split: if_splits)

lemma core_inv_insert_delivery:
  assumes inv: "core_inv x d" and ins: "insert_delivery (new_delivery q s now) d = Some d'"
  shows "core_inv x d'"
  using ins
proof (cases rule: insert_delivery_cases)
  case kept
  with inv show ?thesis by simp
next
  case added
  have "all_delivered (ev_sequence r) d'"
    if "r \<in> set (db_events d)" "\<not> retained r" for r
  proof -
    have "all_delivered (ev_sequence r) d"
      using that inv by (auto simp: core_inv_def payloads_ok_def)
    moreover have "ev_sequence r \<noteq> q"
      using added(2) that by (auto simp: event_pruned_def)
    ultimately show ?thesis
      using added(1) by (auto simp: all_delivered_def)
  qed
  with inv added show ?thesis
    by (auto simp: core_inv_def keys_ok_def refs_ok_def payloads_ok_def checkpoint_ok_def)
qed

definition pending_rows :: "delivery_row list \<Rightarrow> bool" where
  "pending_rows ws \<longleftrightarrow> (\<forall>w \<in> set ws. \<exists>q s now. w = new_delivery q s now)"

lemma core_inv_insert_deliveries:
  "core_inv x d \<Longrightarrow> pending_rows ws \<Longrightarrow> insert_deliveries ws d = Some d' \<Longrightarrow> core_inv x d'"
  by (induction ws d rule: insert_deliveries.induct)
     (auto simp: pending_rows_def split: option.splits dest: core_inv_insert_delivery)

text \<open>What a multi-row insert leaves: the other tables untouched, all keys present.\<close>

lemma insert_deliveries_frame:
  "insert_deliveries ws d = Some d' \<Longrightarrow>
     \<exists>vs. d' = d\<lparr>db_deliveries := db_deliveries d @ vs\<rparr> \<and> set vs \<subseteq> set ws"
proof (induction ws arbitrary: d)
  case Nil
  then show ?case by (auto intro: exI [of _ "[]"])
next
  case (Cons w ws)
  then obtain d1 where d1: "insert_delivery w d = Some d1" "insert_deliveries ws d1 = Some d'"
    by (auto split: option.splits)
  from Cons.IH [OF d1(2)] obtain vs
    where vs: "d' = d1\<lparr>db_deliveries := db_deliveries d1 @ vs\<rparr>" "set vs \<subseteq> set ws" by blast
  from d1(1) show ?case
  proof (cases rule: insert_delivery_cases)
    case kept
    with vs show ?thesis by (auto intro: exI [of _ vs])
  next
    case added
    with vs have "d' = d\<lparr>db_deliveries := db_deliveries d @ (w # vs)\<rparr>" "set (w # vs) \<subseteq> set (w # ws)"
      by auto
    then show ?thesis by blast
  qed
qed

lemma routed_ok_insert_deliveries:
  assumes "routed_ok d" and "insert_deliveries ws d = Some d'"
    and "\<forall>w \<in> set ws. \<exists>s \<in> set (db_sinks d). sk_id s = dl_sink w \<and> sk_active s"
  shows "routed_ok d'"
proof -
  obtain vs where "d' = d\<lparr>db_deliveries := db_deliveries d @ vs\<rparr>" "set vs \<subseteq> set ws"
    using insert_deliveries_frame [OF assms(2)] by blast
  with assms(1,3) show ?thesis by (auto simp: routed_ok_def)
qed

lemma insert_deliveries_keys:
  "insert_deliveries ws d = Some d' \<Longrightarrow>
     delivery_key ` set (db_deliveries d') = delivery_key ` set (db_deliveries d) \<union> delivery_key ` set ws"
proof (induction ws arbitrary: d)
  case Nil
  then show ?case by simp
next
  case (Cons w ws)
  then obtain d1 where d1: "insert_delivery w d = Some d1" "insert_deliveries ws d1 = Some d'"
    by (auto split: option.splits)
  from d1(1) have "delivery_key ` set (db_deliveries d1) = insert (delivery_key w) (delivery_key ` set (db_deliveries d))"
    by (cases rule: insert_delivery_cases) auto
  with Cons.IH [OF d1(2)] show ?case by simp
qed

lemma insert_deliveries_Some:
  assumes "\<forall>w \<in> set ws. \<not> event_pruned (dl_event w) d \<and> dl_event w \<in> ev_sequence ` set (db_events d) \<and>
             dl_sink w \<in> sk_id ` set (db_sinks d)"
  shows "\<exists>d'. insert_deliveries ws d = Some d'"
  using assms
proof (induction ws arbitrary: d)
  case Nil
  then show ?case by simp
next
  case (Cons w ws)
  then have "insert_delivery w d \<noteq> None"
    by (simp add: insert_delivery_def)
  then obtain d1 where d1: "insert_delivery w d = Some d1" by blast
  then have "db_events d1 = db_events d" "db_sinks d1 = db_sinks d"
    by (auto elim: insert_delivery_cases)
  with Cons d1 show ?case by (simp add: event_pruned_def)
qed

lemma core_inv_insert_event:
  assumes inv: "core_inv x d" and fresh: "find_event (ev_source r) (ev_id r) d = None"
    and new: "db_events_seq d < ev_sequence r" "retained r" "Sum256 x (ev_payload r) = ev_payload_sha256 r"
  shows "core_inv x (d\<lparr>db_events := db_events d @ [r], db_events_seq := ev_sequence r\<rparr>)"
proof -
  have "event_identity r \<notin> event_identity ` set (db_events d)"
    using fresh by (auto simp: find_event_None)
  moreover have "\<forall>r' \<in> set (db_events d). ev_sequence r' < ev_sequence r"
    using inv new(1) by (auto simp: core_inv_def keys_ok_def)
  ultimately show ?thesis
    using inv new by (auto simp: core_inv_def keys_ok_def refs_ok_def payloads_ok_def
      checkpoint_ok_def sorted_wrt_append all_delivered_def less_imp_le)
qed

end
