(* ===== verification/Failure_Hooks.thy ===== *)
theory Failure_Hooks
  imports Prelude
begin

text \<open>
  The crash boundaries of \<open>internal/failure/hooks.go\<close>. A hook is a function that may be
  absent; a crash test installs one that terminates the process. The model of a hook
  answers whether the process stops there.
\<close>

record Hooks =
  BeforeSpoolTransaction :: "(unit \<Rightarrow> bool) option"
  AfterSpoolEvent :: "(nat \<Rightarrow> bool) option"
  AfterSpoolCommit :: "(unit \<Rightarrow> bool) option"
  AfterAcknowledgment :: "(unit \<Rightarrow> bool) option"
  BeforeSinkRequest :: "(unit \<Rightarrow> bool) option"
  AfterSinkSuccess :: "(unit \<Rightarrow> bool) option"
  AfterPrunePayload :: "(nat \<Rightarrow> bool) option"
  AfterPruneCommit :: "(unit \<Rightarrow> bool) option"

definition call_hook :: "('a \<Rightarrow> bool) option \<Rightarrow> 'a \<Rightarrow> bool" where
  "call_hook f a = (case f of None \<Rightarrow> False | Some g \<Rightarrow> g a)"

definition CallAfterPrunePayload :: "Hooks \<Rightarrow> nat \<Rightarrow> bool" where
  "CallAfterPrunePayload h index = call_hook (AfterPrunePayload h) index"

definition CallAfterPruneCommit :: "Hooks \<Rightarrow> bool" where
  "CallAfterPruneCommit h = call_hook (AfterPruneCommit h) ()"

definition CallBeforeSpoolTransaction :: "Hooks \<Rightarrow> bool" where
  "CallBeforeSpoolTransaction h = call_hook (BeforeSpoolTransaction h) ()"

definition CallAfterSpoolEvent :: "Hooks \<Rightarrow> nat \<Rightarrow> bool" where
  "CallAfterSpoolEvent h index = call_hook (AfterSpoolEvent h) index"

definition CallAfterSpoolCommit :: "Hooks \<Rightarrow> bool" where
  "CallAfterSpoolCommit h = call_hook (AfterSpoolCommit h) ()"

definition CallAfterAcknowledgment :: "Hooks \<Rightarrow> bool" where
  "CallAfterAcknowledgment h = call_hook (AfterAcknowledgment h) ()"

definition CallBeforeSinkRequest :: "Hooks \<Rightarrow> bool" where
  "CallBeforeSinkRequest h = call_hook (BeforeSinkRequest h) ()"

definition CallAfterSinkSuccess :: "Hooks \<Rightarrow> bool" where
  "CallAfterSinkSuccess h = call_hook (AfterSinkSuccess h) ()"

text \<open>Production composition passes the zero value, in which every hook is absent.\<close>

definition no_hooks :: Hooks where
  "no_hooks = \<lparr>BeforeSpoolTransaction = None, AfterSpoolEvent = None, AfterSpoolCommit = None,
     AfterAcknowledgment = None, BeforeSinkRequest = None, AfterSinkSuccess = None,
     AfterPrunePayload = None, AfterPruneCommit = None\<rparr>"

lemmas hook_defs = CallAfterPrunePayload_def CallAfterPruneCommit_def
  CallBeforeSpoolTransaction_def CallAfterSpoolEvent_def CallAfterSpoolCommit_def
  CallAfterAcknowledgment_def CallBeforeSinkRequest_def CallAfterSinkSuccess_def

lemma no_hooks_inert [simp]:
  "\<not> CallBeforeSpoolTransaction no_hooks" "\<not> CallAfterSpoolEvent no_hooks i"
  "\<not> CallAfterSpoolCommit no_hooks" "\<not> CallAfterAcknowledgment no_hooks"
  "\<not> CallBeforeSinkRequest no_hooks" "\<not> CallAfterSinkSuccess no_hooks"
  "\<not> CallAfterPrunePayload no_hooks i" "\<not> CallAfterPruneCommit no_hooks"
  by (simp_all add: hook_defs call_hook_def no_hooks_def)

end
