(* ===== verification/Store_Capture.thy ===== *)
theory Store_Capture
  imports Store_Schema Failure_Hooks
begin

text \<open>
  Capture into the spool: \<open>PersistCommittedBatch\<close> of \<open>internal/spool/sqlite/sqlite.go\<close> and
  the functions it calls, in one SQLite transaction. What the transaction depends on from
  outside (which statement fails, whether a failed commit still reached the disk, the clock,
  the \<open>AUTOINCREMENT\<close> key SQLite chooses above the largest one) is an argument.
\<close>

section \<open>Definitions\<close>

datatype sql_point =
    BeginTx
  | InsertEvent nat
  | InsertRowsAffected nat
  | InsertLastInsertId nat
  | LoadReplayDigest nat
  | CreateDeliveries nat
  | ReadCheckpoint
  | UpdateCheckpoint

datatype commit_fault = CommitOk | CommitLost | CommitLanded

record persist_env =
  pe_fails :: "sql_point \<Rightarrow> bool"
  pe_commit :: commit_fault
  pe_captured_at :: "nat \<Rightarrow> time"
  pe_deliver_at :: "nat \<Rightarrow> time"
  pe_key_gap :: "nat \<Rightarrow> nat"

definition validateCapturedEvent ::
    "externals \<Rightarrow> CommittedBatch \<Rightarrow> CapturedEvent \<Rightarrow> nat \<Rightarrow> store_error option" where
  "validateCapturedEvent x batch captured index =
     (if ce_Source captured = '''' \<or> ce_ID captured = '''' \<or> ce_Type captured = ''''
      then Some (ErrDurability ''empty identity or type'')
      else if ce_TransactionID captured \<noteq> cb_TransactionID batch \<or>
              ce_CommitLSN captured \<noteq> cb_CommitLSN batch \<or>
              ce_CommitEndLSN captured \<noteq> cb_CommitEndLSN batch \<or>
              ce_CommitTime captured \<noteq> cb_CommitTime batch \<or>
              ce_MessageIndex captured \<noteq> int index
      then Some (ErrDurability ''metadata does not match committed batch'')
      else if Sum256 x (ce_Payload captured) \<noteq> ce_PayloadSHA256 captured
      then Some (ErrDurability ''payload digest is invalid'')
      else None)"

definition captured_row ::
    "externals \<Rightarrow> CapturedEvent \<Rightarrow> int \<Rightarrow> time \<Rightarrow> event_row" where
  "captured_row x captured sequence now =
     \<lparr>ev_sequence = sequence, ev_source = ce_Source captured, ev_id = ce_ID captured,
      ev_type = ce_Type captured,
      ev_subject = (if ce_Subject captured = '''' then None else Some (ce_Subject captured)),
      ev_payload = ce_Payload captured, ev_payload_sha256 = ce_PayloadSHA256 captured,
      ev_transaction_id = ce_TransactionID captured,
      ev_message_lsn = LSN_String x (ce_MessageLSN captured),
      ev_commit_lsn = LSN_String x (ce_CommitLSN captured),
      ev_commit_end_lsn = LSN_String x (ce_CommitEndLSN captured),
      ev_commit_time = ce_CommitTime captured, ev_message_index = ce_MessageIndex captured,
      ev_captured_at = now, ev_pruned_at = None\<rparr>"

text \<open>The result is whether a row was inserted, and the sequence of the event.\<close>

definition insertOrVerify ::
    "externals \<Rightarrow> persist_env \<Rightarrow> nat \<Rightarrow> CapturedEvent \<Rightarrow> db \<Rightarrow> store_error + (db \<times> bool \<times> int)" where
  "insertOrVerify x e index captured d =
     (if pe_fails e (InsertEvent index) then Inl (ErrDurability ''insert event'')
      else if pe_fails e (InsertRowsAffected index) then Inl (ErrDurability ''inspect insert result'')
      else (case find_event (ce_Source captured) (ce_ID captured) d of
         None \<Rightarrow>
           (if pe_fails e (InsertLastInsertId index)
            then Inl (ErrDurability ''inspect inserted event sequence'')
            else (let sequence = db_events_seq d + 1 + int (pe_key_gap e index) in
                  Inr (d\<lparr>db_events := db_events d @ [captured_row x captured sequence (pe_captured_at e index)],
                         db_events_seq := sequence\<rparr>, True, sequence)))
       | Some r \<Rightarrow>
           (if pe_fails e (LoadReplayDigest index) then Inl (ErrDurability ''load replay digest'')
            else if ev_payload_sha256 r \<noteq> ce_PayloadSHA256 captured
            then Inl (ErrIdentityConflict (ce_Source captured) (ce_ID captured))
            else Inr (d, False, ev_sequence r))))"

definition fanout_rows :: "int \<Rightarrow> time \<Rightarrow> db \<Rightarrow> delivery_row list" where
  "fanout_rows sequence now d =
     (if event_retained sequence d
      then map (\<lambda>s. new_delivery sequence (sk_id s) now) (filter sk_active (db_sinks d))
      else [])"

definition ensureDeliveriesForEvent :: "persist_env \<Rightarrow> nat \<Rightarrow> int \<Rightarrow> db \<Rightarrow> store_error + db" where
  "ensureDeliveriesForEvent e index sequence d =
     (if pe_fails e (CreateDeliveries index) then Inl (ErrDurability ''create delivery records'')
      else (case insert_deliveries (fanout_rows sequence (pe_deliver_at e index) d) d of
              None \<Rightarrow> Inl (ErrDurability ''create delivery records'')
            | Some d' \<Rightarrow> Inr d'))"

text \<open>The loop over the batch: the counters are the inserted and the replayed events.\<close>

fun persist_events ::
    "externals \<Rightarrow> Hooks \<Rightarrow> persist_env \<Rightarrow> CommittedBatch \<Rightarrow> nat \<Rightarrow> CapturedEvent list \<Rightarrow>
     nat \<times> nat \<Rightarrow> db \<Rightarrow> (store_error, (nat \<times> nat) \<times> db) outcome" where
  "persist_events x h e batch index [] counts d = Ok (counts, d)"
| "persist_events x h e batch index (captured # rest) counts d =
     (case validateCapturedEvent x batch captured index of
        Some err \<Rightarrow> Err err
      | None \<Rightarrow>
        (case insertOrVerify x e index captured d of
           Inl err \<Rightarrow> Err err
         | Inr (d1, inserted, sequence) \<Rightarrow>
           (case ensureDeliveriesForEvent e index sequence d1 of
              Inl err \<Rightarrow> Err err
            | Inr d2 \<Rightarrow>
              (if CallAfterSpoolEvent h index then Halted
               else persist_events x h e batch (Suc index) rest
                      (if inserted then (Suc (fst counts), snd counts)
                       else (fst counts, Suc (snd counts))) d2))))"

definition lastDurableLSNTx :: "externals \<Rightarrow> db \<Rightarrow> lsn option" where
  "lastDurableLSNTx x d =
     (case db_metadata d durableLSNKey of None \<Rightarrow> Some 0 | Some value \<Rightarrow> ParseLSN x value)"

text \<open>The part of the transaction after the loop: read, compare and advance the checkpoint.\<close>

definition advance_checkpoint ::
    "externals \<Rightarrow> persist_env \<Rightarrow> lsn \<Rightarrow> db \<Rightarrow> store_error + (lsn \<times> db)" where
  "advance_checkpoint x e end_lsn d =
     (if pe_fails e ReadCheckpoint then Inl (ErrDurability ''read durable checkpoint'')
      else (case lastDurableLSNTx x d of
         None \<Rightarrow> Inl (ErrDurability ''read durable checkpoint'')
       | Some current \<Rightarrow>
           (if end_lsn > current then
              (if pe_fails e UpdateCheckpoint then Inl (ErrDurability ''update durable checkpoint'')
               else Inr (end_lsn, d\<lparr>db_metadata := (db_metadata d)(durableLSNKey \<mapsto> LSN_String x end_lsn)\<rparr>))
            else Inr (current, d))))"

text \<open>
  \<open>PersistCommittedBatch\<close> returns the database that is durable afterwards and its outcome.
  An error or a crash before the commit leaves the database as it was; a failing commit
  reports an error, and \<open>pe_commit\<close> says whether the transaction reached the disk.
\<close>

definition PersistCommittedBatch ::
    "externals \<Rightarrow> Hooks \<Rightarrow> persist_env \<Rightarrow> CommittedBatch \<Rightarrow> db \<Rightarrow>
     db \<times> (store_error, PersistResult) outcome" where
  "PersistCommittedBatch x h e batch d =
     (if cb_CommitEndLSN batch < cb_CommitLSN batch
      then (d, Err (ErrDurability ''commit end LSN precedes commit LSN''))
      else if CallBeforeSpoolTransaction h then (d, Halted)
      else if pe_fails e BeginTx then (d, Err (ErrDurability ''begin transaction''))
      else (case persist_events x h e batch 0 (cb_Events batch) (0, 0) d of
         Halted \<Rightarrow> (d, Halted)
       | Err err \<Rightarrow> (d, Err err)
       | Ok ((inserted, replayed), d1) \<Rightarrow>
         (case advance_checkpoint x e (cb_CommitEndLSN batch) d1 of
            Inl err \<Rightarrow> (d, Err err)
          | Inr (durable, d2) \<Rightarrow>
            (case pe_commit e of
               CommitLost \<Rightarrow> (d, Err (ErrDurability ''commit batch''))
             | CommitLanded \<Rightarrow> (d2, Err (ErrDurability ''commit batch''))
             | CommitOk \<Rightarrow>
                 (if CallAfterSpoolCommit h then (d2, Halted)
                  else (d2, Ok \<lparr>pr_Inserted = inserted, pr_Replayed = replayed,
                                pr_DurableLSN = durable\<rparr>))))))"

definition LastDurableLSN :: "externals \<Rightarrow> bool \<Rightarrow> db \<Rightarrow> store_error + lsn" where
  "LastDurableLSN x fails d =
     (if fails then Inl (ErrStore ''read durable LSN'')
      else (case db_metadata d durableLSNKey of
         None \<Rightarrow> Inr 0
       | Some value \<Rightarrow>
           (case ParseLSN x value of
              None \<Rightarrow> Inl (ErrStore ''parse durable LSN'')
            | Some l \<Rightarrow> Inr l)))"

section \<open>One event of a batch\<close>

definition recorded :: "db \<Rightarrow> CapturedEvent \<Rightarrow> bool" where
  "recorded d c \<longleftrightarrow> (\<exists>r \<in> set (db_events d). event_identity r = (ce_Source c, ce_ID c) \<and>
     ev_payload_sha256 r = ce_PayloadSHA256 c)"

text \<open>\<open>grows d d'\<close>: nothing that was in the spool is lost or altered.\<close>

definition grows :: "db \<Rightarrow> db \<Rightarrow> bool" where
  "grows d d' \<longleftrightarrow> (\<exists>rs ws. db_events d' = db_events d @ rs \<and> db_deliveries d' = db_deliveries d @ ws) \<and>
     db_sinks d' = db_sinks d \<and> db_sinks_seq d' = db_sinks_seq d \<and> db_schema d' = db_schema d"

lemma grows_refl [simp]: "grows d d"
  by (simp add: grows_def)

lemma grows_trans: "grows d d' \<Longrightarrow> grows d' d'' \<Longrightarrow> grows d d''"
  by (auto simp: grows_def)

lemma recorded_mono: "grows d d' \<Longrightarrow> recorded d c \<Longrightarrow> recorded d' c"
  by (auto simp: grows_def recorded_def)

lemma validateCapturedEvent_None:
  "validateCapturedEvent x batch c i = None \<longleftrightarrow>
     ce_Source c \<noteq> '''' \<and> ce_ID c \<noteq> '''' \<and> ce_Type c \<noteq> '''' \<and>
     ce_TransactionID c = cb_TransactionID batch \<and> ce_CommitLSN c = cb_CommitLSN batch \<and>
     ce_CommitEndLSN c = cb_CommitEndLSN batch \<and> ce_CommitTime c = cb_CommitTime batch \<and>
     ce_MessageIndex c = int i \<and> Sum256 x (ce_Payload c) = ce_PayloadSHA256 c"
  by (auto simp: validateCapturedEvent_def)

lemma captured_row_simps [simp]:
  "ev_sequence (captured_row x c q now) = q" "ev_source (captured_row x c q now) = ce_Source c"
  "ev_id (captured_row x c q now) = ce_ID c" "ev_pruned_at (captured_row x c q now) = None"
  "ev_payload (captured_row x c q now) = ce_Payload c"
  "ev_payload_sha256 (captured_row x c q now) = ce_PayloadSHA256 c"
  by (simp_all add: captured_row_def)

lemma insertOrVerify_cases:
  assumes "insertOrVerify x e i c d = Inr (d1, inserted, q)"
  obtains (inserted) "inserted" "find_event (ce_Source c) (ce_ID c) d = None"
      "q = db_events_seq d + 1 + int (pe_key_gap e i)"
      "d1 = d\<lparr>db_events := db_events d @ [captured_row x c q (pe_captured_at e i)], db_events_seq := q\<rparr>"
    | (replayed) r where "\<not> inserted" "find_event (ce_Source c) (ce_ID c) d = Some r"
      "ev_payload_sha256 r = ce_PayloadSHA256 c" "q = ev_sequence r" "d1 = d"
  using assms by (auto simp: insertOrVerify_def Let_def split: if_splits option.splits)

lemma ensureDeliveries_frame:
  assumes "ensureDeliveriesForEvent e i q d = Inr d'"
  shows "\<exists>vs. d' = d\<lparr>db_deliveries := db_deliveries d @ vs\<rparr>"
  using assms by (auto simp: ensureDeliveriesForEvent_def split: if_splits option.splits
    dest: insert_deliveries_frame)

lemma pending_fanout_rows: "pending_rows (fanout_rows q now d)"
  by (auto simp: pending_rows_def fanout_rows_def)

lemma ensureDeliveries_core:
  "core_inv x d \<Longrightarrow> ensureDeliveriesForEvent e i q d = Inr d' \<Longrightarrow> core_inv x d'"
  by (auto simp: ensureDeliveriesForEvent_def split: if_splits option.splits
    intro: core_inv_insert_deliveries pending_fanout_rows)

lemma ensureDeliveries_routed:
  "routed_ok d \<Longrightarrow> ensureDeliveriesForEvent e i q d = Inr d' \<Longrightarrow> routed_ok d'"
  by (auto simp: ensureDeliveriesForEvent_def fanout_rows_def split: if_splits option.splits
    elim!: routed_ok_insert_deliveries) blast

lemma ensureDeliveries_keys:
  assumes "ensureDeliveriesForEvent e i q d = Inr d'" and "event_retained q d"
    and "s \<in> set (db_sinks d)" "sk_active s"
  shows "(q, sk_id s) \<in> delivery_key ` set (db_deliveries d')"
proof -
  have "insert_deliveries (fanout_rows q (pe_deliver_at e i) d) d = Some d'"
    using assms(1) by (auto simp: ensureDeliveriesForEvent_def split: if_splits option.splits)
  moreover have "new_delivery q (sk_id s) (pe_deliver_at e i) \<in> set (fanout_rows q (pe_deliver_at e i) d)"
    using assms(2-) by (auto simp: fanout_rows_def)
  ultimately show ?thesis
    by (force simp: insert_deliveries_keys)
qed

text \<open>Without a failing statement the fan-out of an event never aborts: no trigger fires.\<close>

lemma ensureDeliveries_total:
  assumes "core_inv x d" and "\<not> pe_fails e (CreateDeliveries i)"
  shows "\<exists>d'. ensureDeliveriesForEvent e i q d = Inr d'"
proof -
  have "\<exists>d'. insert_deliveries (fanout_rows q (pe_deliver_at e i) d) d = Some d'"
    by (rule insert_deliveries_Some)
       (auto simp: fanout_rows_def event_pruned_retained [OF assms(1)] event_retained_in)
  then show ?thesis using assms(2) by (auto simp: ensureDeliveriesForEvent_def)
qed

lemma fanout_ok_step:
  assumes "fanout_ok d" and d1: "db_events d1 = db_events d @ rs" "\<forall>r \<in> set rs. ev_sequence r = q"
    and same: "db_sinks d1 = db_sinks d" "db_deliveries d1 = db_deliveries d"
    and ens: "ensureDeliveriesForEvent e i q d1 = Inr d2"
  shows "fanout_ok d2"
  unfolding fanout_ok_def
proof (intro ballI impI)
  fix r s assume r: "r \<in> set (db_events d2)" "retained r" and s: "s \<in> set (db_sinks d2)" "sk_active s"
  obtain vs where vs: "d2 = d1\<lparr>db_deliveries := db_deliveries d1 @ vs\<rparr>"
    using ensureDeliveries_frame [OF ens] by blast
  show "(ev_sequence r, sk_id s) \<in> delivery_key ` set (db_deliveries d2)"
  proof (cases "r \<in> set (db_events d)")
    case True
    then have "(ev_sequence r, sk_id s) \<in> delivery_key ` set (db_deliveries d)"
      using assms(1) r s vs same(1) by (auto simp: fanout_ok_def)
    then show ?thesis using vs same(2) by auto
  next
    case False
    then have "ev_sequence r = q" "event_retained q d1" "s \<in> set (db_sinks d1)"
      using r d1 vs s by (auto simp: event_retained_def)
    then show ?thesis
      using ensureDeliveries_keys [OF ens] s by simp
  qed
qed

lemma persist_one:
  assumes inv: "db_inv x d" and val: "validateCapturedEvent x batch c i = None"
    and ins: "insertOrVerify x e i c d = Inr (d1, inserted, q)"
    and ens: "ensureDeliveriesForEvent e i q d1 = Inr d2"
  shows "db_inv x d2" and "grows d d2" and "recorded d2 c" and "db_metadata d2 = db_metadata d"
    and "inserted \<longleftrightarrow> find_event (ce_Source c) (ce_ID c) d = None"
proof -
  obtain vs where vs: "d2 = d1\<lparr>db_deliveries := db_deliveries d1 @ vs\<rparr>"
    using ensureDeliveries_frame [OF ens] by blast
  have "db_inv x d2 \<and> grows d d2 \<and> recorded d2 c \<and> db_metadata d2 = db_metadata d \<and>
      (inserted \<longleftrightarrow> find_event (ce_Source c) (ce_ID c) d = None)"
    using ins
  proof (cases rule: insertOrVerify_cases)
    case inserted
    let ?row = "captured_row x c q (pe_captured_at e i)"
    have "core_inv x d1"
      using core_inv_insert_event [of x d ?row] inserted inv val
      by (auto simp: validateCapturedEvent_None)
    then have "core_inv x d2" using ens by (rule ensureDeliveries_core)
    moreover have "fanout_ok d2"
      using fanout_ok_step [of d d1 "[?row]" q e i d2] inserted inv ens by auto
    moreover have "routed_ok d2"
      by (rule ensureDeliveries_routed [OF _ ens]) (use inserted inv in \<open>auto simp: db_inv_def routed_ok_def\<close>)
    ultimately show ?thesis
      using inserted vs by (auto simp: db_inv_def grows_def recorded_def)
  next
    case (replayed r)
    have "core_inv x d2" using ensureDeliveries_core [OF _ ens] replayed inv by auto
    moreover have "fanout_ok d2"
      using fanout_ok_step [of d d1 "[]" q e i d2] replayed inv ens by auto
    moreover have "routed_ok d2"
      using ensureDeliveries_routed [OF _ ens] replayed inv by auto
    ultimately show ?thesis
      using replayed vs by (auto simp: db_inv_def grows_def recorded_def dest!: find_event_SomeD)
  qed
  then show "db_inv x d2" and "grows d d2" and "recorded d2 c" and "db_metadata d2 = db_metadata d"
    and "inserted \<longleftrightarrow> find_event (ce_Source c) (ce_ID c) d = None" by blast+
qed

section \<open>The loop over a batch\<close>

lemma persist_events_Cons_Ok:
  assumes "persist_events x h e batch i (c # cs) n d = Ok r"
  obtains d1 inserted q d2 where "validateCapturedEvent x batch c i = None"
    "insertOrVerify x e i c d = Inr (d1, inserted, q)" "ensureDeliveriesForEvent e i q d1 = Inr d2"
    "persist_events x h e batch (Suc i) cs
       (if inserted then (Suc (fst n), snd n) else (fst n, Suc (snd n))) d2 = Ok r"
  using assms by (auto split: option.splits sum.splits prod.splits if_splits)

lemma persist_events_Ok:
  assumes "db_inv x d" and "persist_events x h e batch i cs n d = Ok (n', d')"
  shows "db_inv x d' \<and> grows d d' \<and> (\<forall>c \<in> set cs. recorded d' c) \<and> db_metadata d' = db_metadata d \<and>
    fst n' + snd n' = fst n + snd n + length cs"
  using assms
proof (induction cs arbitrary: i n d)
  case Nil
  then show ?case by simp
next
  case (Cons c cs)
  from Cons.prems(2) obtain d1 inserted q d2 where
    step: "validateCapturedEvent x batch c i = None" "insertOrVerify x e i c d = Inr (d1, inserted, q)"
      "ensureDeliveriesForEvent e i q d1 = Inr d2"
    and rest: "persist_events x h e batch (Suc i) cs
       (if inserted then (Suc (fst n), snd n) else (fst n, Suc (snd n))) d2 = Ok (n', d')"
    by (rule persist_events_Cons_Ok)
  note one = persist_one [OF Cons.prems(1) step]
  note all = Cons.IH [OF one(1) rest]
  have "grows d d'" "recorded d' c"
    using one(2,3) all by (blast intro: grows_trans recorded_mono)+
  with all one(4) show ?case by (auto split: if_splits)
qed

abbreviation no_faults :: "persist_env \<Rightarrow> persist_env" where
  "no_faults e \<equiv> e\<lparr>pe_fails := (\<lambda>_. False), pe_commit := CommitOk\<rparr>"

lemma insertOrVerify_no_faults:
  "insertOrVerify x e i c d = Inr r \<Longrightarrow> insertOrVerify x (no_faults e) i c d = Inr r"
  by (auto simp: insertOrVerify_def Let_def split: if_splits option.splits)

lemma ensureDeliveries_no_faults:
  "ensureDeliveriesForEvent e i q d = Inr r \<Longrightarrow> ensureDeliveriesForEvent (no_faults e) i q d = Inr r"
  by (auto simp: ensureDeliveriesForEvent_def split: if_splits option.splits)

lemma persist_events_no_faults:
  "persist_events x h e batch i cs n d = Ok r \<Longrightarrow>
     persist_events x no_hooks (no_faults e) batch i cs n d = Ok r"
proof (induction cs arbitrary: i n d)
  case Nil
  then show ?case by simp
next
  case (Cons c cs)
  from Cons.prems show ?case
    by (rule persist_events_Cons_Ok)
       (simp add: insertOrVerify_no_faults ensureDeliveries_no_faults Cons.IH)
qed

section \<open>The whole transaction\<close>

lemma advance_checkpoint_Inr:
  assumes "advance_checkpoint x e l d = Inr (durable, d')"
  obtains current where "lastDurableLSNTx x d = Some current" "durable = max current l"
    "d' = (if current < l then d\<lparr>db_metadata := (db_metadata d)(durableLSNKey \<mapsto> LSN_String x l)\<rparr> else d)"
proof -
  from assms obtain current where "lastDurableLSNTx x d = Some current"
    by (auto simp: advance_checkpoint_def split: if_splits option.splits)
  with assms show ?thesis
    by (intro that [of current]) (auto simp: advance_checkpoint_def max_def split: if_splits)
qed

lemma db_inv_checkpoint:
  assumes "db_inv x d" and "lsn_codec x"
  shows "db_inv x (d\<lparr>db_metadata := (db_metadata d)(durableLSNKey \<mapsto> LSN_String x l)\<rparr>)"
  using assms by (simp add: db_inv_defs)

lemma lastDurableLSNTx_update [simp]:
  "lsn_codec x \<Longrightarrow>
     lastDurableLSNTx x (d\<lparr>db_metadata := (db_metadata d)(durableLSNKey \<mapsto> LSN_String x l)\<rparr>) = Some l"
  by (simp add: lastDurableLSNTx_def)

lemma lastDurableLSNTx_total: "checkpoint_ok x d \<Longrightarrow> \<exists>l. lastDurableLSNTx x d = Some l"
  by (auto simp: checkpoint_ok_def lastDurableLSNTx_def split: option.splits)

lemma advance_checkpoint_correct:
  assumes "db_inv x d" "lsn_codec x" "advance_checkpoint x e l d = Inr (durable, d')"
  shows "db_inv x d'" "grows d d'" "lastDurableLSNTx x d' = Some durable" "l \<le> durable"
    "db_events d' = db_events d" "lastDurableLSNTx x d = Some c \<Longrightarrow> durable = max c l"
  using assms(3)
  by (rule advance_checkpoint_Inr; use assms(1,2) in \<open>auto simp: db_inv_checkpoint grows_def max_def\<close>)+

text \<open>
  The database a transaction reaches just before its commit, if it gets there.
\<close>

definition reached :: "externals \<Rightarrow> Hooks \<Rightarrow> persist_env \<Rightarrow> CommittedBatch \<Rightarrow> db \<Rightarrow> (PersistResult \<times> db) option" where
  "reached x h e batch d =
     (if cb_CommitEndLSN batch < cb_CommitLSN batch then None
      else (case persist_events x h e batch 0 (cb_Events batch) (0, 0) d of
         Ok ((inserted, replayed), d1) \<Rightarrow>
           (case advance_checkpoint x e (cb_CommitEndLSN batch) d1 of
              Inl _ \<Rightarrow> None
            | Inr (durable, d2) \<Rightarrow>
                Some (\<lparr>pr_Inserted = inserted, pr_Replayed = replayed, pr_DurableLSN = durable\<rparr>, d2))
       | _ \<Rightarrow> None))"

lemma PersistCommittedBatch_cases:
  obtains (aborted) "fst (PersistCommittedBatch x h e batch d) = d"
      "\<forall>r. snd (PersistCommittedBatch x h e batch d) \<noteq> Ok r"
    | (landed) r d' where "reached x h e batch d = Some (r, d')"
      "fst (PersistCommittedBatch x h e batch d) = d'"
      "snd (PersistCommittedBatch x h e batch d) \<in> {Ok r, Err (ErrDurability ''commit batch''), Halted}"
proof -
  let ?p = "PersistCommittedBatch x h e batch d"
  have "fst ?p = d \<and> (\<forall>r. snd ?p \<noteq> Ok r) \<or>
      (\<exists>r d'. reached x h e batch d = Some (r, d') \<and> fst ?p = d' \<and>
         snd ?p \<in> {Ok r, Err (ErrDurability ''commit batch''), Halted})"
    by (simp add: PersistCommittedBatch_def reached_def
        split: outcome.split sum.split commit_fault.split prod.split)
  with that show ?thesis by blast
qed

lemma PersistCommittedBatch_OkD:
  assumes "PersistCommittedBatch x h e batch d = (d', Ok r)"
  shows "reached x h e batch d = Some (r, d')"
proof (cases rule: PersistCommittedBatch_cases [of x h e batch d])
  case aborted
  with assms show ?thesis by simp
next
  case (landed r' d'')
  with assms show ?thesis by simp
qed

lemma reached_correct:
  assumes inv: "db_inv x d" and codec: "lsn_codec x" and r: "reached x h e batch d = Some (r, d')"
  shows "db_inv x d'" and "grows d d'" and "\<forall>c \<in> set (cb_Events batch). recorded d' c"
    and "lastDurableLSNTx x d' = Some (pr_DurableLSN r)"
    and "cb_CommitEndLSN batch \<le> pr_DurableLSN r"
    and "lastDurableLSNTx x d = Some c \<Longrightarrow> pr_DurableLSN r = max c (cb_CommitEndLSN batch)"
    and "pr_Inserted r + pr_Replayed r = length (cb_Events batch)"
proof -
  obtain inserted replayed d1 durable where
    loop: "persist_events x h e batch 0 (cb_Events batch) (0, 0) d = Ok ((inserted, replayed), d1)"
    and adv: "advance_checkpoint x e (cb_CommitEndLSN batch) d1 = Inr (durable, d')"
    and r': "r = \<lparr>pr_Inserted = inserted, pr_Replayed = replayed, pr_DurableLSN = durable\<rparr>"
    using r by (auto simp: reached_def split: if_splits outcome.splits sum.splits)
  note l = persist_events_Ok [OF inv loop]
  have inv1: "db_inv x d1" using l by blast
  note a = advance_checkpoint_correct [OF inv1 codec adv]
  show "db_inv x d'" by (rule a(1))
  show "grows d d'" using l a(2) by (blast intro: grows_trans)
  show "\<forall>c \<in> set (cb_Events batch). recorded d' c"
    using l a(2) by (blast intro: recorded_mono)
  show "lastDurableLSNTx x d' = Some (pr_DurableLSN r)" "cb_CommitEndLSN batch \<le> pr_DurableLSN r"
    using a(3,4) r' by simp_all
  show "pr_Inserted r + pr_Replayed r = length (cb_Events batch)" using l r' by simp
  have "lastDurableLSNTx x d1 = lastDurableLSNTx x d"
    using l by (simp add: lastDurableLSNTx_def)
  then show "lastDurableLSNTx x d = Some c \<Longrightarrow> pr_DurableLSN r = max c (cb_CommitEndLSN batch)"
    using a(6) r' by simp
qed

lemma reached_no_faults:
  assumes "reached x h e batch d = Some (r, d')"
  shows "PersistCommittedBatch x no_hooks (no_faults e) batch d = (d', Ok r)"
proof -
  obtain n d1 where ev: "persist_events x h e batch 0 (cb_Events batch) (0, 0) d = Ok (n, d1)"
    using assms by (auto simp: reached_def split: if_splits outcome.splits)
  have cp: "advance_checkpoint x e l dd = Inr v \<Longrightarrow> advance_checkpoint x (no_faults e) l dd = Inr v" for l dd v
    by (auto simp: advance_checkpoint_def split: if_splits option.splits)
  from assms ev show ?thesis
    by (auto simp: reached_def PersistCommittedBatch_def persist_events_no_faults [OF ev] cp
      split: if_splits sum.splits prod.splits)
qed

section \<open>Which batches a fault-free transaction accepts\<close>

text \<open>
  A batch agrees with a spool when no two digests claim one identity, among its events and
  the stored ones.
\<close>

definition stored_claims :: "db \<Rightarrow> ((string \<times> string) \<times> digest) set" where
  "stored_claims d = (\<lambda>r. (event_identity r, ev_payload_sha256 r)) ` set (db_events d)"

definition batch_claims :: "CapturedEvent list \<Rightarrow> ((string \<times> string) \<times> digest) set" where
  "batch_claims cs = (\<lambda>c. ((ce_Source c, ce_ID c), ce_PayloadSHA256 c)) ` set cs"

definition conflict_free :: "CapturedEvent list \<Rightarrow> db \<Rightarrow> bool" where
  "conflict_free cs d \<longleftrightarrow> single_valued (batch_claims cs \<union> stored_claims d)"

lemma recorded_claims: "recorded d c \<longleftrightarrow> ((ce_Source c, ce_ID c), ce_PayloadSHA256 c) \<in> stored_claims d"
  by (force simp: recorded_def stored_claims_def)

lemma single_valued_stored: "core_inv x d \<Longrightarrow> single_valued (stored_claims d)"
  by (auto simp: single_valued_def stored_claims_def dest: identity_unique)

definition well_formed_events :: "externals \<Rightarrow> CommittedBatch \<Rightarrow> nat \<Rightarrow> CapturedEvent list \<Rightarrow> bool" where
  "well_formed_events x batch i cs \<longleftrightarrow>
     (\<forall>j < length cs. validateCapturedEvent x batch (cs ! j) (i + j) = None)"

definition well_formed_batch :: "externals \<Rightarrow> CommittedBatch \<Rightarrow> bool" where
  "well_formed_batch x batch \<longleftrightarrow>
     cb_CommitLSN batch \<le> cb_CommitEndLSN batch \<and> well_formed_events x batch 0 (cb_Events batch)"

lemma well_formed_events_Cons:
  "well_formed_events x batch i (c # cs) \<longleftrightarrow>
     validateCapturedEvent x batch c i = None \<and> well_formed_events x batch (Suc i) cs"
  by (simp add: well_formed_events_def All_less_Suc2)

lemma insertOrVerify_claims:
  assumes "insertOrVerify x e i c d = Inr (d1, inserted, q)" "ensureDeliveriesForEvent e i q d1 = Inr d2"
  shows "stored_claims d2 = insert ((ce_Source c, ce_ID c), ce_PayloadSHA256 c) (stored_claims d)"
proof -
  have same: "db_events d2 = db_events d1"
    using ensureDeliveries_frame [OF assms(2)] by auto
  from assms(1) show ?thesis
  proof (cases rule: insertOrVerify_cases)
    case inserted
    with same show ?thesis by (simp add: stored_claims_def)
  next
    case (replayed r)
    then have "recorded d c" by (auto simp: recorded_def dest: find_event_SomeD)
    with replayed same show ?thesis by (auto simp: recorded_claims stored_claims_def)
  qed
qed

lemma conflict_free_step:
  "insertOrVerify x e i c d = Inr (d1, inserted, q) \<Longrightarrow> ensureDeliveriesForEvent e i q d1 = Inr d2 \<Longrightarrow>
     conflict_free (c # cs) d \<longleftrightarrow> conflict_free cs d2"
  by (simp add: conflict_free_def insertOrVerify_claims) (simp add: batch_claims_def insert_commute)

lemma insertOrVerify_fault_free:
  assumes "\<forall>p. \<not> pe_fails e p"
  shows "(\<exists>r. insertOrVerify x e i c d = Inr r) \<or>
    insertOrVerify x e i c d = Inl (ErrIdentityConflict (ce_Source c) (ce_ID c)) \<and> \<not> conflict_free (c # cs) d"
proof (cases "find_event (ce_Source c) (ce_ID c) d")
  case None
  with assms show ?thesis by (auto simp: insertOrVerify_def Let_def)
next
  case (Some r)
  then have r: "((ce_Source c, ce_ID c), ev_payload_sha256 r) \<in> stored_claims d"
    by (force simp: stored_claims_def dest: find_event_SomeD)
  show ?thesis
  proof (cases "ev_payload_sha256 r = ce_PayloadSHA256 c")
    case True
    with Some assms show ?thesis by (auto simp: insertOrVerify_def)
  next
    case False
    then have "\<not> conflict_free (c # cs) d"
      using r by (auto simp: conflict_free_def batch_claims_def single_valued_def)
    with Some False assms show ?thesis by (simp add: insertOrVerify_def)
  qed
qed

lemma persist_events_fault_free:
  assumes "db_inv x d" and "well_formed_events x batch i cs" and "\<forall>p. \<not> pe_fails e p"
  shows "if conflict_free cs d
         then \<exists>r. persist_events x no_hooks e batch i cs n d = Ok r
         else \<exists>s k. persist_events x no_hooks e batch i cs n d = Err (ErrIdentityConflict s k)"
  using assms
proof (induction cs arbitrary: i n d)
  case Nil
  then have "conflict_free [] d"
    by (auto simp: conflict_free_def batch_claims_def dest: single_valued_stored)
  then show ?case by simp
next
  case (Cons c cs)
  have val: "validateCapturedEvent x batch c i = None" and wf: "well_formed_events x batch (Suc i) cs"
    using Cons.prems(2) by (simp_all add: well_formed_events_Cons)
  consider (err) "insertOrVerify x e i c d = Inl (ErrIdentityConflict (ce_Source c) (ce_ID c))"
      "\<not> conflict_free (c # cs) d"
    | (ok) d1 inserted q where "insertOrVerify x e i c d = Inr (d1, inserted, q)"
    using insertOrVerify_fault_free [OF Cons.prems(3)] by (metis prod_cases3)
  then show ?case
  proof cases
    case err
    with val show ?thesis by auto
  next
    case ok
    have "core_inv x d1"
      using ok
    proof (cases rule: insertOrVerify_cases)
      case inserted
      then show ?thesis
        using core_inv_insert_event [of x d "captured_row x c q (pe_captured_at e i)"] Cons.prems(1) val
        by (auto simp: validateCapturedEvent_None)
    next
      case (replayed r)
      with Cons.prems(1) show ?thesis by auto
    qed
    then obtain d2 where ens: "ensureDeliveriesForEvent e i q d1 = Inr d2"
      using ensureDeliveries_total Cons.prems(3) by blast
    note step = persist_one [OF Cons.prems(1) val ok ens]
    have "conflict_free (c # cs) d \<longleftrightarrow> conflict_free cs d2"
      by (rule conflict_free_step [OF ok ens])
    moreover define m where "m = (if inserted then (Suc (fst n), snd n) else (fst n, Suc (snd n)))"
    have "persist_events x no_hooks e batch i (c # cs) n d = persist_events x no_hooks e batch (Suc i) cs m d2"
      using val ok ens by (simp add: m_def)
    ultimately show ?thesis
      using Cons.IH [OF step(1) wf Cons.prems(3), of m] by (simp only:)
  qed
qed

section \<open>Replay\<close>

lemma insert_deliveries_present:
  "(\<And>w. w \<in> set ws \<Longrightarrow> \<not> event_pruned (dl_event w) d \<and> delivery_key w \<in> delivery_key ` set (db_deliveries d)) \<Longrightarrow>
     insert_deliveries ws d = Some d"
  by (induction ws) (auto simp: insert_delivery_def)

lemma ensureDeliveries_present:
  assumes "db_inv x d" and "\<not> pe_fails e (CreateDeliveries i)"
  shows "ensureDeliveriesForEvent e i q d = Inr d"
proof -
  have c: "core_inv x d" and f: "fanout_ok d" using assms(1) by auto
  have "insert_deliveries (fanout_rows q (pe_deliver_at e i) d) d = Some d"
  proof (rule insert_deliveries_present)
    fix w assume w: "w \<in> set (fanout_rows q (pe_deliver_at e i) d)"
    then obtain s where s: "event_retained q d" "s \<in> set (db_sinks d)" "sk_active s"
      "w = new_delivery q (sk_id s) (pe_deliver_at e i)"
      by (auto simp: fanout_rows_def split: if_splits)
    then have "(q, sk_id s) \<in> delivery_key ` set (db_deliveries d)"
      using f by (auto simp: fanout_ok_def event_retained_def)
    with s c show "\<not> event_pruned (dl_event w) d \<and> delivery_key w \<in> delivery_key ` set (db_deliveries d)"
      by (auto dest: event_pruned_retained)
  qed
  with assms(2) show ?thesis by (simp add: ensureDeliveriesForEvent_def)
qed

lemma insertOrVerify_recorded:
  assumes "core_inv x d" and "recorded d c" and "\<forall>p. \<not> pe_fails e p"
  shows "\<exists>q. insertOrVerify x e i c d = Inr (d, False, q)"
proof -
  obtain r where r: "r \<in> set (db_events d)" "ev_source r = ce_Source c" "ev_id r = ce_ID c"
    "ev_payload_sha256 r = ce_PayloadSHA256 c"
    using assms(2) by (auto simp: recorded_def)
  have "find_event (ce_Source c) (ce_ID c) d = Some r"
    using find_event_eq [OF assms(1) r(1)] r by simp
  with r assms(3) show ?thesis by (simp add: insertOrVerify_def)
qed

lemma persist_events_replay:
  assumes "db_inv x d" and "well_formed_events x batch i cs" and "\<forall>c \<in> set cs. recorded d c"
    and "\<forall>p. \<not> pe_fails e p"
  shows "persist_events x no_hooks e batch i cs n d = Ok ((fst n, snd n + length cs), d)"
  using assms
proof (induction cs arbitrary: i n)
  case Nil
  then show ?case by simp
next
  case (Cons c cs)
  have "core_inv x d" using Cons.prems(1) by blast
  then obtain q where "insertOrVerify x e i c d = Inr (d, False, q)"
    using insertOrVerify_recorded Cons.prems(3,4) by (metis list.set_intros(1))
  with Cons show ?case
    by (simp add: well_formed_events_Cons ensureDeliveries_present)
qed


section \<open>The interface of a spool\<close>

text \<open>
  What the Go interface \<open>spool.Spool\<close> promises its client, the replicator. \<open>view\<close> is the
  state of a spool as the client sees it: which identities it holds with which digest, and
  its checkpoint. A persist either leaves the view alone or adds the whole batch and
  advances the checkpoint; success means the latter.
\<close>

locale spool_interface =
  fixes persist :: "'env \<Rightarrow> CommittedBatch \<Rightarrow> 's \<Rightarrow> 's \<times> (store_error, PersistResult) outcome"
    and checkpoint :: "'s \<Rightarrow> lsn"
    and claims :: "'s \<Rightarrow> ((string \<times> string) \<times> digest) set"
    and good :: "'s \<Rightarrow> bool"
  assumes persist_good: "good s \<Longrightarrow> good (fst (persist e b s))"
    and persist_all_or_nothing: "good s \<Longrightarrow>
      claims (fst (persist e b s)) = claims s \<and> checkpoint (fst (persist e b s)) = checkpoint s \<or>
      claims (fst (persist e b s)) = claims s \<union> batch_claims (cb_Events b) \<and>
        checkpoint (fst (persist e b s)) = max (checkpoint s) (cb_CommitEndLSN b)"
    and persist_success: "good s \<Longrightarrow> persist e b s = (s', Ok r) \<Longrightarrow>
      claims s' = claims s \<union> batch_claims (cb_Events b) \<and>
      checkpoint s' = max (checkpoint s) (cb_CommitEndLSN b) \<and> pr_DurableLSN r = checkpoint s'"
begin

lemma claims_mono: "good s \<Longrightarrow> claims s \<subseteq> claims (fst (persist e b s))"
  using persist_all_or_nothing [of s e b] by blast

lemma checkpoint_mono: "good s \<Longrightarrow> checkpoint s \<le> checkpoint (fst (persist e b s))"
  using persist_all_or_nothing [of s e b] by (metis max.cobounded1 order_refl)

text \<open>The checkpoint never runs ahead of the events: it moves only together with them.\<close>

lemma checkpoint_covers:
  assumes "good s" and "checkpoint s < checkpoint (fst (persist e b s))"
  shows "batch_claims (cb_Events b) \<subseteq> claims (fst (persist e b s))"
    and "checkpoint (fst (persist e b s)) = cb_CommitEndLSN b"
proof -
  have "checkpoint (fst (persist e b s)) \<noteq> checkpoint s" using assms(2) by simp
  with persist_all_or_nothing [OF assms(1), of e b]
  have c: "claims (fst (persist e b s)) = claims s \<union> batch_claims (cb_Events b)"
    "checkpoint (fst (persist e b s)) = max (checkpoint s) (cb_CommitEndLSN b)" by blast+
  then show "batch_claims (cb_Events b) \<subseteq> claims (fst (persist e b s))" by blast
  show "checkpoint (fst (persist e b s)) = cb_CommitEndLSN b"
    using c(2) assms(2) by (metis less_irrefl max_def)
qed

lemma success_covers:
  assumes "good s" and "persist e b s = (s', Ok r)"
  shows "batch_claims (cb_Events b) \<subseteq> claims s'" "cb_CommitEndLSN b \<le> pr_DurableLSN r"
    "pr_DurableLSN r = checkpoint s'"
  using persist_success [OF assms] by simp_all

end

text \<open>The checkpoint of a spool that satisfies the invariant, 0 when none is stored.\<close>

definition durable_lsn :: "externals \<Rightarrow> db \<Rightarrow> lsn" where
  "durable_lsn x d = (case lastDurableLSNTx x d of None \<Rightarrow> 0 | Some l \<Rightarrow> l)"

lemma durable_lsn_eq: "checkpoint_ok x d \<Longrightarrow> lastDurableLSNTx x d = Some (durable_lsn x d)"
  using lastDurableLSNTx_total [of x d] by (auto simp: durable_lsn_def)

lemma LastDurableLSN_durable: "checkpoint_ok x d \<Longrightarrow> LastDurableLSN x False d = Inr (durable_lsn x d)"
  by (auto simp: LastDurableLSN_def durable_lsn_def lastDurableLSNTx_def checkpoint_ok_def split: option.splits)

lemma persist_events_claims:
  "persist_events x h e batch i cs n d = Ok (n', d') \<Longrightarrow> stored_claims d' = stored_claims d \<union> batch_claims cs"
proof (induction cs arbitrary: i n d)
  case Nil
  then show ?case by (simp add: batch_claims_def)
next
  case (Cons c cs)
  from Cons.prems show ?case
    by (rule persist_events_Cons_Ok) (auto simp: Cons.IH insertOrVerify_claims batch_claims_def)
qed

lemma reached_claims:
  assumes "reached x h e batch d = Some (r, d')"
  shows "stored_claims d' = stored_claims d \<union> batch_claims (cb_Events batch)"
proof -
  obtain n d1 durable where loop: "persist_events x h e batch 0 (cb_Events batch) (0, 0) d = Ok (n, d1)"
    and adv: "advance_checkpoint x e (cb_CommitEndLSN batch) d1 = Inr (durable, d')"
    using assms by (auto simp: reached_def split: if_splits outcome.splits sum.splits)
  have "db_events d' = db_events d1"
    using adv by (auto elim!: advance_checkpoint_Inr)
  then show ?thesis
    using persist_events_claims [OF loop] by (simp add: stored_claims_def)
qed

lemma reached_checkpoint:
  assumes "db_inv x d" "lsn_codec x" "reached x h e batch d = Some (r, d')"
  shows "durable_lsn x d' = max (durable_lsn x d) (cb_CommitEndLSN batch)" "pr_DurableLSN r = durable_lsn x d'"
proof -
  have "lastDurableLSNTx x d = Some (durable_lsn x d)"
    using assms(1) by (intro durable_lsn_eq) (auto dest: core_invD)
  then show "durable_lsn x d' = max (durable_lsn x d) (cb_CommitEndLSN batch)" "pr_DurableLSN r = durable_lsn x d'"
    using reached_correct [OF assms] by (auto simp: durable_lsn_def)
qed

definition sqlite_persist ::
    "externals \<Rightarrow> Hooks \<times> persist_env \<Rightarrow> CommittedBatch \<Rightarrow> db \<Rightarrow> db \<times> (store_error, PersistResult) outcome" where
  "sqlite_persist x he b d = PersistCommittedBatch x (fst he) (snd he) b d"

lemma sqlite_persist_cases:
  assumes "lsn_codec x" and "db_inv x d"
  obtains (aborted) "fst (sqlite_persist x e b d) = d" "\<forall>r. snd (sqlite_persist x e b d) \<noteq> Ok r"
    | (landed) r where "db_inv x (fst (sqlite_persist x e b d))"
      "stored_claims (fst (sqlite_persist x e b d)) = stored_claims d \<union> batch_claims (cb_Events b)"
      "durable_lsn x (fst (sqlite_persist x e b d)) = max (durable_lsn x d) (cb_CommitEndLSN b)"
      "pr_DurableLSN r = durable_lsn x (fst (sqlite_persist x e b d))"
      "\<forall>r'. snd (sqlite_persist x e b d) = Ok r' \<longrightarrow> r' = r"
proof (cases rule: PersistCommittedBatch_cases [of x "fst e" "snd e" b d])
  case aborted
  then show ?thesis by (intro that(1)) (simp_all add: sqlite_persist_def)
next
  case (landed r d')
  show ?thesis
    by (rule that(2) [of r], unfold sqlite_persist_def landed(2),
        rule reached_correct(1) [OF assms(2,1) landed(1)], rule reached_claims [OF landed(1)],
        rule reached_checkpoint(1) [OF assms(2,1) landed(1)],
        rule reached_checkpoint(2) [OF assms(2,1) landed(1)])
       (use landed(3) in auto)
qed

interpretation sqlite_spool: spool_interface "sqlite_persist x" "durable_lsn x" stored_claims
  "\<lambda>d. lsn_codec x \<and> db_inv x d" for x
proof
  fix s :: db and e :: "Hooks \<times> persist_env" and b s' r
  assume good: "lsn_codec x \<and> db_inv x s"
  let ?p = "sqlite_persist x e b s"
  have "lsn_codec x" "db_inv x s" using good by auto
  then have view: "db_inv x (fst ?p)"
    "stored_claims (fst ?p) = stored_claims s \<and> durable_lsn x (fst ?p) = durable_lsn x s \<or>
     stored_claims (fst ?p) = stored_claims s \<union> batch_claims (cb_Events b) \<and>
       durable_lsn x (fst ?p) = max (durable_lsn x s) (cb_CommitEndLSN b)"
    by (cases rule: sqlite_persist_cases [of x s e b]; simp)+
  show "lsn_codec x \<and> db_inv x (fst ?p)" using good view(1) by simp
  show "stored_claims (fst ?p) = stored_claims s \<and> durable_lsn x (fst ?p) = durable_lsn x s \<or>
     stored_claims (fst ?p) = stored_claims s \<union> batch_claims (cb_Events b) \<and>
       durable_lsn x (fst ?p) = max (durable_lsn x s) (cb_CommitEndLSN b)" by (rule view(2))
  assume ok: "?p = (s', Ok r)"
  from \<open>lsn_codec x\<close> \<open>db_inv x s\<close> show "stored_claims s' = stored_claims s \<union> batch_claims (cb_Events b) \<and>
      durable_lsn x s' = max (durable_lsn x s) (cb_CommitEndLSN b) \<and> pr_DurableLSN r = durable_lsn x s'"
    by (cases rule: sqlite_persist_cases [of x s e b]) (simp_all add: ok)
qed

section \<open>A concrete spool\<close>

text \<open>Inputs at which the properties below are evaluated.\<close>

definition example_sink :: sink_row where
  "example_sink = \<lparr>sk_id = 1, sk_name = ''orders'', sk_type = ''webhook'', sk_config_sha256 = 7,
     sk_active = True, sk_created_at = 0\<rparr>"

definition example_db :: db where
  "example_db = empty_db\<lparr>db_schema := [1, 2, 3], db_sinks := [example_sink], db_sinks_seq := 1\<rparr>"

definition example_event :: CapturedEvent where
  "example_event = \<lparr>ce_Source = ''urn:billing'', ce_ID = ''evt-1'', ce_Type = ''order.paid'',
     ce_Subject = ''order-1'', ce_Payload = ''{}'', ce_PayloadSHA256 = checksum ''{}'',
     ce_TransactionID = 77, ce_MessageLSN = 90, ce_CommitLSN = 100, ce_CommitEndLSN = 120,
     ce_CommitTime = 5, ce_MessageIndex = 0\<rparr>"

definition example_batch :: CommittedBatch where
  "example_batch = \<lparr>cb_TransactionID = 77, cb_CommitLSN = 100, cb_CommitEndLSN = 120,
     cb_CommitTime = 5, cb_Events = [example_event]\<rparr>"

definition quiet_env :: persist_env where
  "quiet_env = \<lparr>pe_fails = (\<lambda>_. False), pe_commit = CommitOk, pe_captured_at = (\<lambda>_. 10),
     pe_deliver_at = (\<lambda>_. 10), pe_key_gap = (\<lambda>_. 0)\<rparr>"

definition captured_db :: db where
  "captured_db = example_db\<lparr>db_metadata := [durableLSNKey \<mapsto> bits_string 120],
     db_events := [captured_row example_externals example_event 1 10], db_events_seq := 1,
     db_deliveries := [new_delivery 1 1 10]\<rparr>"

lemmas example_defs = example_sink_def example_db_def example_event_def example_batch_def
  quiet_env_def captured_db_def empty_db_def example_externals_def

lemmas capture_defs = PersistCommittedBatch_def validateCapturedEvent_def insertOrVerify_def
  ensureDeliveriesForEvent_def fanout_rows_def event_retained_def event_pruned_def
  insert_delivery_def find_event_def advance_checkpoint_def lastDurableLSNTx_def

lemma example_db_inv: "db_inv example_externals example_db"
  by (simp add: db_inv_defs example_db_def empty_db_def example_sink_def)

lemma example_persist:
  "PersistCommittedBatch example_externals no_hooks quiet_env example_batch example_db =
     (captured_db, Ok \<lparr>pr_Inserted = 1, pr_Replayed = 0, pr_DurableLSN = 120\<rparr>)"
  by (simp add: example_defs capture_defs)

section \<open>Properties of capture\<close>

lemma persist_events_well_formed:
  "persist_events x h e batch i cs n d = Ok r \<Longrightarrow> well_formed_events x batch i cs"
proof (induction cs arbitrary: i n d)
  case Nil
  then show ?case by (simp add: well_formed_events_def)
next
  case (Cons c cs)
  from Cons.prems show ?case
    by (rule persist_events_Cons_Ok) (auto simp: well_formed_events_Cons Cons.IH)
qed

lemma reached_well_formed: "reached x h e b d = Some r \<Longrightarrow> well_formed_batch x b"
  by (auto simp: reached_def well_formed_batch_def split: if_splits outcome.splits
      dest: persist_events_well_formed)

lemma persist_fault_free:
  "PersistCommittedBatch x no_hooks (no_faults e) b d =
     (if cb_CommitEndLSN b < cb_CommitLSN b then (d, Err (ErrDurability ''commit end LSN precedes commit LSN''))
      else (case persist_events x no_hooks (no_faults e) b 0 (cb_Events b) (0, 0) d of
         Halted \<Rightarrow> (d, Halted)
       | Err err \<Rightarrow> (d, Err err)
       | Ok ((inserted, replayed), d1) \<Rightarrow>
         (case advance_checkpoint x (no_faults e) (cb_CommitEndLSN b) d1 of
            Inl err \<Rightarrow> (d, Err err)
          | Inr (durable, d2) \<Rightarrow>
              (d2, Ok \<lparr>pr_Inserted = inserted, pr_Replayed = replayed, pr_DurableLSN = durable\<rparr>))))"
  by (simp add: PersistCommittedBatch_def split: outcome.split sum.split)

lemma advance_checkpoint_total:
  "checkpoint_ok x d \<Longrightarrow> \<exists>r. advance_checkpoint x (no_faults e) l d = Inr r"
  by (auto simp: advance_checkpoint_def dest: lastDurableLSNTx_total)

lemma advance_checkpoint_old:
  "checkpoint_ok x d \<Longrightarrow> l \<le> durable_lsn x d \<Longrightarrow>
     advance_checkpoint x (no_faults e) l d = Inr (durable_lsn x d, d)"
  by (auto simp: advance_checkpoint_def durable_lsn_eq dest: leD)

text \<open>(C5) Capture is atomic. Whatever statement of the transaction fails, wherever the process is
  killed and whatever a failed commit did, the durable spool afterwards is either the spool
  before or the one that the undisturbed transaction leaves, and then that transaction succeeds.\<close>

theorem persist_atomic:
  "fst (PersistCommittedBatch x h e b d) = d \<or>
   (\<exists>r. PersistCommittedBatch x no_hooks (no_faults e) b d = (fst (PersistCommittedBatch x h e b d), Ok r))"
proof (cases rule: PersistCommittedBatch_cases [of x h e b d])
  case aborted
  then show ?thesis by blast
next
  case (landed r d')
  then show ?thesis using reached_no_faults [OF landed(1)] by blast
qed

text \<open>(C17) Every outcome of capture (success, error, crash) leaves a spool that satisfies the invariant.\<close>

theorem persist_invariant:
  assumes "lsn_codec x" and "db_inv x d"
  shows "db_inv x (fst (PersistCommittedBatch x h e b d))"
  using sqlite_spool.persist_good [of x d "(h, e)" b] assms by (simp add: sqlite_persist_def)

theorem persist_invariant_witness:
  "db_inv example_externals (fst (PersistCommittedBatch example_externals no_hooks quiet_env example_batch example_db))"
  by (rule persist_invariant [OF example_externals_codec example_db_inv])

text \<open>(C6) When capture reports success, every event of the transaction is in the spool under its
  identity and digest, nothing that was there is lost or altered, every event is counted once as
  inserted or replayed, and the checkpoint is the larger of the old one and the transaction end.\<close>

theorem persist_success:
  assumes "lsn_codec x" and "db_inv x d" and "PersistCommittedBatch x h e b d = (d', Ok r)"
  shows "(\<forall>c \<in> set (cb_Events b). recorded d' c) \<and> grows d d' \<and>
    pr_Inserted r + pr_Replayed r = length (cb_Events b) \<and>
    durable_lsn x d' = max (durable_lsn x d) (cb_CommitEndLSN b) \<and> pr_DurableLSN r = durable_lsn x d'"
  using reached_correct [OF assms(2,1) PersistCommittedBatch_OkD [OF assms(3)]]
    reached_checkpoint [OF assms(2,1) PersistCommittedBatch_OkD [OF assms(3)]] by simp

theorem persist_success_witness:
  "recorded captured_db example_event \<and> durable_lsn example_externals captured_db = 120"
  using persist_success [OF example_externals_codec example_db_inv example_persist]
  by (auto simp: example_batch_def)

text \<open>(C7) Replay is idempotent. Capturing a well-formed transaction again, when its events are already
  in the spool and the checkpoint has passed its end, succeeds, changes nothing at all, and counts
  every event as replayed.\<close>

theorem persist_replay:
  assumes "db_inv x d" and "well_formed_batch x b" and "\<forall>c \<in> set (cb_Events b). recorded d c"
    and "cb_CommitEndLSN b \<le> durable_lsn x d"
  shows "PersistCommittedBatch x no_hooks (no_faults e) b d =
    (d, Ok \<lparr>pr_Inserted = 0, pr_Replayed = length (cb_Events b), pr_DurableLSN = durable_lsn x d\<rparr>)"
proof -
  have "\<not> cb_CommitEndLSN b < cb_CommitLSN b" and wf: "well_formed_events x b 0 (cb_Events b)"
    using assms(2) by (auto simp: well_formed_batch_def)
  moreover have "persist_events x no_hooks (no_faults e) b 0 (cb_Events b) (0, 0) d =
      Ok ((0, length (cb_Events b)), d)"
    using persist_events_replay [OF assms(1) wf assms(3), of "no_faults e" "(0, 0)"] by simp
  moreover have "advance_checkpoint x (no_faults e) (cb_CommitEndLSN b) d = Inr (durable_lsn x d, d)"
    using assms(1,4) by (intro advance_checkpoint_old) (auto dest: core_invD)
  ultimately show ?thesis by (simp add: persist_fault_free)
qed

theorem persist_replay_witness:
  "PersistCommittedBatch example_externals no_hooks (no_faults quiet_env) example_batch captured_db =
     (captured_db, Ok \<lparr>pr_Inserted = 0, pr_Replayed = 1, pr_DurableLSN = 120\<rparr>)"
proof -
  note r = PersistCommittedBatch_OkD [OF example_persist]
  have "durable_lsn example_externals captured_db = 120"
    using reached_checkpoint(2) [OF example_db_inv example_externals_codec r] by simp
  then show ?thesis
    using persist_replay [OF reached_correct(1) [OF example_db_inv example_externals_codec r]
        reached_well_formed [OF r] reached_correct(3) [OF example_db_inv example_externals_codec r], of quiet_env]
    by (simp add: example_batch_def)
qed

text \<open>(C8) An undisturbed capture of a well-formed transaction succeeds exactly when no identity is
  claimed by two digests; otherwise it is refused as an identity conflict and the spool is unchanged.\<close>

theorem persist_accepts:
  assumes "db_inv x d" and "well_formed_batch x b"
  shows "if conflict_free (cb_Events b) d
    then \<exists>d' r. PersistCommittedBatch x no_hooks (no_faults e) b d = (d', Ok r)
    else \<exists>s k. PersistCommittedBatch x no_hooks (no_faults e) b d = (d, Err (ErrIdentityConflict s k))"
proof -
  have lsn: "\<not> cb_CommitEndLSN b < cb_CommitLSN b" and wf: "well_formed_events x b 0 (cb_Events b)"
    using assms(2) by (auto simp: well_formed_batch_def)
  have step: "\<exists>r. advance_checkpoint x (no_faults e) (cb_CommitEndLSN b) d1 = Inr r"
    if "persist_events x no_hooks (no_faults e) b 0 (cb_Events b) (0, 0) d = Ok (n, d1)" for n d1
    using persist_events_Ok [OF assms(1) that] by (intro advance_checkpoint_total) (auto dest: core_invD)
  have loop: "if conflict_free (cb_Events b) d
    then \<exists>r. persist_events x no_hooks (no_faults e) b 0 (cb_Events b) (0, 0) d = Ok r
    else \<exists>s k. persist_events x no_hooks (no_faults e) b 0 (cb_Events b) (0, 0) d = Err (ErrIdentityConflict s k)"
    by (rule persist_events_fault_free [OF assms(1) wf]) simp
  show ?thesis
  proof (cases "conflict_free (cb_Events b) d")
    case True
    then obtain i r d1 where ok: "persist_events x no_hooks (no_faults e) b 0 (cb_Events b) (0, 0) d = Ok ((i, r), d1)"
      using loop by auto
    obtain l d2 where "advance_checkpoint x (no_faults e) (cb_CommitEndLSN b) d1 = Inr (l, d2)"
      using step [OF ok] by auto
    with True ok lsn show ?thesis by (simp add: persist_fault_free)
  next
    case False
    with loop lsn show ?thesis by (auto simp: persist_fault_free)
  qed
qed

theorem persist_accepts_witness:
  "\<exists>s k. PersistCommittedBatch example_externals no_hooks (no_faults quiet_env)
     (example_batch\<lparr>cb_Events := [example_event\<lparr>ce_Payload := ''[]'', ce_PayloadSHA256 := checksum ''[]''\<rparr>]\<rparr>)
     captured_db = (captured_db, Err (ErrIdentityConflict s k))"
proof -
  let ?b = "example_batch\<lparr>cb_Events := [example_event\<lparr>ce_Payload := ''[]'', ce_PayloadSHA256 := checksum ''[]''\<rparr>]\<rparr>"
  note r = PersistCommittedBatch_OkD [OF example_persist]
  have "recorded captured_db example_event"
    using reached_correct(3) [OF example_db_inv example_externals_codec r] by (simp add: example_batch_def)
  then have old: "((''urn:billing'', ''evt-1''), checksum ''{}'') \<in> stored_claims captured_db"
    by (simp add: recorded_claims example_event_def)
  moreover have "checksum ''{}'' \<noteq> checksum ''[]''" by code_simp
  ultimately have "\<not> conflict_free (cb_Events ?b) captured_db"
    by (auto simp: conflict_free_def batch_claims_def single_valued_def example_event_def)
  moreover have "well_formed_batch example_externals ?b" by code_simp
  ultimately show ?thesis
    using persist_accepts [OF reached_correct(1) [OF example_db_inv example_externals_codec r], of ?b quiet_env]
    by simp
qed

end
