(* ===== verification/Pg_State.thy ===== *)
theory Pg_State
  imports Event_Validation Store_Capture
begin

text \<open>
  The pgoutput state machine of \<open>internal/postgres/state.go\<close>: it buffers the protected messages
  of the open transaction and hands out a batch at its commit. The third-party wire decoder is
  outside; its messages are values.
\<close>

section \<open>Definitions\<close>

datatype capture_error =
    ErrProtocolState string
  | ErrProtectedEvent string
  | ErrTransactionLimit string
  | ErrSlotMismatch string
  | ErrUnsupportedVersion string
  | ErrSpool store_error
  | ErrPaused
  | ErrContext
  | ErrTransport string

record LogicalDecodingMessage =
  ld_LSN :: lsn
  ld_Transactional :: bool
  ld_Prefix :: string
  ld_Content :: bytes

record CommitMessage =
  cm_CommitLSN :: lsn
  cm_TransactionEndLSN :: lsn
  cm_CommitTime :: time

text \<open>A table change is what a publication that is no longer empty would add.\<close>

datatype pg_message =
    PgBegin xid
  | PgLogical LogicalDecodingMessage
  | PgCommit CommitMessage
  | PgTableChange string
  | PgOther string

record StateMachine =
  sm_prefix :: string
  sm_maxEventBytes :: int
  sm_maxEvents :: int
  sm_maxBytes :: int
  sm_inTransaction :: bool
  sm_transactionID :: xid
  sm_events :: "CapturedEvent list"
  sm_bufferedBytes :: int

definition NewStateMachine :: "string \<Rightarrow> int \<Rightarrow> int \<Rightarrow> int \<Rightarrow> StateMachine" where
  "NewStateMachine prefix maxEventBytes maxEvents maxBytes =
     \<lparr>sm_prefix = prefix, sm_maxEventBytes = maxEventBytes, sm_maxEvents = maxEvents, sm_maxBytes = maxBytes,
      sm_inTransaction = False, sm_transactionID = 0, sm_events = [], sm_bufferedBytes = 0\<rparr>"

definition Reset :: "StateMachine \<Rightarrow> StateMachine" where
  "Reset s = s\<lparr>sm_inTransaction := False, sm_transactionID := 0, sm_events := [], sm_bufferedBytes := 0\<rparr>"

text \<open>The buffered form of a message: the fields the commit supplies are still zero.\<close>

definition buffered_event :: "externals \<Rightarrow> Metadata \<Rightarrow> LogicalDecodingMessage \<Rightarrow> CapturedEvent" where
  "buffered_event x m message =
     \<lparr>ce_Source = md_Source m, ce_ID = md_ID m, ce_Type = md_Type m, ce_Subject = md_Subject m,
      ce_Payload = ld_Content message, ce_PayloadSHA256 = Sum256 x (ld_Content message),
      ce_TransactionID = 0, ce_MessageLSN = ld_LSN message, ce_CommitLSN = 0, ce_CommitEndLSN = 0,
      ce_CommitTime = zero_time, ce_MessageIndex = 0\<rparr>"

definition consumeLogicalMessage ::
    "externals \<Rightarrow> (string \<Rightarrow> time option) \<Rightarrow> LogicalDecodingMessage \<Rightarrow> StateMachine \<Rightarrow> capture_error + StateMachine" where
  "consumeLogicalMessage x parseTime message s =
     (if ld_Prefix message \<noteq> sm_prefix s then Inr s
      else if \<not> ld_Transactional message then Inl (ErrProtectedEvent ''prefix was used by a non-transactional message'')
      else if \<not> sm_inTransaction s then Inl (ErrProtocolState ''protected transactional message outside Begin/Commit'')
      else if int (length (sm_events s)) \<ge> sm_maxEvents s then Inl (ErrTransactionLimit ''accepted events'')
      else if int (length (ld_Content message)) > sm_maxBytes s - sm_bufferedBytes s
        then Inl (ErrTransactionLimit ''accepted event bytes'')
      else (case Validate parseTime (ld_Content message) (sm_maxEventBytes s) of
              Inl _ \<Rightarrow> Inl (ErrProtectedEvent ''invalid envelope'')
            | Inr m \<Rightarrow> Inr (s\<lparr>sm_events := sm_events s @ [buffered_event x m message],
                              sm_bufferedBytes := sm_bufferedBytes s + int (length (ld_Content message))\<rparr>)))"

definition stamp :: "xid \<Rightarrow> CommitMessage \<Rightarrow> nat \<Rightarrow> CapturedEvent \<Rightarrow> CapturedEvent" where
  "stamp t c index e =
     e\<lparr>ce_TransactionID := t, ce_CommitLSN := cm_CommitLSN c, ce_CommitEndLSN := cm_TransactionEndLSN c,
       ce_CommitTime := cm_CommitTime c, ce_MessageIndex := int index\<rparr>"

definition commit_batch :: "CommitMessage \<Rightarrow> StateMachine \<Rightarrow> CommittedBatch" where
  "commit_batch c s =
     \<lparr>cb_TransactionID = sm_transactionID s, cb_CommitLSN = cm_CommitLSN c,
      cb_CommitEndLSN = cm_TransactionEndLSN c, cb_CommitTime = cm_CommitTime c,
      cb_Events = map (\<lambda>(i, e). stamp (sm_transactionID s) c i e) (enumerate 0 (sm_events s))\<rparr>"

text \<open>A message that is refused leaves the machine as it was.\<close>

definition Consume ::
    "externals \<Rightarrow> (string \<Rightarrow> time option) \<Rightarrow> pg_message \<Rightarrow> StateMachine \<Rightarrow>
     StateMachine \<times> (capture_error + CommittedBatch option)" where
  "Consume x parseTime message s =
     (case message of
        PgBegin t \<Rightarrow>
          if sm_inTransaction s then (s, Inl (ErrProtocolState ''nested Begin''))
          else (s\<lparr>sm_inTransaction := True, sm_transactionID := t, sm_events := [], sm_bufferedBytes := 0\<rparr>, Inr None)
      | PgLogical m \<Rightarrow>
          (case consumeLogicalMessage x parseTime m s of
             Inl err \<Rightarrow> (s, Inl err)
           | Inr s' \<Rightarrow> (s', Inr None))
      | PgCommit c \<Rightarrow>
          if \<not> sm_inTransaction s then (s, Inl (ErrProtocolState ''Commit without Begin''))
          else (Reset s, Inr (Some (commit_batch c s)))
      | PgTableChange _ \<Rightarrow> (s, Inr None)
      | PgOther _ \<Rightarrow> (s, Inr None))"

section \<open>Invariant\<close>

definition limits :: "StateMachine \<Rightarrow> string \<times> int \<times> int \<times> int" where
  "limits s = (sm_prefix s, sm_maxEventBytes s, sm_maxEvents s, sm_maxBytes s)"

definition event_ok :: "externals \<Rightarrow> int \<Rightarrow> CapturedEvent \<Rightarrow> bool" where
  "event_ok x maxEventBytes e \<longleftrightarrow> ce_Source e \<noteq> [] \<and> ce_ID e \<noteq> [] \<and> ce_Type e \<noteq> [] \<and>
     ce_PayloadSHA256 e = Sum256 x (ce_Payload e) \<and> int (length (ce_Payload e)) \<le> maxEventBytes"

definition payload_bytes :: "CapturedEvent list \<Rightarrow> nat" where
  "payload_bytes es = (\<Sum>e \<leftarrow> es. length (ce_Payload e))"

definition machine_inv :: "externals \<Rightarrow> StateMachine \<Rightarrow> bool" where
  "machine_inv x s \<longleftrightarrow> (\<forall>e \<in> set (sm_events s). event_ok x (sm_maxEventBytes s) e) \<and>
     sm_bufferedBytes s = int (payload_bytes (sm_events s)) \<and>
     (sm_events s \<noteq> [] \<longrightarrow> sm_inTransaction s \<and> int (length (sm_events s)) \<le> sm_maxEvents s \<and>
        sm_bufferedBytes s \<le> sm_maxBytes s)"

lemma payload_bytes_simps [simp]:
  "payload_bytes [] = 0" "payload_bytes (es @ [e]) = payload_bytes es + length (ce_Payload e)"
  by (simp_all add: payload_bytes_def)

lemma machine_inv_fresh [simp]:
  "machine_inv x (Reset s)" "machine_inv x (NewStateMachine p a b c)"
  by (simp_all add: machine_inv_def Reset_def NewStateMachine_def)

lemma limits_Reset [simp]: "limits (Reset s) = limits s"
  by (simp add: limits_def Reset_def)

lemma buffered_event_ok:
  "Validate parseTime (ld_Content message) k = Inr m \<Longrightarrow> event_ok x k (buffered_event x m message)"
  using Validate_fields by (simp add: event_ok_def buffered_event_def)

lemma consumeLogicalMessage_inv:
  assumes "machine_inv x s" and "consumeLogicalMessage x parseTime m s = Inr s'"
  shows "machine_inv x s'" "limits s' = limits s"
  using assms buffered_event_ok
  by (auto simp: consumeLogicalMessage_def machine_inv_def limits_def buffered_event_def split: if_splits sum.splits)

lemma Consume_inv: "machine_inv x s \<Longrightarrow> machine_inv x (fst (Consume x parseTime message s))"
  by (auto simp: Consume_def machine_inv_def [of x "_\<lparr>sm_bufferedBytes := _\<rparr>"] dest: consumeLogicalMessage_inv
      split: pg_message.splits sum.splits)

lemma Consume_limits: "machine_inv x s \<Longrightarrow> limits (fst (Consume x parseTime message s)) = limits s"
  by (auto simp: Consume_def limits_def [of "_\<lparr>sm_bufferedBytes := _\<rparr>"] dest: consumeLogicalMessage_inv
      split: pg_message.splits sum.splits) (simp_all add: limits_def)

lemma Consume_Some:
  "Consume x parseTime message s = (s', Inr (Some b)) \<Longrightarrow>
     \<exists>c. message = PgCommit c \<and> sm_inTransaction s \<and> b = commit_batch c s \<and> s' = Reset s"
  by (auto simp: Consume_def split: pg_message.splits if_splits sum.splits)

lemma commit_batch_simps [simp]:
  "cb_CommitEndLSN (commit_batch c s) = cm_TransactionEndLSN c" "cb_CommitLSN (commit_batch c s) = cm_CommitLSN c"
  "cb_TransactionID (commit_batch c s) = sm_transactionID s" "length (cb_Events (commit_batch c s)) = length (sm_events s)"
  by (simp_all add: commit_batch_def)

lemma commit_batch_nth:
  "i < length (sm_events s) \<Longrightarrow> cb_Events (commit_batch c s) ! i = stamp (sm_transactionID s) c i (sm_events s ! i)"
  by (simp add: commit_batch_def nth_enumerate_eq)

lemma commit_batch_well_formed:
  assumes "machine_inv x s" and "cm_CommitLSN c \<le> cm_TransactionEndLSN c"
  shows "well_formed_batch x (commit_batch c s)"
proof -
  have "validateCapturedEvent x (commit_batch c s) (stamp (sm_transactionID s) c i (sm_events s ! i)) i = None"
    if "i < length (sm_events s)" for i
  proof -
    have "event_ok x (sm_maxEventBytes s) (sm_events s ! i)" using assms(1) that by (simp add: machine_inv_def)
    then show ?thesis
      by (simp add: validateCapturedEvent_def stamp_def commit_batch_def event_ok_def)
  qed
  then show ?thesis
    using assms(2) by (simp add: well_formed_batch_def well_formed_events_def commit_batch_nth)
qed

text \<open>The machine keeps its invariant on every message: buffered events are valid, carry the
  digest of their payload, are within the three limits and belong to an open transaction; and
  the byte counter is the sum of the buffered payloads.\<close>

theorem Consume_invariant:
  assumes "machine_inv x s"
  shows "machine_inv x (fst (Consume x parseTime message s)) \<and> limits (fst (Consume x parseTime message s)) = limits s"
  using Consume_inv [OF assms] Consume_limits [OF assms] by blast

text \<open>Every batch the machine hands out passes the checks that the spool makes before it stores
  anything, so that capture never stops on a batch of its own making.\<close>

theorem Consume_batch_accepted:
  assumes "machine_inv x s" and "Consume x parseTime (PgCommit c) s = (s', Inr (Some b))"
    and "cm_CommitLSN c \<le> cm_TransactionEndLSN c"
  shows "well_formed_batch x b \<and> cb_TransactionID b = sm_transactionID s \<and> cb_CommitEndLSN b = cm_TransactionEndLSN c \<and>
    int (length (cb_Events b)) \<le> max 0 (sm_maxEvents s) \<and> sm_events s' = [] \<and> \<not> sm_inTransaction s'"
proof -
  have b: "b = commit_batch c s" "s' = Reset s" using Consume_Some [OF assms(2)] by auto
  then have "well_formed_batch x b" using commit_batch_well_formed [OF assms(1,3)] by simp
  moreover have "int (length (sm_events s)) \<le> max 0 (sm_maxEvents s)"
    using assms(1) by (cases "sm_events s = []") (auto simp: machine_inv_def)
  ultimately show ?thesis by (simp add: b Reset_def)
qed
section \<open>Sequences of messages\<close>

text \<open>The batches handed out for a sequence of messages, up to the first error.\<close>

fun consume_all ::
    "externals \<Rightarrow> (string \<Rightarrow> time option) \<Rightarrow> pg_message list \<Rightarrow> StateMachine \<Rightarrow>
     StateMachine \<times> CommittedBatch list \<times> capture_error option" where
  "consume_all x parseTime [] s = (s, [], None)"
| "consume_all x parseTime (m # ms) s =
     (case Consume x parseTime m s of
        (s', Inl err) \<Rightarrow> (s', [], Some err)
      | (s', Inr b) \<Rightarrow>
          (case consume_all x parseTime ms s' of
             (s'', bs, e) \<Rightarrow> (s'', (case b of None \<Rightarrow> bs | Some batch \<Rightarrow> batch # bs), e)))"

text \<open>The events a transaction should yield, written down without a machine: the protected
  messages in their order, refused as soon as one is not transactional or not valid.\<close>

fun protected_events ::
    "externals \<Rightarrow> (string \<Rightarrow> time option) \<Rightarrow> string \<Rightarrow> int \<Rightarrow> pg_message list \<Rightarrow> CapturedEvent list option" where
  "protected_events x parseTime prefix k [] = Some []"
| "protected_events x parseTime prefix k (PgLogical m # ms) =
     (if ld_Prefix m \<noteq> prefix then protected_events x parseTime prefix k ms
      else if \<not> ld_Transactional m then None
      else (case Validate parseTime (ld_Content m) k of
              Inl _ \<Rightarrow> None
            | Inr meta \<Rightarrow> map_option ((#) (buffered_event x meta m)) (protected_events x parseTime prefix k ms)))"
| "protected_events x parseTime prefix k (_ # ms) = protected_events x parseTime prefix k ms"

definition inner_message :: "pg_message \<Rightarrow> bool" where
  "inner_message m \<longleftrightarrow> (case m of PgBegin _ \<Rightarrow> False | PgCommit _ \<Rightarrow> False | _ \<Rightarrow> True)"

definition within_limits :: "StateMachine \<Rightarrow> CapturedEvent list \<Rightarrow> bool" where
  "within_limits s es \<longleftrightarrow> (es \<noteq> [] \<longrightarrow> int (length (sm_events s @ es)) \<le> sm_maxEvents s \<and>
     sm_bufferedBytes s + int (payload_bytes es) \<le> sm_maxBytes s)"

definition buffer_events :: "CapturedEvent list \<Rightarrow> StateMachine \<Rightarrow> StateMachine" where
  "buffer_events es s =
     s\<lparr>sm_events := sm_events s @ es, sm_bufferedBytes := sm_bufferedBytes s + int (payload_bytes es)\<rparr>"

lemma payload_bytes_Cons [simp]: "payload_bytes (e # es) = length (ce_Payload e) + payload_bytes es"
  by (simp add: payload_bytes_def)

lemma buffered_payload [simp]: "ce_Payload (buffered_event x meta m) = ld_Content m"
  by (simp add: buffered_event_def)

lemma buffer_events_simps [simp]:
  "buffer_events [] s = s" "sm_inTransaction (buffer_events es s) = sm_inTransaction s"
  "sm_prefix (buffer_events es s) = sm_prefix s" "sm_maxEventBytes (buffer_events es s) = sm_maxEventBytes s"
  "sm_transactionID (buffer_events es s) = sm_transactionID s" "sm_events (buffer_events es s) = sm_events s @ es"
  "Reset (buffer_events es s) = Reset s"
  "buffer_events fs (buffer_events es s) = buffer_events (es @ fs) s"
  by (simp_all add: buffer_events_def Reset_def payload_bytes_def)

lemma within_limits_Nil [simp]: "within_limits s []"
  by (simp add: within_limits_def)

lemma within_limits_Cons:
  "within_limits s (e # es) \<longleftrightarrow> int (length (sm_events s)) < sm_maxEvents s \<and>
     sm_bufferedBytes s + int (length (ce_Payload e)) \<le> sm_maxBytes s \<and> within_limits (buffer_events [e] s) es"
  by (auto simp: within_limits_def buffer_events_def payload_bytes_def)

lemma Consume_protected:
  assumes "sm_inTransaction s" and "ld_Prefix m = sm_prefix s"
  shows "Consume x parseTime (PgLogical m) s =
    (case Validate parseTime (ld_Content m) (sm_maxEventBytes s) of
       Inr meta \<Rightarrow>
         if ld_Transactional m \<and> within_limits s [buffered_event x meta m]
         then (buffer_events [buffered_event x meta m] s, Inr None)
         else (s, snd (Consume x parseTime (PgLogical m) s))
     | Inl _ \<Rightarrow> (s, snd (Consume x parseTime (PgLogical m) s)))"
  using assms
  by (auto simp: Consume_def consumeLogicalMessage_def within_limits_def buffer_events_def split: sum.split)

lemma Consume_protected_error:
  assumes "sm_inTransaction s" and "ld_Prefix m = sm_prefix s"
    and "\<not> (\<exists>meta. Validate parseTime (ld_Content m) (sm_maxEventBytes s) = Inr meta \<and> ld_Transactional m \<and>
      within_limits s [buffered_event x meta m])"
  shows "\<exists>err. Consume x parseTime (PgLogical m) s = (s, Inl err)"
  using assms
  by (auto simp: Consume_def consumeLogicalMessage_def within_limits_def split: sum.split)

lemma consume_inner:
  assumes "sm_inTransaction s" and "list_all inner_message ms"
  shows "case protected_events x parseTime (sm_prefix s) (sm_maxEventBytes s) ms of
      Some es \<Rightarrow> if within_limits s es then consume_all x parseTime (ms @ rest) s = consume_all x parseTime rest (buffer_events es s)
        else \<exists>s' err. consume_all x parseTime (ms @ rest) s = (s', [], Some err)
    | None \<Rightarrow> \<exists>s' err. consume_all x parseTime (ms @ rest) s = (s', [], Some err)"
  using assms
proof (induction ms arbitrary: s)
  case (Cons m ms)
  note inner = Cons.prems(2)
  show ?case
  proof (cases "\<exists>l. m = PgLogical l \<and> ld_Prefix l = sm_prefix s")
    case False
    then have "Consume x parseTime m s = (s, Inr None)"
      "protected_events x parseTime p k (m # ms) = protected_events x parseTime p k ms" if "p = sm_prefix s" for p k
      using inner that by (auto simp: Consume_def consumeLogicalMessage_def inner_message_def split: pg_message.splits)
    moreover have "case protected_events x parseTime (sm_prefix s) (sm_maxEventBytes s) ms of
      Some es \<Rightarrow> if within_limits s es then consume_all x parseTime (ms @ rest) s = consume_all x parseTime rest (buffer_events es s)
        else \<exists>s' err. consume_all x parseTime (ms @ rest) s = (s', [], Some err)
    | None \<Rightarrow> \<exists>s' err. consume_all x parseTime (ms @ rest) s = (s', [], Some err)"
      using Cons.IH [OF Cons.prems(1)] inner by simp
    ultimately show ?thesis by (simp split: prod.splits option.splits if_splits)
  next
    case True
    then obtain l where m: "m = PgLogical l" "ld_Prefix l = sm_prefix s" by blast
    show ?thesis
    proof (cases "\<exists>meta. Validate parseTime (ld_Content l) (sm_maxEventBytes s) = Inr meta \<and> ld_Transactional l \<and>
        within_limits s [buffered_event x meta l]")
      case True
      then obtain meta where v: "Validate parseTime (ld_Content l) (sm_maxEventBytes s) = Inr meta" "ld_Transactional l"
        and w: "within_limits s [buffered_event x meta l]" by blast
      let ?e = "buffered_event x meta l"
      have step: "Consume x parseTime m s = (buffer_events [?e] s, Inr None)"
        using Consume_protected [OF Cons.prems(1) m(2), of x parseTime] v w m(1) by simp
      have lim: "within_limits s (?e # es) \<longleftrightarrow> within_limits (buffer_events [?e] s) es" for es
        using w by (simp add: within_limits_Cons)
      have "case protected_events x parseTime (sm_prefix s) (sm_maxEventBytes s) ms of
          Some es \<Rightarrow> if within_limits (buffer_events [?e] s) es
            then consume_all x parseTime (ms @ rest) (buffer_events [?e] s) = consume_all x parseTime rest (buffer_events (?e # es) s)
            else \<exists>s' err. consume_all x parseTime (ms @ rest) (buffer_events [?e] s) = (s', [], Some err)
        | None \<Rightarrow> \<exists>s' err. consume_all x parseTime (ms @ rest) (buffer_events [?e] s) = (s', [], Some err)"
        using Cons.IH [of "buffer_events [?e] s"] Cons.prems by (simp split: option.splits)
      then show ?thesis
        using step v m by (auto simp: lim split: option.splits prod.splits)
    next
      case False
      then obtain err where "Consume x parseTime m s = (s, Inl err)"
        using Consume_protected_error [OF Cons.prems(1) m(2)] m(1) by blast
      moreover have "\<not> within_limits s (buffered_event x meta l # es)"
        if "Validate parseTime (ld_Content l) (sm_maxEventBytes s) = Inr meta" "ld_Transactional l" for meta es
        using False that by (auto simp: within_limits_Cons)
      ultimately show ?thesis using m by (auto split: option.splits sum.splits)
    qed
  qed
qed simp

definition transaction_batch :: "xid \<Rightarrow> CommitMessage \<Rightarrow> CapturedEvent list \<Rightarrow> CommittedBatch" where
  "transaction_batch t c es =
     \<lparr>cb_TransactionID = t, cb_CommitLSN = cm_CommitLSN c, cb_CommitEndLSN = cm_TransactionEndLSN c,
      cb_CommitTime = cm_CommitTime c, cb_Events = map (\<lambda>(i, e). stamp t c i e) (enumerate 0 es)\<rparr>"

text \<open>(C9) A transaction yields exactly one batch, with its protected messages in order and nothing
  else, when they are all transactional, valid and within the limits; otherwise it yields an
  error and no batch at all. Messages with other prefixes and table changes have no effect.\<close>

theorem transaction_captured:
  assumes "\<not> sm_inTransaction s" and "list_all inner_message ms"
  shows "case protected_events x parseTime (sm_prefix s) (sm_maxEventBytes s) ms of
      Some es \<Rightarrow>
        if es = [] \<or> int (length es) \<le> sm_maxEvents s \<and> int (payload_bytes es) \<le> sm_maxBytes s
        then consume_all x parseTime (PgBegin t # ms @ [PgCommit c]) s = (Reset s, [transaction_batch t c es], None)
        else \<exists>s' err. consume_all x parseTime (PgBegin t # ms @ [PgCommit c]) s = (s', [], Some err)
    | None \<Rightarrow> \<exists>s' err. consume_all x parseTime (PgBegin t # ms @ [PgCommit c]) s = (s', [], Some err)"
proof -
  let ?s = "s\<lparr>sm_inTransaction := True, sm_transactionID := t, sm_events := [], sm_bufferedBytes := 0\<rparr>"
  have start: "consume_all x parseTime (PgBegin t # ms @ [PgCommit c]) s = consume_all x parseTime (ms @ [PgCommit c]) ?s"
    using assms(1) by (simp add: Consume_def split: prod.splits)
  have lim: "within_limits ?s es \<longleftrightarrow> es = [] \<or> int (length es) \<le> sm_maxEvents s \<and> int (payload_bytes es) \<le> sm_maxBytes s" for es
    by (auto simp: within_limits_def)
  have commit: "consume_all x parseTime [PgCommit c] (buffer_events es ?s) = (Reset s, [transaction_batch t c es], None)" for es
    by (simp add: Consume_def commit_batch_def transaction_batch_def) (simp add: Reset_def)
  show ?thesis
    unfolding start
    using consume_inner [of ?s ms x parseTime "[PgCommit c]"] assms(2)
    using commit [of "[]"]
    by (auto simp: lim commit simp del: consume_all.simps split: option.splits if_splits)
qed
section \<open>A concrete transaction\<close>

definition example_machine :: StateMachine where
  "example_machine = NewStateMachine ''writerelay.v1'' 262144 10000 8388608"

definition example_message :: LogicalDecodingMessage where
  "example_message = \<lparr>ld_LSN = 90, ld_Transactional = True, ld_Prefix = ''writerelay.v1'', ld_Content = example_payload\<rparr>"

definition example_commit :: CommitMessage where
  "example_commit = \<lparr>cm_CommitLSN = 100, cm_TransactionEndLSN = 120, cm_CommitTime = 5\<rparr>"

definition example_meta :: Metadata where
  "example_meta = \<lparr>md_SpecVersion = ''1.0'', md_ID = ''evt-1'', md_Source = ''urn:billing'', md_Type = ''order.paid'',
     md_Subject = [], md_Time = None, md_DataContentType = []\<rparr>"

lemma example_message_valid:
  "Validate (\<lambda>_. None) (ld_Content example_message) (sm_maxEventBytes example_machine) = Inr example_meta"
  using example_payload_valid
  by (simp add: example_message_def example_machine_def NewStateMachine_def example_meta_def)

theorem Consume_invariant_witness:
  "machine_inv example_externals (fst (Consume example_externals (\<lambda>_. None) (PgBegin 77) example_machine))"
  using Consume_invariant [of example_externals example_machine "\<lambda>_. None" "PgBegin 77"]
  by (simp add: example_machine_def)

lemma example_open:
  "consume_all example_externals (\<lambda>_. None) [PgBegin 77, PgLogical example_message] example_machine =
     (buffer_events [buffered_event example_externals example_meta example_message]
        (example_machine\<lparr>sm_inTransaction := True, sm_transactionID := 77\<rparr>), [], None)"
proof -
  have "length example_payload \<le> 100" by code_simp
  then show ?thesis
    using example_message_valid
    by (simp add: Consume_def consumeLogicalMessage_def buffer_events_def)
       (simp add: example_machine_def NewStateMachine_def example_message_def)
qed

theorem Consume_batch_accepted_witness:
  "well_formed_batch example_externals (commit_batch example_commit
     (buffer_events [buffered_event example_externals example_meta example_message]
        (example_machine\<lparr>sm_inTransaction := True, sm_transactionID := 77\<rparr>)))"
  (is "well_formed_batch _ (commit_batch _ ?s)")
proof -
  have "event_ok example_externals 262144 (buffered_event example_externals example_meta example_message)"
    using buffered_event_ok [OF example_message_valid] by (simp add: example_machine_def NewStateMachine_def)
  moreover have "length example_payload \<le> 100" by code_simp
  ultimately have inv: "machine_inv example_externals ?s"
    by (simp add: machine_inv_def example_machine_def NewStateMachine_def buffer_events_def example_message_def)
  have "Consume example_externals (\<lambda>_. None) (PgCommit example_commit) ?s = (Reset ?s, Inr (Some (commit_batch example_commit ?s)))"
    by (simp add: Consume_def)
  from Consume_batch_accepted [OF inv this] show ?thesis by (simp add: example_commit_def)
qed

theorem transaction_captured_witness:
  "consume_all example_externals (\<lambda>_. None)
     (PgBegin 77 # [PgTableChange ''Insert'', PgLogical example_message] @ [PgCommit example_commit]) example_machine =
   (Reset example_machine,
    [transaction_batch 77 example_commit [buffered_event example_externals example_meta example_message]], None)"
proof -
  have "length example_payload \<le> 100" by code_simp
  then show ?thesis
    using transaction_captured [of example_machine "[PgTableChange ''Insert'', PgLogical example_message]" example_externals "\<lambda>_. None" 77 example_commit]
      example_message_valid
    by (simp add: inner_message_def example_machine_def NewStateMachine_def example_message_def)
qed

end
