(* ===== verification/Pg_Setup.thy ===== *)
theory Pg_Setup
  imports Relay_Config Pg_State
begin

text \<open>
  Setup and diagnosis of the PostgreSQL side, \<open>internal/postgres/setup.go\<close> and \<open>doctor.go\<close>. What
  the server's catalogs hold is a value; what a statement that fails does is an argument.
\<close>

section \<open>The server\<close>

record slot_row =
  sl_plugin :: string
  sl_database :: string
  sl_active :: bool
  sl_confirmed_flush_lsn :: "string option"
  sl_restart_lsn :: "string option"

text \<open>Publications map their name to the number of tables they publish.\<close>

record pg_server =
  sv_database :: string
  sv_version :: int
  sv_emit_installed :: bool
  sv_publications :: "string \<Rightarrow> nat option"
  sv_slots :: "string \<Rightarrow> slot_row option"

record SlotInfo =
  si_Name :: string
  si_Plugin :: string
  si_Database :: string
  si_Active :: bool
  si_ConfirmedFlushLSN :: lsn
  si_RestartLSN :: lsn
  si_Exists :: bool

record SetupResult =
  su_InstalledFunction :: bool
  su_CreatedPublication :: bool
  su_CreatedSlot :: bool

datatype conn_err = PgError string string | OtherError string

definition safePGError :: "conn_err \<Rightarrow> string" where
  "safePGError err =
     (case err of
        PgError message sqlstate \<Rightarrow> message @ '' (SQLSTATE '' @ sqlstate @ '')''
      | OtherError _ \<Rightarrow> ''connection unavailable (details redacted)'')"

definition redactConnectionError :: "conn_err \<Rightarrow> capture_error" where
  "redactConnectionError err = ErrTransport (''PostgreSQL connection failed: '' @ safePGError err)"

text \<open>A replication connection: the configuration may not parse, or the connection fail.\<close>

datatype replication_connect = ReplConnected | ReplParseFailed | ReplConnectFailed conn_err

definition connectReplication :: "replication_connect \<Rightarrow> capture_error option" where
  "connectReplication c =
     (case c of
        ReplConnected \<Rightarrow> None
      | ReplParseFailed \<Rightarrow> Some (ErrTransport ''parse PostgreSQL connection configuration'')
      | ReplConnectFailed err \<Rightarrow> Some (redactConnectionError err))"

definition no_slot :: SlotInfo where
  "no_slot = \<lparr>si_Name = [], si_Plugin = [], si_Database = [], si_Active = False,
     si_ConfirmedFlushLSN = 0, si_RestartLSN = 0, si_Exists = False\<rparr>"

definition parse_slot_lsn :: "externals \<Rightarrow> string \<Rightarrow> string option \<Rightarrow> capture_error + lsn" where
  "parse_slot_lsn x column t =
     (case t of
        None \<Rightarrow> Inr 0
      | Some s \<Rightarrow>
          (case ParseLSN x s of
             None \<Rightarrow> Inl (ErrTransport (''parse slot '' @ column))
           | Some l \<Rightarrow> Inr l))"

definition readSlot :: "externals \<Rightarrow> bool \<Rightarrow> string \<Rightarrow> pg_server \<Rightarrow> capture_error + SlotInfo" where
  "readSlot x fails name server =
     (if fails then Inl (ErrTransport ''inspect replication slot'')
      else (case sv_slots server name of
              None \<Rightarrow> Inr no_slot
            | Some row \<Rightarrow>
                (case parse_slot_lsn x ''confirmed_flush_lsn'' (sl_confirmed_flush_lsn row) of
                   Inl e \<Rightarrow> Inl e
                 | Inr confirmed \<Rightarrow>
                     (case parse_slot_lsn x ''restart_lsn'' (sl_restart_lsn row) of
                        Inl e \<Rightarrow> Inl e
                      | Inr restart \<Rightarrow>
                          Inr \<lparr>si_Name = name, si_Plugin = sl_plugin row, si_Database = sl_database row,
                               si_Active = sl_active row, si_ConfirmedFlushLSN = confirmed,
                               si_RestartLSN = restart, si_Exists = True\<rparr>))))"

definition validateSlot :: "SlotInfo \<Rightarrow> string \<Rightarrow> capture_error option" where
  "validateSlot slot database =
     (if si_Plugin slot \<noteq> ''pgoutput'' then Some (ErrSlotMismatch ''plugin'')
      else if si_Database slot \<noteq> database then Some (ErrSlotMismatch ''database'')
      else if si_Active slot then Some (ErrSlotMismatch ''active in another session'')
      else None)"

definition validateServerVersion :: "int \<Rightarrow> capture_error option" where
  "validateServerVersion version =
     (if version < 140000 \<or> version \<ge> 190000 then Some (ErrUnsupportedVersion (Itoa version)) else None)"

section \<open>Setup\<close>

datatype read_point =
    Connect
  | ReadVersion
  | InspectFunction
  | InspectPublication
  | InspectPublicationTables
  | ReadSlot
  | CloseConnection

datatype write_fault = WriteOk | WriteLost | WriteLanded

record setup_env =
  se_fails :: "read_point \<Rightarrow> bool"
  se_connect_error :: conn_err
  se_install :: write_fault
  se_publish :: write_fault
  se_replication :: replication_connect
  se_create_slot :: write_fault
  se_slot_lsn :: string

definition writes :: "write_fault \<Rightarrow> (pg_server \<Rightarrow> pg_server) \<Rightarrow> pg_server \<Rightarrow> pg_server \<times> bool" where
  "writes fault f server = (case fault of
     WriteOk \<Rightarrow> (f server, True) | WriteLost \<Rightarrow> (server, False) | WriteLanded \<Rightarrow> (f server, False))"

definition install_emit :: "pg_server \<Rightarrow> pg_server" where
  "install_emit server = server\<lparr>sv_emit_installed := True\<rparr>"

definition create_publication :: "string \<Rightarrow> pg_server \<Rightarrow> pg_server" where
  "create_publication name server = server\<lparr>sv_publications := (sv_publications server)(name \<mapsto> 0)\<rparr>"

definition new_slot :: "string \<Rightarrow> string \<Rightarrow> pg_server \<Rightarrow> pg_server" where
  "new_slot name lsn_text server =
     server\<lparr>sv_slots := (sv_slots server)(name \<mapsto>
       \<lparr>sl_plugin = ''pgoutput'', sl_database = sv_database server, sl_active = False,
        sl_confirmed_flush_lsn = Some lsn_text, sl_restart_lsn = Some lsn_text\<rparr>)\<rparr>"

definition createReplicationSlot :: "setup_env \<Rightarrow> string \<Rightarrow> pg_server \<Rightarrow> pg_server \<times> capture_error option" where
  "createReplicationSlot e slot server =
     (case connectReplication (se_replication e) of
        Some err \<Rightarrow> (server, Some err)
      | None \<Rightarrow>
          (case writes (se_create_slot e) (new_slot slot (se_slot_lsn e)) server of
             (server', ok) \<Rightarrow> (server', if ok then None else Some (ErrTransport ''create pgoutput replication slot''))))"

text \<open>The read-only part: the slot, and whether function and publication exist.\<close>

definition setup_preflight ::
    "externals \<Rightarrow> setup_env \<Rightarrow> Config \<Rightarrow> bool \<Rightarrow> pg_server \<Rightarrow> capture_error + SlotInfo" where
  "setup_preflight x e cfg createSlot server =
     (let publication = pg_Publication (cfg_Postgres cfg); slot_name = pg_Slot (cfg_Postgres cfg) in
      if se_fails e Connect then Inl (redactConnectionError (se_connect_error e))
      else if se_fails e ReadVersion then Inl (ErrTransport ''read current database/version'')
      else (case validateServerVersion (sv_version server) of
              Some err \<Rightarrow> Inl err
            | None \<Rightarrow>
                if se_fails e InspectFunction then Inl (ErrTransport ''inspect emit function'')
                else if se_fails e InspectPublication then Inl (ErrTransport ''inspect publication'')
                else if sv_publications server publication \<noteq> None \<and> se_fails e InspectPublicationTables
                  then Inl (ErrTransport ''inspect publication tables'')
                else if sv_publications server publication \<noteq> None \<and> sv_publications server publication \<noteq> Some 0
                  then Inl (ErrSlotMismatch ''publication contains tables, expected empty'')
                else (case readSlot x (se_fails e ReadSlot) slot_name server of
                        Inl err \<Rightarrow> Inl err
                      | Inr slot \<Rightarrow>
                          if si_Exists slot then
                            (case validateSlot slot (sv_database server) of Some err \<Rightarrow> Inl err | None \<Rightarrow> Inr slot)
                          else if \<not> createSlot then
                            Inl (ErrTransport ''replication slot is missing; rerun setup with --create-slot'')
                          else Inr slot)))"

definition setup_mutations ::
    "setup_env \<Rightarrow> Config \<Rightarrow> SlotInfo \<Rightarrow> pg_server \<Rightarrow> pg_server \<times> SetupResult \<times> capture_error option" where
  "setup_mutations e cfg slot server =
     (let publication = pg_Publication (cfg_Postgres cfg);
          r0 = \<lparr>su_InstalledFunction = False, su_CreatedPublication = False, su_CreatedSlot = False\<rparr>;
          (server1, ok1) = (if sv_emit_installed server then (server, True) else writes (se_install e) install_emit server);
          r1 = r0\<lparr>su_InstalledFunction := \<not> sv_emit_installed server\<rparr> in
      if \<not> ok1 then (server1, r0, Some (ErrTransport ''install SQL API (administrator privileges may be required)''))
      else
        (let (server2, ok2) = (if sv_publications server publication \<noteq> None then (server1, True)
                               else writes (se_publish e) (create_publication publication) server1);
             r2 = r1\<lparr>su_CreatedPublication := (sv_publications server publication = None)\<rparr> in
         if \<not> ok2 then (server2, r1, Some (ErrTransport ''create empty publication''))
         else if si_Exists slot then (server2, r2, None)
         else if se_fails e CloseConnection then (server2, r2, Some (ErrTransport ''close setup SQL connection''))
         else (case createReplicationSlot e (pg_Slot (cfg_Postgres cfg)) server2 of
                 (server3, Some err) \<Rightarrow> (server3, r2, Some err)
               | (server3, None) \<Rightarrow> (server3, r2\<lparr>su_CreatedSlot := True\<rparr>, None))))"

definition Setup ::
    "externals \<Rightarrow> (string \<Rightarrow> string option) \<Rightarrow> setup_env \<Rightarrow> Config \<Rightarrow> bool \<Rightarrow> pg_server \<Rightarrow>
     pg_server \<times> SetupResult \<times> capture_error option" where
  "Setup x env e cfg createSlot server =
     (let r0 = \<lparr>su_InstalledFunction = False, su_CreatedPublication = False, su_CreatedSlot = False\<rparr> in
      case PostgreSQLDSN env cfg of
        Inl err \<Rightarrow> (server, r0, Some (ErrTransport err))
      | Inr _ \<Rightarrow>
          (case setup_preflight x e cfg createSlot server of
             Inl err \<Rightarrow> (server, r0, Some err)
           | Inr slot \<Rightarrow> setup_mutations e cfg slot server))"
section \<open>Doctor\<close>

record doctor_check =
  ck_Name :: string
  ck_Status :: string
  ck_Detail :: string

text \<open>\<open>strconv.Atoi\<close> with its error dropped: 0 for bad syntax, the nearest value out of range.\<close>

definition Atoi_value :: "string \<Rightarrow> int" where
  "Atoi_value s =
     (let neg = (s \<noteq> [] \<and> hd s = CHR ''-'');
          body = (if s \<noteq> [] \<and> (hd s = CHR ''-'' \<or> hd s = CHR ''+'') then tl s else s) in
      case ParseUint body of
        None \<Rightarrow> 0
      | Some un \<Rightarrow> if neg then max min_int64 (- int un) else min max_int64 (int un))"

definition checkValue :: "string \<Rightarrow> bool \<Rightarrow> string \<Rightarrow> doctor_check" where
  "checkValue name ok detail =
     \<lparr>ck_Name = name, ck_Status = (if ok then ''pass'' else ''fail''), ck_Detail = detail\<rparr>"

definition checkPositive :: "string \<Rightarrow> string \<Rightarrow> doctor_check" where
  "checkPositive name v = checkValue name (Atoi_value v > 0) v"

datatype doctor_point =
    DoctorConnect
  | DoctorSettings
  | DoctorRole
  | DoctorFunction
  | DoctorPublication
  | DoctorSlot
  | DoctorRetained

record doctor_view =
  dr_fails :: "doctor_point \<Rightarrow> bool"
  dr_connect_error :: conn_err
  dr_connected_database :: string
  dr_wal_level :: string
  dr_max_replication_slots :: string
  dr_max_wal_senders :: string
  dr_rolreplication :: bool
  dr_rolsuper :: bool
  dr_retained :: string

definition bool_text :: "bool \<Rightarrow> string" where
  "bool_text b = (if b then ''true'' else ''false'')"

definition settings_checks :: "doctor_view \<Rightarrow> pg_server \<Rightarrow> doctor_check list" where
  "settings_checks v server =
     (let versionText = Itoa (sv_version server); version = Atoi_value versionText in
      [\<lparr>ck_Name = ''PostgreSQL version'', ck_Status = (if version < 140000 \<or> version \<ge> 190000 then ''fail'' else ''pass''),
        ck_Detail = versionText\<rparr>,
       checkValue ''wal_level'' (dr_wal_level v = ''logical'') (dr_wal_level v),
       checkPositive ''max_replication_slots'' (dr_max_replication_slots v),
       checkPositive ''max_wal_senders'' (dr_max_wal_senders v)])"

definition role_checks :: "doctor_view \<Rightarrow> doctor_check list" where
  "role_checks v =
     [checkValue ''replication privilege'' (dr_rolreplication v \<or> dr_rolsuper v)
        (''replication='' @ bool_text (dr_rolreplication v) @ '' superuser='' @ bool_text (dr_rolsuper v))]"

definition publication_checks :: "Config \<Rightarrow> pg_server \<Rightarrow> doctor_check list" where
  "publication_checks cfg server =
     (let publication = pg_Publication (cfg_Postgres cfg);
          tables = (case sv_publications server publication of None \<Rightarrow> 0 | Some n \<Rightarrow> n) in
      [checkValue ''publication exists'' (sv_publications server publication \<noteq> None) publication,
       checkValue ''publication is empty'' (sv_publications server publication \<noteq> None \<and> tables = 0)
         (Itoa (int tables) @ '' table(s)'')])"

definition slot_checks :: "externals \<Rightarrow> doctor_view \<Rightarrow> Config \<Rightarrow> SlotInfo \<Rightarrow> doctor_check list" where
  "slot_checks x v cfg slot =
     checkValue ''replication slot exists'' (si_Exists slot) (pg_Slot (cfg_Postgres cfg)) #
     (if si_Exists slot then
        [checkValue ''slot plugin'' (si_Plugin slot = ''pgoutput'') (si_Plugin slot),
         checkValue ''slot database'' (si_Database slot = dr_connected_database v) (si_Database slot),
         checkValue ''slot inactive'' (\<not> si_Active slot) (''active='' @ bool_text (si_Active slot)),
         \<lparr>ck_Name = ''slot confirmed flush LSN'', ck_Status = ''pass'', ck_Detail = LSN_String x (si_ConfirmedFlushLSN slot)\<rparr>] @
        (if dr_fails v DoctorRetained then []
         else [\<lparr>ck_Name = ''slot retained WAL'', ck_Status = ''pass'', ck_Detail = dr_retained v\<rparr>])
      else [])"

definition size_check :: "Config \<Rightarrow> doctor_check" where
  "size_check cfg = \<lparr>ck_Name = ''message-size configuration'', ck_Status = ''pass'',
     ck_Detail = Itoa (sp_MaxEventBytes (cfg_Spool cfg)) @ '' bytes''\<rparr>"

definition Doctor ::
    "externals \<Rightarrow> (string \<Rightarrow> string option) \<Rightarrow> doctor_view \<Rightarrow> Config \<Rightarrow> pg_server \<Rightarrow>
     doctor_check list \<times> capture_error option" where
  "Doctor x env v cfg server =
     (case PostgreSQLDSN env cfg of
        Inl err \<Rightarrow> ([], Some (ErrTransport err))
      | Inr _ \<Rightarrow>
          if dr_fails v DoctorConnect then
            ([\<lparr>ck_Name = ''database connectivity'', ck_Status = ''fail'', ck_Detail = safePGError (dr_connect_error v)\<rparr>], None)
          else
            (let c0 = [\<lparr>ck_Name = ''database connectivity'', ck_Status = ''pass'', ck_Detail = ''connected''\<rparr>];
                 c1 = c0 @ settings_checks v server;
                 c2 = c1 @ role_checks v;
                 c3 = c2 @ [checkValue ''SQL emit function'' (sv_emit_installed server) ''writerelay.emit(jsonb)''];
                 c4 = c3 @ publication_checks cfg server in
             if dr_fails v DoctorSettings then (c0, Some (ErrTransport ''read PostgreSQL settings''))
             else if dr_fails v DoctorRole then (c1, Some (ErrTransport ''inspect current role''))
             else if dr_fails v DoctorFunction then (c2, Some (ErrTransport ''inspect emit function''))
             else if dr_fails v DoctorPublication then (c3, Some (ErrTransport ''inspect publication''))
             else (case readSlot x (dr_fails v DoctorSlot) (pg_Slot (cfg_Postgres cfg)) server of
                     Inl err \<Rightarrow> (c4, Some err)
                   | Inr slot \<Rightarrow> (c4 @ slot_checks x v cfg slot @ [size_check cfg], None))))"

section \<open>Properties\<close>

lemma checkValue_pass [simp]: "ck_Status (checkValue n ok d) = ''pass'' \<longleftrightarrow> ok"
  by (simp add: checkValue_def)

lemma Atoi_Itoa: "min_int64 \<le> n \<Longrightarrow> n \<le> max_int64 \<Longrightarrow> Atoi_value (Itoa n) = n"
  using hd_nat_decimal [of "nat n"]
  by (auto simp: Atoi_value_def Itoa_def ParseUint_def Let_def min_int64_def max_int64_def)

text \<open>A connection error that does not come from the server is replaced by a fixed text.\<close>

lemma redacted: "redactConnectionError (OtherError a) = redactConnectionError (OtherError b)"
  by (simp add: redactConnectionError_def safePGError_def)

text \<open>The state of the server that capture needs: the function, an empty publication, and a slot
  that passes validation.\<close>

definition server_ready :: "externals \<Rightarrow> Config \<Rightarrow> pg_server \<Rightarrow> bool" where
  "server_ready x cfg server \<longleftrightarrow> validateServerVersion (sv_version server) = None \<and> sv_emit_installed server \<and>
     sv_publications server (pg_Publication (cfg_Postgres cfg)) = Some 0 \<and>
     (\<exists>slot. readSlot x False (pg_Slot (cfg_Postgres cfg)) server = Inr slot \<and> si_Exists slot \<and>
        validateSlot slot (sv_database server) = None)"

lemma preflight_Inr:
  assumes "setup_preflight x e cfg create server = Inr slot"
  shows "validateServerVersion (sv_version server) = None"
    "sv_publications server (pg_Publication (cfg_Postgres cfg)) \<in> {None, Some 0}"
    "readSlot x False (pg_Slot (cfg_Postgres cfg)) server = Inr slot"
    "if si_Exists slot then validateSlot slot (sv_database server) = None else create"
  using assms by (auto simp: setup_preflight_def readSlot_def Let_def split: if_splits option.splits sum.splits)

text \<open>Setup changes nothing before everything that exists has been checked: when the server
  afterwards differs at all, its version is supported, an existing publication was empty, an
  existing slot was valid, and a missing slot was to be created.\<close>

theorem Setup_checks_first:
  assumes "Setup x env e cfg create server = (server', r, err)" and "server' \<noteq> server"
  shows "validateServerVersion (sv_version server) = None \<and>
    sv_publications server (pg_Publication (cfg_Postgres cfg)) \<in> {None, Some 0} \<and>
    (\<exists>slot. readSlot x False (pg_Slot (cfg_Postgres cfg)) server = Inr slot \<and>
       (if si_Exists slot then validateSlot slot (sv_database server) = None else create))"
proof -
  obtain slot where "setup_preflight x e cfg create server = Inr slot"
    using assms by (auto simp: Setup_def Let_def split: sum.splits)
  from preflight_Inr [OF this] show ?thesis by blast
qed

lemma readSlot_new:
  assumes "ParseLSN x t = Some l"
  shows "\<exists>slot. readSlot x False name (new_slot name t server) = Inr slot \<and> si_Exists slot \<and>
    validateSlot slot (sv_database server) = None"
  using assms by (simp add: readSlot_def new_slot_def parse_slot_lsn_def validateSlot_def)

lemma readSlot_frame:
  "readSlot x f n (create_publication p s) = readSlot x f n s" "readSlot x f n (install_emit s) = readSlot x f n s"
  by (simp_all add: readSlot_def create_publication_def install_emit_def)

lemma setup_frame [simp]:
  "sv_version (create_publication p s) = sv_version s" "sv_version (install_emit s) = sv_version s"
  "sv_version (new_slot n t s) = sv_version s" "sv_database (create_publication p s) = sv_database s"
  "sv_database (install_emit s) = sv_database s" "sv_database (new_slot n t s) = sv_database s"
  "sv_emit_installed (create_publication p s) = sv_emit_installed s" "sv_emit_installed (install_emit s)"
  "sv_emit_installed (new_slot n t s) = sv_emit_installed s"
  "sv_publications (create_publication p s) = (sv_publications s)(p \<mapsto> 0)"
  "sv_publications (install_emit s) = sv_publications s" "sv_publications (new_slot n t s) = sv_publications s"
  by (simp_all add: create_publication_def install_emit_def new_slot_def)

text \<open>(C31) A successful setup leaves a server that is ready for capture, and reports what it did: each
  flag says exactly whether the object was missing before.\<close>

theorem Setup_success:
  assumes "Setup x env e cfg create server = (server', r, None)" and "ParseLSN x (se_slot_lsn e) \<noteq> None"
  shows "server_ready x cfg server' \<and>
    su_InstalledFunction r = (\<not> sv_emit_installed server) \<and>
    su_CreatedPublication r = (sv_publications server (pg_Publication (cfg_Postgres cfg)) = None) \<and>
    su_CreatedSlot r = (sv_slots server (pg_Slot (cfg_Postgres cfg)) = None)"
proof -
  obtain slot where pre: "setup_preflight x e cfg create server = Inr slot"
    and m: "setup_mutations e cfg slot server = (server', r, None)"
    using assms(1) by (auto simp: Setup_def Let_def split: sum.splits)
  note ok = preflight_Inr [OF pre]
  obtain l where l: "ParseLSN x (se_slot_lsn e) = Some l" using assms(2) by blast
  have exists: "si_Exists slot \<longleftrightarrow> sv_slots server (pg_Slot (cfg_Postgres cfg)) \<noteq> None"
    using ok(3) by (auto simp: readSlot_def no_slot_def split: option.splits sum.splits)
  let ?p = "pg_Publication (cfg_Postgres cfg)"
  define s1 where "s1 = (if sv_emit_installed server then server else install_emit server)"
  define s2 where "s2 = (if sv_publications server ?p \<noteq> None then s1 else create_publication ?p s1)"
  have s': "server' = (if si_Exists slot then s2 else new_slot (pg_Slot (cfg_Postgres cfg)) (se_slot_lsn e) s2)"
    and flags: "su_InstalledFunction r = (\<not> sv_emit_installed server)"
      "su_CreatedPublication r = (sv_publications server ?p = None)" "su_CreatedSlot r = (\<not> si_Exists slot)"
    using m
    by (auto simp: setup_mutations_def createReplicationSlot_def writes_def Let_def s1_def s2_def
        split: if_splits write_fault.splits option.splits prod.splits)
  have frame: "sv_version s2 = sv_version server" "sv_database s2 = sv_database server" "sv_emit_installed s2"
    "sv_publications s2 ?p = Some 0" "readSlot x False n s2 = readSlot x False n server" for n
    using ok(2) by (auto simp: s1_def s2_def readSlot_frame)
  show ?thesis
  proof (cases "si_Exists slot")
    case True
    with ok frame s' flags exists show ?thesis by (simp add: server_ready_def)
  next
    case False
    with ok frame s' flags exists readSlot_new [OF l, of "pg_Slot (cfg_Postgres cfg)" s2] show ?thesis
      by (simp add: server_ready_def)
  qed
qed

lemma doctor_server_ready:
  assumes "Doctor x env v cfg server = (checks, None)" and "\<forall>c \<in> set checks. ck_Status c = ''pass''"
    and "dr_connected_database v = sv_database server"
    and "min_int64 \<le> sv_version server" and "sv_version server \<le> max_int64"
  shows "server_ready x cfg server"
proof -
  have conn: "\<not> dr_fails v DoctorConnect"
    using assms(1,2) by (auto simp: Doctor_def split: sum.splits)
  obtain slot where slot: "readSlot x (dr_fails v DoctorSlot) (pg_Slot (cfg_Postgres cfg)) server = Inr slot"
    and checks: "checks = [\<lparr>ck_Name = ''database connectivity'', ck_Status = ''pass'', ck_Detail = ''connected''\<rparr>] @
      settings_checks v server @ role_checks v @
      [checkValue ''SQL emit function'' (sv_emit_installed server) ''writerelay.emit(jsonb)''] @
      publication_checks cfg server @ slot_checks x v cfg slot @ [size_check cfg]"
    using assms(1) conn by (auto simp: Doctor_def Let_def split: sum.splits if_splits)
  have pass: "\<forall>c \<in> set (settings_checks v server). ck_Status c = ''pass''"
    "\<forall>c \<in> set (publication_checks cfg server). ck_Status c = ''pass''"
    "\<forall>c \<in> set (slot_checks x v cfg slot). ck_Status c = ''pass''"
    "sv_emit_installed server"
    using assms(2) unfolding checks by auto
  have "validateServerVersion (sv_version server) = None"
    using pass(1) assms(4,5)
    by (simp add: settings_checks_def validateServerVersion_def Let_def Atoi_Itoa split: if_splits)
  moreover note pass(4)
  moreover have "sv_publications server (pg_Publication (cfg_Postgres cfg)) = Some 0"
    using pass(2) by (auto simp: publication_checks_def Let_def split: option.splits)
  moreover have "si_Exists slot" using pass(3) by (simp add: slot_checks_def)
  moreover have "validateSlot slot (sv_database server) = None"
    using pass(3) \<open>si_Exists slot\<close> assms(3) by (simp add: slot_checks_def validateSlot_def)
  moreover have "readSlot x False (pg_Slot (cfg_Postgres cfg)) server = Inr slot"
    using slot by (simp add: readSlot_def split: if_splits)
  ultimately show ?thesis unfolding server_ready_def by blast
qed

text \<open>Doctor and the daemon agree: when every check passes on an undisturbed run, the server is
  ready, so that a setup would find nothing to do.\<close>

theorem Doctor_ready:
  assumes "Doctor x env v cfg server = (checks, None)" and "\<forall>c \<in> set checks. ck_Status c = ''pass''"
    and "dr_connected_database v = sv_database server"
    and "min_int64 \<le> sv_version server" and "sv_version server \<le> max_int64"
  shows "server_ready x cfg server"
  using assms by (rule doctor_server_ready)

text \<open>Setup is idempotent: on a server that is ready and answers the reads, it changes nothing,
  reports nothing created and succeeds, with or without \<open>--create-slot\<close>.\<close>

theorem Setup_idempotent:
  assumes "server_ready x cfg server" and "\<forall>p. \<not> se_fails e p" and "PostgreSQLDSN env cfg = Inr dsn"
  shows "Setup x env e cfg create server =
    (server, \<lparr>su_InstalledFunction = False, su_CreatedPublication = False, su_CreatedSlot = False\<rparr>, None)"
  using assms by (auto simp: server_ready_def Setup_def setup_preflight_def setup_mutations_def Let_def)

section \<open>A server before and after setup\<close>

definition fresh_server :: pg_server where
  "fresh_server = \<lparr>sv_database = ''app'', sv_version = 160004, sv_emit_installed = False,
     sv_publications = Map.empty, sv_slots = Map.empty\<rparr>"

definition quiet_setup :: setup_env where
  "quiet_setup = \<lparr>se_fails = \<lambda>_. False, se_connect_error = OtherError [], se_install = WriteOk,
     se_publish = WriteOk, se_replication = ReplConnected, se_create_slot = WriteOk, se_slot_lsn = LSN_String example_externals 7\<rparr>"

abbreviation example_setup :: "pg_server \<times> SetupResult \<times> capture_error option" where
  "example_setup \<equiv> Setup example_externals (\<lambda>_. Some ''host=db'') quiet_setup example_config True fresh_server"

definition quiet_doctor :: doctor_view where
  "quiet_doctor = \<lparr>dr_fails = \<lambda>_. False, dr_connect_error = OtherError [], dr_connected_database = ''app'',
     dr_wal_level = ''logical'', dr_max_replication_slots = ''10'', dr_max_wal_senders = ''10'',
     dr_rolreplication = True, dr_rolsuper = False, dr_retained = ''16 MB''\<rparr>"

lemmas setup_defs = Setup_def setup_preflight_def setup_mutations_def createReplicationSlot_def readSlot_def
  no_slot_def connectReplication_def writes_def PostgreSQLDSN_def validateServerVersion_def quiet_setup_def

lemma example_setup_ok: "snd (snd example_setup) = None"
  by (simp add: setup_defs fresh_server_def example_config_def)

lemma example_setup_eq: "example_setup = (fst example_setup, fst (snd example_setup), None)"
  using example_setup_ok by (metis prod.collapse)

lemma Atoi_ten: "Atoi_value ''10'' = 10"
  by code_simp

theorem Setup_checks_first_witness:
  "fst example_setup \<noteq> fresh_server \<and> validateServerVersion (sv_version fresh_server) = None"
proof -
  have "sv_emit_installed (fst example_setup)"
    by (simp add: setup_defs fresh_server_def example_config_def)
  then have "fst example_setup \<noteq> fresh_server" by (auto simp: fresh_server_def)
  with Setup_checks_first [OF example_setup_eq] show ?thesis by blast
qed

theorem Setup_success_witness:
  "server_ready example_externals example_config (fst example_setup) \<and> su_CreatedSlot (fst (snd example_setup))"
proof -
  have "ParseLSN example_externals (se_slot_lsn quiet_setup) \<noteq> None"
    by (simp add: quiet_setup_def example_externals_def parse_bits_string)
  moreover have "sv_slots fresh_server n = None" for n by (simp add: fresh_server_def)
  ultimately show ?thesis using Setup_success [OF example_setup_eq] by simp
qed

theorem Doctor_ready_witness:
  "server_ready example_externals example_config (fst example_setup)"
proof (rule Doctor_ready)
  let ?d = "Doctor example_externals (\<lambda>_. Some ''host=db'') quiet_doctor example_config (fst example_setup)"
  show "?d = (fst ?d, None)"
    by (rule prod_eqI; simp add: Doctor_def Let_def setup_defs quiet_doctor_def fresh_server_def example_config_def
        example_externals_def parse_bits_string parse_slot_lsn_def install_emit_def create_publication_def new_slot_def)
  show "\<forall>c \<in> set (fst ?d). ck_Status c = ''pass''"
    by (simp add: Doctor_def Let_def setup_defs quiet_doctor_def fresh_server_def example_config_def
        example_externals_def parse_bits_string parse_slot_lsn_def install_emit_def create_publication_def new_slot_def
        settings_checks_def role_checks_def publication_checks_def slot_checks_def size_check_def checkPositive_def
        Atoi_Itoa min_int64_def max_int64_def Atoi_ten)
qed (simp_all add: setup_defs quiet_doctor_def fresh_server_def example_config_def install_emit_def
    create_publication_def new_slot_def min_int64_def max_int64_def)

theorem Setup_idempotent_witness:
  "fst (Setup example_externals (\<lambda>_. Some ''host=db'') quiet_setup example_config False (fst example_setup)) =
   fst example_setup"
proof -
  have "server_ready example_externals example_config (fst example_setup)"
    by (simp add: server_ready_def setup_defs fresh_server_def example_config_def install_emit_def
        create_publication_def new_slot_def parse_slot_lsn_def validateSlot_def example_externals_def
        parse_bits_string)
  then show ?thesis
    using Setup_idempotent [of example_externals example_config "fst example_setup" quiet_setup "\<lambda>_. Some ''host=db''" "''host=db''" False]
    by (simp add: quiet_setup_def PostgreSQLDSN_def example_config_def)
qed

end
