(* ===== verification/Disk_Guard.thy ===== *)
theory Disk_Guard
  imports Relay_Config
begin

text \<open>
  The disk-space guard of \<open>internal/diskspace/guard.go\<close>. The probe of the file system and the
  clock are arguments of each check; the two mutexes order the calls, so a history is a list.
  Byte counts that the operating system reports are 64-bit words, as in the code.
\<close>

section \<open>Definitions\<close>

record disk_status =
  dk_Enabled :: bool
  dk_Paused :: bool
  dk_Reason :: string
  dk_AvailableBytes :: "64 word"
  dk_SampledAt :: time
  dk_SampleFresh :: bool
  dk_PauseBelowBytes :: int
  dk_ResumeAtBytes :: int

record Guard =
  gd_interval :: duration
  gd_status :: disk_status
  gd_sampleOK :: bool

definition NewWithProbe :: "DiskSpaceConfig \<Rightarrow> Guard" where
  "NewWithProbe cfg =
     \<lparr>gd_interval = (if ds_CheckInterval cfg \<le> 0 then 5 * Second else ds_CheckInterval cfg),
      gd_status = \<lparr>dk_Enabled = ds_PauseBelowBytes cfg > 0, dk_Paused = False, dk_Reason = [],
        dk_AvailableBytes = 0, dk_SampledAt = zero_time, dk_SampleFresh = False,
        dk_PauseBelowBytes = ds_PauseBelowBytes cfg, dk_ResumeAtBytes = ds_ResumeAtBytes cfg\<rparr>,
      gd_sampleOK = False\<rparr>"

definition Interval :: "Guard \<Rightarrow> duration" where
  "Interval g = gd_interval g"

definition Snapshot :: "time \<Rightarrow> Guard \<Rightarrow> disk_status" where
  "Snapshot now g = (let s = gd_status g in
     s\<lparr>dk_SampleFresh := dk_Enabled s \<and> gd_sampleOK g \<and> dk_SampledAt s \<noteq> zero_time \<and>
         time_sub now (dk_SampledAt s) \<le> 2 * gd_interval g\<rparr>)"

text \<open>The status after a probe, \<open>None\<close> for a probe that failed.\<close>

definition probed :: "time \<Rightarrow> 64 word option \<Rightarrow> disk_status \<Rightarrow> disk_status" where
  "probed now probe s =
     (case probe of
        None \<Rightarrow> s\<lparr>dk_SampledAt := now, dk_Paused := True, dk_Reason := ''disk_check_failed''\<rparr>
      | Some available \<Rightarrow>
          if available < word_of_int (dk_PauseBelowBytes s) \<or>
             dk_Paused s \<and> available < word_of_int (dk_ResumeAtBytes s)
          then s\<lparr>dk_SampledAt := now, dk_AvailableBytes := available, dk_Paused := True, dk_Reason := ''low_disk''\<rparr>
          else s\<lparr>dk_SampledAt := now, dk_AvailableBytes := available, dk_Paused := False, dk_Reason := []\<rparr>)"

text \<open>The result is whether the check reports \<open>ErrPaused\<close>.\<close>

definition Check :: "bool \<Rightarrow> time \<Rightarrow> 64 word option \<Rightarrow> Guard \<Rightarrow> Guard \<times> bool" where
  "Check force now probe g =
     (let previous = gd_status g in
      if \<not> dk_Enabled previous then (g, False)
      else if \<not> force \<and> dk_SampledAt previous \<noteq> zero_time \<and> time_sub now (dk_SampledAt previous) < gd_interval g
        then (g, dk_Paused previous)
      else (let s = probed now probe previous in
            (g\<lparr>gd_status := s, gd_sampleOK := (probe \<noteq> None)\<rparr>, dk_Paused s)))"

section \<open>Properties\<close>

definition guard_inv :: "Guard \<Rightarrow> bool" where
  "guard_inv g \<longleftrightarrow> (dk_Paused (gd_status g) \<longleftrightarrow> dk_Reason (gd_status g) \<noteq> []) \<and>
     dk_Reason (gd_status g) \<in> {[], ''low_disk'', ''disk_check_failed''} \<and>
     (dk_Enabled (gd_status g) \<longleftrightarrow> dk_PauseBelowBytes (gd_status g) > 0) \<and>
     (\<not> dk_Enabled (gd_status g) \<longrightarrow> \<not> dk_Paused (gd_status g)) \<and> gd_interval g > 0"

definition thresholds :: "Guard \<Rightarrow> bool \<times> int \<times> int \<times> duration" where
  "thresholds g = (dk_Enabled (gd_status g), dk_PauseBelowBytes (gd_status g), dk_ResumeAtBytes (gd_status g), gd_interval g)"

lemma guard_inv_new: "guard_inv (NewWithProbe cfg)"
  by (simp add: guard_inv_def NewWithProbe_def duration_defs)

lemma Check_inv: "guard_inv g \<Longrightarrow> guard_inv (fst (Check force now probe g))"
  by (auto simp: Check_def guard_inv_def probed_def Let_def split: option.splits)

lemma Check_thresholds [simp]: "thresholds (fst (Check force now probe g)) = thresholds g"
  by (auto simp: Check_def thresholds_def probed_def Let_def split: option.splits)

text \<open>What the check reports is the state it leaves.\<close>

lemma Check_reports: "guard_inv g \<Longrightarrow> snd (Check force now probe g) = dk_Paused (gd_status (fst (Check force now probe g)))"
  by (auto simp: Check_def guard_inv_def Let_def)

text \<open>A history of checks: force flag, clock and probe of each.\<close>

fun check_all :: "(bool \<times> time \<times> 64 word option) list \<Rightarrow> Guard \<Rightarrow> Guard" where
  "check_all [] g = g"
| "check_all ((force, now, probe) # cs) g = check_all cs (fst (Check force now probe g))"

lemma check_all_inv: "guard_inv g \<Longrightarrow> guard_inv (check_all cs g)"
  by (induction cs g rule: check_all.induct) (auto simp: Check_inv)

lemma check_all_thresholds [simp]: "thresholds (check_all cs g) = thresholds g"
  by (induction cs g rule: check_all.induct) auto

text \<open>A forced check admits work only on a fresh measurement at or above the pause threshold,
  and after a pause only at or above the resume threshold. A probe that fails refuses.\<close>

theorem Check_admits:
  assumes "guard_inv g" and "dk_Enabled (gd_status g)" and "\<not> snd (Check True now probe g)"
  shows "\<exists>available. probe = Some available \<and> word_of_int (dk_PauseBelowBytes (gd_status g)) \<le> available \<and>
    (dk_Paused (gd_status g) \<longrightarrow> word_of_int (dk_ResumeAtBytes (gd_status g)) \<le> available) \<and>
    \<not> dk_Paused (gd_status (fst (Check True now probe g)))"
  using assms by (auto simp: Check_def probed_def Let_def not_less split: option.splits if_splits)

lemma Check_between:
  assumes "word_of_int (dk_PauseBelowBytes (gd_status g)) \<le> available"
    and "available < word_of_int (dk_ResumeAtBytes (gd_status g))"
  shows "dk_Paused (gd_status (fst (Check force now (Some available) g))) = dk_Paused (gd_status g)"
  using assms by (auto simp: Check_def probed_def Let_def leD)

text \<open>(C30) Hysteresis: while the measurements stay between the two thresholds, no number of checks
  changes whether capture is paused.\<close>

theorem guard_hysteresis:
  assumes "\<forall>(force, now, probe) \<in> set cs. \<exists>available. probe = Some available \<and>
      word_of_int (dk_PauseBelowBytes (gd_status g)) \<le> available \<and>
      available < word_of_int (dk_ResumeAtBytes (gd_status g))"
  shows "dk_Paused (gd_status (check_all cs g)) = dk_Paused (gd_status g)"
  using assms
proof (induction cs g rule: check_all.induct)
  case (2 force now probe cs g)
  obtain available where p: "probe = Some available" "word_of_int (dk_PauseBelowBytes (gd_status g)) \<le> available"
    "available < word_of_int (dk_ResumeAtBytes (gd_status g))" using 2(2) by auto
  let ?g = "fst (Check force now probe g)"
  have same: "dk_PauseBelowBytes (gd_status ?g) = dk_PauseBelowBytes (gd_status g)"
    "dk_ResumeAtBytes (gd_status ?g) = dk_ResumeAtBytes (gd_status g)"
    using Check_thresholds [of force now probe g] by (simp_all add: thresholds_def)
  have "dk_Paused (gd_status (check_all cs ?g)) = dk_Paused (gd_status ?g)"
    by (rule 2(1)) (use 2(2) same in auto)
  also have "\<dots> = dk_Paused (gd_status g)" using Check_between [OF p(2,3)] p(1) by simp
  finally show ?case by simp
qed simp

text \<open>In every history of a guard, a pause has one of the two reasons and no pause has none, a
  disabled guard never pauses, and a snapshot calls a sample fresh only when the guard is on and
  its last probe succeeded within two intervals.\<close>

theorem guard_status_consistent:
  "guard_inv (check_all cs (NewWithProbe cfg)) \<and>
   (dk_SampleFresh (Snapshot now (check_all cs (NewWithProbe cfg))) \<longrightarrow>
      ds_PauseBelowBytes cfg > 0 \<and> gd_sampleOK (check_all cs (NewWithProbe cfg)) \<and>
      time_sub now (dk_SampledAt (gd_status (check_all cs (NewWithProbe cfg)))) \<le> 2 * Interval (NewWithProbe cfg))"
proof -
  have "thresholds (check_all cs (NewWithProbe cfg)) = thresholds (NewWithProbe cfg)" by simp
  then show ?thesis
    using check_all_inv [OF guard_inv_new, of cs cfg]
    by (auto simp: Snapshot_def Let_def thresholds_def Interval_def) (simp add: NewWithProbe_def)
qed

section \<open>A concrete guard\<close>

definition example_guard :: Guard where
  "example_guard = NewWithProbe \<lparr>ds_PauseBelowBytes = 100, ds_ResumeAtBytes = 200, ds_CheckInterval = 5 * Second,
     ds_CheckIntervalValue = ''5s''\<rparr>"

theorem Check_admits_witness: "\<not> dk_Paused (gd_status (fst (Check True 50 (Some 150) example_guard)))"
  using Check_admits [of example_guard 50 "Some 150"]
  by (simp add: example_guard_def guard_inv_new) (simp add: NewWithProbe_def Check_def probed_def)

theorem guard_hysteresis_witness:
  "dk_Paused (gd_status (check_all [(True, 60, Some 150), (True, 70, Some 199)] (fst (Check True 50 (Some 20) example_guard))))"
proof -
  let ?g = "fst (Check True 50 (Some 20) example_guard)"
  have "dk_Paused (gd_status ?g)" "dk_PauseBelowBytes (gd_status ?g) = 100" "dk_ResumeAtBytes (gd_status ?g) = 200"
    by (simp_all add: example_guard_def NewWithProbe_def Check_def probed_def)
  then show ?thesis
    using guard_hysteresis [of "[(True, 60, Some 150), (True, 70, Some 199)]" ?g] by simp
qed

theorem guard_status_consistent_witness:
  "time_sub 60 (dk_SampledAt (gd_status (check_all [(True, 50, Some 150)] example_guard))) \<le> 10 * Second"
  using guard_status_consistent [of "[(True, 50, Some 150)]" "\<lparr>ds_PauseBelowBytes = 100, ds_ResumeAtBytes = 200,
      ds_CheckInterval = 5 * Second, ds_CheckIntervalValue = ''5s''\<rparr>" 60]
  unfolding example_guard_def
  by (simp add: NewWithProbe_def Check_def probed_def Snapshot_def Interval_def zero_time_def time_sub_def
      duration_defs max_int64_def min_int64_def)

end
