(* ===== verification/Replicator.thy ===== *)
theory Replicator
  imports Pg_Setup Disk_Guard
begin

text \<open>
  The capture loop of \<open>internal/postgres/replicator.go\<close>: where replication starts, what is done
  with each message, when positions are acknowledged, and when a session is retried. The spool
  is an interface, as in the code. The wire parsers of \<open>pglogrepl\<close> are parameters; what the
  network, the clock, the disk probe and cancellation do is recorded in the environment of each
  iteration and of each session. Log output is not modelled.
\<close>

section \<open>Definitions\<close>

record ('e, 's) Spool =
  PersistOp :: "'e \<Rightarrow> CommittedBatch \<Rightarrow> 's \<Rightarrow> 's \<times> (store_error, PersistResult) outcome"
  LastDurableOp :: "bool \<Rightarrow> 's \<Rightarrow> store_error + lsn"

record Replicator =
  rp_cfg :: Config
  rp_hooks :: Hooks
  rp_disk :: Guard
  rp_connected :: bool
  rp_transactions :: "64 word"
  rp_lastCapture :: int

record CaptureStatus =
  st_Disk :: disk_status
  st_Connected :: bool
  st_Transactions :: "64 word"
  st_LastCaptureUnix :: int

definition Status :: "time \<Rightarrow> Replicator \<Rightarrow> CaptureStatus" where
  "Status now r = \<lparr>st_Disk = Snapshot now (rp_disk r), st_Connected = rp_connected r,
     st_Transactions = rp_transactions r, st_LastCaptureUnix = rp_lastCapture r\<rparr>"

definition NewReplicatorWithHooks :: "Config \<Rightarrow> Hooks \<Rightarrow> Replicator" where
  "NewReplicatorWithHooks cfg hooks =
     \<lparr>rp_cfg = cfg, rp_hooks = hooks, rp_disk = NewWithProbe (sp_DiskSpace (cfg_Spool cfg)),
      rp_connected = False, rp_transactions = 0, rp_lastCapture = 0\<rparr>"

definition NewReplicator :: "Config \<Rightarrow> Replicator" where
  "NewReplicator cfg = NewReplicatorWithHooks cfg no_hooks"

definition checkDisk :: "bool \<Rightarrow> time \<Rightarrow> 64 word option \<Rightarrow> Replicator \<Rightarrow> Replicator \<times> bool" where
  "checkDisk force now probe r =
     (case Check force now probe (rp_disk r) of (g, paused) \<Rightarrow> (r\<lparr>rp_disk := g\<rparr>, paused))"

text \<open>One entry for each time the timer fires; the context is done after the last one.\<close>

fun waitForDisk :: "(time \<times> 64 word option) list \<Rightarrow> Replicator \<Rightarrow> Replicator \<times> bool" where
  "waitForDisk [] r = (r, False)"
| "waitForDisk ((now, probe) # cs) r =
     (case checkDisk True now probe r of
        (r', paused) \<Rightarrow> if paused then waitForDisk cs r' else (r', True))"

record StandbyStatusUpdate =
  sb_WALWritePosition :: lsn
  sb_WALFlushPosition :: lsn
  sb_WALApplyPosition :: lsn

definition standbyStatus :: "lsn \<Rightarrow> StandbyStatusUpdate" where
  "standbyStatus durableLSN = \<lparr>sb_WALWritePosition = durableLSN, sb_WALFlushPosition = durableLSN,
     sb_WALApplyPosition = durableLSN\<rparr>"

text \<open>A status that fails to send may or may not have reached the server.\<close>

datatype send_fault = SendOk | SendLost | SendLanded

definition sendStandbyStatus :: "send_fault \<Rightarrow> lsn \<Rightarrow> StandbyStatusUpdate list \<times> capture_error option" where
  "sendStandbyStatus fault durableLSN =
     (case fault of
        SendOk \<Rightarrow> ([standbyStatus durableLSN], None)
      | SendLost \<Rightarrow> ([], Some (ErrTransport ''send standby status''))
      | SendLanded \<Rightarrow> ([standbyStatus durableLSN], Some (ErrTransport ''send standby status'')))"

definition persistThenAcknowledgeWithHooks ::
    "('e, 's) Spool \<Rightarrow> 'e \<Rightarrow> CommittedBatch \<Rightarrow> (lsn \<Rightarrow> StandbyStatusUpdate list \<times> capture_error option) \<Rightarrow>
     Hooks \<Rightarrow> 's \<Rightarrow> 's \<times> StandbyStatusUpdate list \<times> (capture_error, PersistResult) outcome" where
  "persistThenAcknowledgeWithHooks durableSpool e batch acknowledge hooks s =
     (case PersistOp durableSpool e batch s of
        (s', Halted) \<Rightarrow> (s', [], Halted)
      | (s', Err err) \<Rightarrow> (s', [], Err (ErrSpool err))
      | (s', Ok result) \<Rightarrow>
          if pr_DurableLSN result < cb_CommitEndLSN batch
          then (s', [], Err (ErrSpool (ErrDurability ''spool returned checkpoint before transaction end'')))
          else (case acknowledge (pr_DurableLSN result) of
                  (sent, Some err) \<Rightarrow> (s', sent, Err err)
                | (sent, None) \<Rightarrow>
                    if CallAfterAcknowledgment hooks then (s', sent, Halted) else (s', sent, Ok result)))"

definition persistThenAcknowledge ::
    "('e, 's) Spool \<Rightarrow> 'e \<Rightarrow> CommittedBatch \<Rightarrow> (lsn \<Rightarrow> StandbyStatusUpdate list \<times> capture_error option) \<Rightarrow>
     's \<Rightarrow> 's \<times> StandbyStatusUpdate list \<times> (capture_error, PersistResult) outcome" where
  "persistThenAcknowledge durableSpool e batch acknowledge s =
     persistThenAcknowledgeWithHooks durableSpool e batch acknowledge no_hooks s"

record 'e persist_point =
  pp_cancelled :: bool
  pp_now :: time
  pp_probe :: "64 word option"
  pp_spool :: 'e
  pp_send :: send_fault
  pp_unix :: int

definition persistBatch ::
    "('e, 's) Spool \<Rightarrow> 'e persist_point \<Rightarrow> CommittedBatch \<Rightarrow> Replicator \<Rightarrow> 's \<Rightarrow>
     Replicator \<times> 's \<times> StandbyStatusUpdate list \<times> (capture_error, PersistResult) outcome" where
  "persistBatch durableSpool p batch r s =
     (if pp_cancelled p then (r, s, [], Err ErrContext)
      else (case checkDisk True (pp_now p) (pp_probe p) r of
              (r', paused) \<Rightarrow>
                if paused then (r', s, [], Err ErrPaused)
                else (case persistThenAcknowledgeWithHooks durableSpool (pp_spool p) batch
                             (sendStandbyStatus (pp_send p)) (rp_hooks r') s of
                        (s', sent, result) \<Rightarrow> (r', s', sent, result))))"

section \<open>Where replication starts\<close>

record start_env =
  sn_connect :: "conn_err option"
  sn_read_fails :: bool
  sn_close_fails :: bool
  sn_create :: setup_env
  sn_reconnect :: "conn_err option"
  sn_reread_fails :: bool
  sn_version_fails :: bool
  sn_local_fails :: bool

text \<open>The slot, after it was created where the configuration allows that.\<close>

definition start_slot ::
    "externals \<Rightarrow> start_env \<Rightarrow> Config \<Rightarrow> pg_server \<Rightarrow> pg_server \<times> (capture_error + SlotInfo)" where
  "start_slot x e cfg server =
     (let name = pg_Slot (cfg_Postgres cfg) in
      case readSlot x (sn_read_fails e) name server of
        Inl err \<Rightarrow> (server, Inl err)
      | Inr slot \<Rightarrow>
          if si_Exists slot then (server, Inr slot)
          else if \<not> pg_CreateSlotIfMissing (cfg_Postgres cfg)
            then (server, Inl (ErrTransport ''replication slot does not exist; run setup --create-slot''))
          else if sn_close_fails e then (server, Inl (ErrTransport ''close connection''))
          else (case createReplicationSlot (sn_create e) name server of
                  (server', Some err) \<Rightarrow> (server', Inl err)
                | (server', None) \<Rightarrow>
                    (case sn_reconnect e of
                       Some err \<Rightarrow> (server', Inl (redactConnectionError err))
                     | None \<Rightarrow> (server', readSlot x (sn_reread_fails e) name server'))))"

definition choose_start :: "lsn \<Rightarrow> SlotInfo \<Rightarrow> capture_error + lsn" where
  "choose_start local slot =
     (if local \<noteq> 0 then Inr local
      else if si_ConfirmedFlushLSN slot \<noteq> 0 then Inr (si_ConfirmedFlushLSN slot)
      else if si_RestartLSN slot \<noteq> 0 then Inr (si_RestartLSN slot)
      else Inl (ErrTransport ''replication slot has no usable start LSN''))"

definition startLSN ::
    "externals \<Rightarrow> ('e, 's) Spool \<Rightarrow> start_env \<Rightarrow> Config \<Rightarrow> 's \<Rightarrow> pg_server \<Rightarrow> pg_server \<times> (capture_error + lsn)" where
  "startLSN x durableSpool e cfg s server =
     (case sn_connect e of
        Some err \<Rightarrow> (server, Inl (redactConnectionError err))
      | None \<Rightarrow>
          (case start_slot x e cfg server of
             (server', Inl err) \<Rightarrow> (server', Inl err)
           | (server', Inr slot) \<Rightarrow>
               (server',
                if sn_version_fails e then Inl (ErrTransport ''read current database/version'')
                else (case validateServerVersion (sv_version server') of
                        Some err \<Rightarrow> Inl err
                      | None \<Rightarrow>
                          (case validateSlot slot (sv_database server') of
                             Some err \<Rightarrow> Inl err
                           | None \<Rightarrow>
                               (case LastDurableOp durableSpool (sn_local_fails e) s of
                                  Inl err \<Rightarrow> Inl (ErrSpool err)
                                | Inr local \<Rightarrow> choose_start local slot))))))"

section \<open>One replication session\<close>

text \<open>The parsers of \<open>pglogrepl\<close>: a keepalive gives the server's WAL end and whether a reply is
  requested, \<open>XLogData\<close> gives the data it carries, \<open>Parse\<close> the message in it.\<close>

record pglogrepl =
  ParsePrimaryKeepaliveMessage :: "bytes \<Rightarrow> (lsn \<times> bool) option"
  ParseXLogData :: "bytes \<Rightarrow> bytes option"
  Parse :: "bytes \<Rightarrow> pg_message option"

definition DecodeWALData :: "pglogrepl \<Rightarrow> bytes \<Rightarrow> capture_error + pg_message" where
  "DecodeWALData w data =
     (case Parse w data of
        None \<Rightarrow> Inl (ErrProtocolState ''decode pgoutput protocol-v1 message'')
      | Some m \<Rightarrow> Inr m)"

datatype backend_message = CopyData bytes | OtherBackend

datatype receive_error = ReceiveTimeout | ReceiveFailed string

record 'e iteration =
  it_now :: time
  it_probe :: "64 word option"
  it_received :: "receive_error + backend_message"
  it_cancelled :: bool
  it_send :: send_fault
  it_persist :: "'e persist_point"

record 's session =
  ss_r :: Replicator
  ss_state :: StateMachine
  ss_durableLSN :: lsn
  ss_spool :: 's
  ss_wire :: "StandbyStatusUpdate list"

datatype flow = Continue | Return "capture_error option" | Crash

definition receiveInterval :: "Replicator \<Rightarrow> duration" where
  "receiveInterval r =
     (let interval = pg_StatusInterval (cfg_Postgres (rp_cfg r)) in
      if ds_PauseBelowBytes (sp_DiskSpace (cfg_Spool (rp_cfg r))) > 0
      then min interval (Interval (rp_disk r)) else interval)"

text \<open>A status at the durable position, with what the caller does when it fails.\<close>

definition report_status :: "send_fault \<Rightarrow> bool \<Rightarrow> 's session \<Rightarrow> 's session \<times> flow" where
  "report_status fault resets S =
     (case sendStandbyStatus fault (ss_durableLSN S) of
        (sent, err) \<Rightarrow>
          (let S' = S\<lparr>ss_wire := ss_wire S @ sent\<rparr> in
           case err of
             None \<Rightarrow> (S', Continue)
           | Some _ \<Rightarrow> (if resets then S'\<lparr>ss_state := Reset (ss_state S')\<rparr> else S', Return err)))"

definition capture_batch ::
    "('e, 's) Spool \<Rightarrow> 'e persist_point \<Rightarrow> CommittedBatch \<Rightarrow> 's session \<Rightarrow> 's session \<times> flow" where
  "capture_batch durableSpool p batch S =
     (case persistBatch durableSpool p batch (ss_r S) (ss_spool S) of
        (r', s', sent, result) \<Rightarrow>
          (let S' = S\<lparr>ss_r := r', ss_spool := s', ss_wire := ss_wire S @ sent\<rparr> in
           case result of
             Halted \<Rightarrow> (S', Crash)
           | Err err \<Rightarrow> (S', Return (Some err))
           | Ok result \<Rightarrow>
               (S'\<lparr>ss_durableLSN := pr_DurableLSN result,
                   ss_r := r'\<lparr>rp_lastCapture := pp_unix p, rp_transactions := rp_transactions r' + 1\<rparr>\<rparr>, Continue)))"

definition handle_message ::
    "externals \<Rightarrow> (string \<Rightarrow> time option) \<Rightarrow> ('e, 's) Spool \<Rightarrow> 'e persist_point \<Rightarrow> pg_message \<Rightarrow> 's session \<Rightarrow> 's session \<times> flow" where
  "handle_message x parseTime durableSpool p decoded S =
     (case Consume x parseTime decoded (ss_state S) of
        (state', Inl err) \<Rightarrow> (S\<lparr>ss_state := state'\<rparr>, Return (Some err))
      | (state', Inr None) \<Rightarrow> (S\<lparr>ss_state := state'\<rparr>, Continue)
      | (state', Inr (Some batch)) \<Rightarrow> capture_batch durableSpool p batch (S\<lparr>ss_state := state'\<rparr>))"

definition handle_copy_data ::
    "externals \<Rightarrow> (string \<Rightarrow> time option) \<Rightarrow> pglogrepl \<Rightarrow> ('e, 's) Spool \<Rightarrow> 'e iteration \<Rightarrow> bytes \<Rightarrow> 's session \<Rightarrow> 's session \<times> flow" where
  "handle_copy_data x parseTime w durableSpool it data S =
     (case data of
        [] \<Rightarrow> (S, Continue)
      | c # body \<Rightarrow>
          if c = CHR ''k'' then
            (case ParsePrimaryKeepaliveMessage w body of
               None \<Rightarrow> (S, Return (Some (ErrTransport ''parse primary keepalive'')))
             | Some (serverWALEnd, replyRequested) \<Rightarrow>
                 if replyRequested then report_status (it_send it) False S else (S, Continue))
          else if c = CHR ''w'' then
            (case ParseXLogData w body of
               None \<Rightarrow> (S, Return (Some (ErrTransport ''parse XLogData'')))
             | Some wal \<Rightarrow>
                 (case DecodeWALData w wal of
                    Inl err \<Rightarrow> (S, Return (Some err))
                  | Inr decoded \<Rightarrow> handle_message x parseTime durableSpool (it_persist it) decoded S))
          else (S, Continue))"

text \<open>One turn of the receive loop.\<close>

definition receive_iteration ::
    "externals \<Rightarrow> (string \<Rightarrow> time option) \<Rightarrow> pglogrepl \<Rightarrow> ('e, 's) Spool \<Rightarrow> 'e iteration \<Rightarrow> 's session \<Rightarrow> 's session \<times> flow" where
  "receive_iteration x parseTime w durableSpool it S =
     (case checkDisk False (it_now it) (it_probe it) (ss_r S) of
        (r', paused) \<Rightarrow>
          (let S1 = S\<lparr>ss_r := r'\<rparr>; reset = S1\<lparr>ss_state := Reset (ss_state S1)\<rparr> in
           if paused then (reset, Return (Some ErrPaused))
           else (case it_received it of
                   Inl err \<Rightarrow>
                     if it_cancelled it then (reset, Return None)
                     else (case err of
                             ReceiveTimeout \<Rightarrow> report_status (it_send it) True S1
                           | ReceiveFailed text \<Rightarrow> (reset, Return (Some (ErrTransport text))))
                 | Inr OtherBackend \<Rightarrow> (S1, Continue)
                 | Inr (CopyData data) \<Rightarrow> handle_copy_data x parseTime w durableSpool it data S1)))"

text \<open>The loop over the iterations observed so far; \<open>Continue\<close> means that it is still running.\<close>

fun receive_loop ::
    "externals \<Rightarrow> (string \<Rightarrow> time option) \<Rightarrow> pglogrepl \<Rightarrow> ('e, 's) Spool \<Rightarrow> 'e iteration list \<Rightarrow> 's session \<Rightarrow> 's session \<times> flow" where
  "receive_loop x parseTime w durableSpool [] S = (S, Continue)"
| "receive_loop x parseTime w durableSpool (it # its) S =
     (case receive_iteration x parseTime w durableSpool it S of
        (S', Continue) \<Rightarrow> receive_loop x parseTime w durableSpool its S'
      | (S', stop) \<Rightarrow> (S', stop))"

text \<open>What the server sends depends on the position at which replication was started.\<close>

record 'e attempt =
  at_now :: time
  at_probe :: "64 word option"
  at_start :: start_env
  at_connect :: replication_connect
  at_start_fails :: bool
  at_durable_fails :: bool
  at_iterations :: "lsn \<Rightarrow> 'e iteration list"

definition new_session :: "Replicator \<Rightarrow> lsn \<Rightarrow> 's \<Rightarrow> 's session" where
  "new_session r durable s =
     (let cfg = rp_cfg r in
      \<lparr>ss_r = r\<lparr>rp_connected := True\<rparr>,
       ss_state = NewStateMachine (pg_MessagePrefix (cfg_Postgres cfg)) (sp_MaxEventBytes (cfg_Spool cfg))
         (pg_MaxTransactionEvents (cfg_Postgres cfg)) (pg_MaxTransactionBytes (cfg_Postgres cfg)),
       ss_durableLSN = durable, ss_spool = s, ss_wire = []\<rparr>)"

definition runOnce ::
    "externals \<Rightarrow> (string \<Rightarrow> time option) \<Rightarrow> pglogrepl \<Rightarrow> (string \<Rightarrow> string option) \<Rightarrow> ('e, 's) Spool \<Rightarrow> 'e attempt \<Rightarrow>
     Replicator \<Rightarrow> 's \<Rightarrow> pg_server \<Rightarrow> pg_server \<times> Replicator \<times> 's \<times> StandbyStatusUpdate list \<times> flow" where
  "runOnce x parseTime w env durableSpool a r s server =
     (case checkDisk True (at_now a) (at_probe a) r of
        (r1, paused) \<Rightarrow>
          if paused then (server, r1, s, [], Return (Some ErrPaused))
          else (case PostgreSQLDSN env (rp_cfg r1) of
             Inl err \<Rightarrow> (server, r1, s, [], Return (Some (ErrTransport err)))
           | Inr dsn \<Rightarrow>
              (case startLSN x durableSpool (at_start a) (rp_cfg r1) s server of
                 (server', Inl err) \<Rightarrow> (server', r1, s, [], Return (Some err))
               | (server', Inr start) \<Rightarrow>
                   (case connectReplication (at_connect a) of
                      Some err \<Rightarrow> (server', r1, s, [], Return (Some err))
                    | None \<Rightarrow>
                        if at_start_fails a then (server', r1, s, [], Return (Some (ErrTransport ''start logical replication'')))
                        else (case LastDurableOp durableSpool (at_durable_fails a) s of
                           Inl err \<Rightarrow> (server', r1, s, [], Return (Some (ErrSpool err)))
                         | Inr durable \<Rightarrow>
                             (case receive_loop x parseTime w durableSpool (at_iterations a start)
                                     (new_session r1 (if durable = 0 then start else durable) s) of
                                (S, stop) \<Rightarrow>
                                  (server', (ss_r S)\<lparr>rp_connected := (stop = Continue)\<rparr>, ss_spool S, ss_wire S, stop)))))))"

section \<open>Reconnecting\<close>

definition isFatalCaptureError :: "capture_error \<Rightarrow> bool" where
  "isFatalCaptureError err =
     (case err of
        ErrProtocolState _ \<Rightarrow> True
      | ErrProtectedEvent _ \<Rightarrow> True
      | ErrTransactionLimit _ \<Rightarrow> True
      | ErrSlotMismatch _ \<Rightarrow> True
      | ErrUnsupportedVersion _ \<Rightarrow> True
      | ErrSpool (ErrIdentityConflict _ _) \<Rightarrow> True
      | ErrSpool (ErrDurability _) \<Rightarrow> True
      | _ \<Rightarrow> False)"

text \<open>The world of a round: the server changes on its own between sessions, the context may end,
  the disk wait and the timer may be interrupted; \<open>rd_random\<close> is \<open>rand.Int64N\<close>.\<close>

record 'e round =
  rd_server :: "pg_server \<Rightarrow> pg_server"
  rd_attempt :: "'e attempt"
  rd_cancelled :: bool
  rd_disk_checks :: "(time \<times> 64 word option) list"
  rd_random :: "int \<Rightarrow> int"
  rd_wait_cancelled :: bool

definition next_delay :: "duration \<Rightarrow> duration" where
  "next_delay delay = (if delay < 30 * Second then (let d = delay * 2 in if d > 30 * Second then 30 * Second else d) else delay)"

definition retry_wait :: "duration \<Rightarrow> int \<Rightarrow> duration" where
  "retry_wait delay random = delay + (random - delay div 2)"

text \<open>The rounds of \<open>Run\<close>, with the waits it made between sessions.\<close>

fun run_rounds ::
    "externals \<Rightarrow> (string \<Rightarrow> time option) \<Rightarrow> pglogrepl \<Rightarrow> (string \<Rightarrow> string option) \<Rightarrow> ('e, 's) Spool \<Rightarrow> 'e round list \<Rightarrow>
     duration \<Rightarrow> Replicator \<Rightarrow> 's \<Rightarrow> pg_server \<Rightarrow>
     pg_server \<times> Replicator \<times> 's \<times> StandbyStatusUpdate list \<times> duration list \<times> flow" where
  "run_rounds x parseTime w env durableSpool [] delay r s server = (server, r, s, [], [], Continue)"
| "run_rounds x parseTime w env durableSpool (rd # rds) delay r s server =
     (case runOnce x parseTime w env durableSpool (rd_attempt rd) r s (rd_server rd server) of
        (server', r', s', sent, Crash) \<Rightarrow> (server', r', s', sent, [], Crash)
      | (server', r', s', sent, Continue) \<Rightarrow> (server', r', s', sent, [], Continue)
      | (server', r', s', sent, Return err) \<Rightarrow>
          if rd_cancelled rd then (server', r', s', sent, [], Return None)
          else if err = Some ErrPaused then
            (case waitForDisk (rd_disk_checks rd) r' of
               (r'', False) \<Rightarrow> (server', r'', s', sent, [], Return None)
             | (r'', True) \<Rightarrow>
                 (case run_rounds x parseTime w env durableSpool rds Second r'' s' server' of
                    (sv, r3, s3, sent', waits, stop) \<Rightarrow> (sv, r3, s3, sent @ sent', waits, stop)))
          else if (case err of None \<Rightarrow> False | Some e \<Rightarrow> isFatalCaptureError e) then (server', r', s', sent, [], Return err)
          else if rd_wait_cancelled rd then (server', r', s', sent, [retry_wait delay (rd_random rd delay)], Return None)
          else (case run_rounds x parseTime w env durableSpool rds (next_delay delay) r' s' server' of
                  (sv, r3, s3, sent', waits, stop) \<Rightarrow>
                    (sv, r3, s3, sent @ sent', retry_wait delay (rd_random rd delay) # waits, stop)))"

definition Run_capture ::
    "externals \<Rightarrow> (string \<Rightarrow> time option) \<Rightarrow> pglogrepl \<Rightarrow> (string \<Rightarrow> string option) \<Rightarrow> ('e, 's) Spool \<Rightarrow> 'e round list \<Rightarrow>
     Replicator \<Rightarrow> 's \<Rightarrow> pg_server \<Rightarrow> pg_server \<times> Replicator \<times> 's \<times> StandbyStatusUpdate list \<times> duration list \<times> flow" where
  "Run_capture x parseTime w env durableSpool rds r s server =
     run_rounds x parseTime w env durableSpool rds Second r s server"
section \<open>The contract with the spool\<close>

locale durable_spool = spool_interface "PersistOp ops" checkpoint claims good
  for ops :: "('env, 's) Spool" and checkpoint :: "'s \<Rightarrow> lsn"
    and claims :: "'s \<Rightarrow> ((string \<times> string) \<times> digest) set" and good :: "'s \<Rightarrow> bool" +
  assumes last_durable: "good s \<Longrightarrow> LastDurableOp ops f s = Inr l \<Longrightarrow> l = checkpoint s"
begin

text \<open>Nothing is acknowledged unless the spool holds the batch durably, and what is acknowledged is
  the durable position.\<close>

lemma acknowledged:
  assumes "good s" and "persistThenAcknowledgeWithHooks ops e b (sendStandbyStatus f) h s = (s', sent, res)"
  shows "good s'"
    and "claims s' = claims s \<and> checkpoint s' = checkpoint s \<or>
      claims s' = claims s \<union> batch_claims (cb_Events b) \<and> checkpoint s' = max (checkpoint s) (cb_CommitEndLSN b)"
    and "sent \<noteq> [] \<or> res = Ok r \<Longrightarrow> claims s' = claims s \<union> batch_claims (cb_Events b) \<and>
      checkpoint s' = max (checkpoint s) (cb_CommitEndLSN b)"
    and "set sent \<subseteq> {standbyStatus (checkpoint s')}"
    and "res = Ok r \<Longrightarrow> pr_DurableLSN r = checkpoint s'"
proof -
  obtain res0 where p: "PersistOp ops e b s = (s', res0)"
    using assms(2) by (auto simp: persistThenAcknowledgeWithHooks_def split: prod.splits outcome.splits if_splits option.splits)
  have s': "s' = fst (PersistOp ops e b s)" using p by simp
  show "good s'" unfolding s' by (rule persist_good [OF assms(1)])
  show "claims s' = claims s \<and> checkpoint s' = checkpoint s \<or>
      claims s' = claims s \<union> batch_claims (cb_Events b) \<and> checkpoint s' = max (checkpoint s) (cb_CommitEndLSN b)"
    unfolding s' by (rule persist_all_or_nothing [OF assms(1)])
  have ok: "\<exists>r0. res0 = Ok r0 \<and> set sent \<subseteq> {standbyStatus (pr_DurableLSN r0)} \<and> (\<forall>r. res = Ok r \<longrightarrow> r = r0)"
    if "sent \<noteq> [] \<or> (\<exists>r. res = Ok r)"
    using assms(2) p that
    by (auto simp: persistThenAcknowledgeWithHooks_def sendStandbyStatus_def
        split: outcome.splits if_splits send_fault.splits)
  show "claims s' = claims s \<union> batch_claims (cb_Events b) \<and> checkpoint s' = max (checkpoint s) (cb_CommitEndLSN b)"
    if "sent \<noteq> [] \<or> res = Ok r"
    using ok that p persist_success [OF assms(1)] by blast
  show "set sent \<subseteq> {standbyStatus (checkpoint s')}"
    using ok p persist_success [OF assms(1)] by (cases "sent = []") auto
  show "pr_DurableLSN r = checkpoint s'" if "res = Ok r"
    using ok that p persist_success [OF assms(1)] by auto
qed

lemma persistBatch_cases:
  assumes "persistBatch ops p b r s = (r', s', sent, res)"
  obtains (refused) "s' = s" "sent = []" "\<exists>err. res = Err err"
    | (persisted) "persistThenAcknowledgeWithHooks ops (pp_spool p) b (sendStandbyStatus (pp_send p)) (rp_hooks r') s = (s', sent, res)"
  using assms by (auto simp: persistBatch_def split: if_splits prod.splits)

text \<open>What a session never violates: the positions it reports are at most the durable checkpoint
  of the spool, or the position at which the server started.\<close>

definition session_ok :: "lsn \<Rightarrow> 's session \<Rightarrow> bool" where
  "session_ok from S \<longleftrightarrow> good (ss_spool S) \<and> ss_durableLSN S \<le> max from (checkpoint (ss_spool S)) \<and>
     (\<forall>u \<in> set (ss_wire S). \<exists>l. u = standbyStatus l \<and> l \<le> max from (checkpoint (ss_spool S)))"

lemma report_status_ok:
  assumes "session_ok from S" and "report_status f resets S = (S', stop)"
  shows "session_ok from S'" "ss_spool S' = ss_spool S" "stop = Continue \<Longrightarrow> ss_state S' = ss_state S"
  using assms
  by (auto simp: report_status_def session_ok_def sendStandbyStatus_def Let_def split: send_fault.splits if_splits)

lemma capture_batch_ok:
  assumes "session_ok from S" and "capture_batch ops p b S = (S', stop)"
  shows "session_ok from S'" and "ss_state S' = ss_state S"
    and "claims (ss_spool S') = claims (ss_spool S) \<and> checkpoint (ss_spool S') = checkpoint (ss_spool S) \<or>
      claims (ss_spool S') = claims (ss_spool S) \<union> batch_claims (cb_Events b) \<and>
        checkpoint (ss_spool S') = max (checkpoint (ss_spool S)) (cb_CommitEndLSN b)"
    and "stop = Continue \<Longrightarrow> claims (ss_spool S') = claims (ss_spool S) \<union> batch_claims (cb_Events b) \<and>
        checkpoint (ss_spool S') = max (checkpoint (ss_spool S)) (cb_CommitEndLSN b)"
proof -
  obtain r' s' sent res where p: "persistBatch ops p b (ss_r S) (ss_spool S) = (r', s', sent, res)"
    by (metis prod_cases4)
  have good: "good (ss_spool S)" using assms(1) by (simp add: session_ok_def)
  have S': "ss_spool S' = s'" "ss_wire S' = ss_wire S @ sent" "ss_state S' = ss_state S"
    "ss_durableLSN S' = (case res of Ok r \<Rightarrow> pr_DurableLSN r | _ \<Rightarrow> ss_durableLSN S)"
    "stop = Continue \<longleftrightarrow> (\<exists>r. res = Ok r)"
    using assms(2) p by (auto simp: capture_batch_def Let_def split: outcome.splits)
  show "ss_state S' = ss_state S" by (rule S'(3))
  have "(good s' \<and> checkpoint (ss_spool S) \<le> checkpoint s' \<and> set sent \<subseteq> {standbyStatus (checkpoint s')} \<and>
      (\<forall>r. res = Ok r \<longrightarrow> pr_DurableLSN r = checkpoint s')) \<and>
    (claims s' = claims (ss_spool S) \<and> checkpoint s' = checkpoint (ss_spool S) \<or>
      claims s' = claims (ss_spool S) \<union> batch_claims (cb_Events b) \<and>
        checkpoint s' = max (checkpoint (ss_spool S)) (cb_CommitEndLSN b)) \<and>
    (\<forall>r. res = Ok r \<longrightarrow> claims s' = claims (ss_spool S) \<union> batch_claims (cb_Events b) \<and>
        checkpoint s' = max (checkpoint (ss_spool S)) (cb_CommitEndLSN b))"
    using p
  proof (cases rule: persistBatch_cases)
    case refused
    then show ?thesis using good by auto
  next
    case persisted
    note a = acknowledged [OF good persisted]
    have "checkpoint (ss_spool S) \<le> checkpoint s'" using a(2) by (metis max.cobounded1 order_refl)
    with a show ?thesis by blast
  qed
  note facts = this
  show "claims (ss_spool S') = claims (ss_spool S) \<and> checkpoint (ss_spool S') = checkpoint (ss_spool S) \<or>
      claims (ss_spool S') = claims (ss_spool S) \<union> batch_claims (cb_Events b) \<and>
        checkpoint (ss_spool S') = max (checkpoint (ss_spool S)) (cb_CommitEndLSN b)"
    using facts S' by blast
  show "claims (ss_spool S') = claims (ss_spool S) \<union> batch_claims (cb_Events b) \<and>
        checkpoint (ss_spool S') = max (checkpoint (ss_spool S)) (cb_CommitEndLSN b)" if "stop = Continue"
    using facts S' that by blast
  have up: "l \<le> max from (checkpoint s')" if "l \<le> max from (checkpoint (ss_spool S))" for l
    using that facts by (meson max.mono order_refl order_trans)
  have "ss_durableLSN S' \<le> max from (checkpoint s')"
    using facts S'(4) up assms(1) by (cases res) (auto simp: session_ok_def)
  moreover have "\<exists>l. u = standbyStatus l \<and> l \<le> max from (checkpoint s')" if "u \<in> set (ss_wire S')" for u
    using that facts assms(1) up unfolding S'(2) session_ok_def by fastforce
  ultimately show "session_ok from S'" using facts by (simp add: session_ok_def S'(1))
qed

end

text \<open>The decoded message that an iteration hands to the state machine, if any.\<close>

definition message_of :: "pglogrepl \<Rightarrow> 'e iteration \<Rightarrow> pg_message option" where
  "message_of w it =
     (case it_received it of
        Inr (CopyData (c # body)) \<Rightarrow>
          if c = CHR ''w'' then Option.bind (ParseXLogData w body) (Parse w) else None
      | _ \<Rightarrow> None)"

definition delivered :: "pglogrepl \<Rightarrow> 'e iteration list \<Rightarrow> pg_message list" where
  "delivered w its = List.map_filter (message_of w) its"

lemma delivered_simps [simp]:
  "delivered w [] = []"
  "delivered w (it # its) = (case message_of w it of None \<Rightarrow> delivered w its | Some m \<Rightarrow> m # delivered w its)"
  by (simp_all add: delivered_def split: option.split)

lemma handle_copy_data_message:
  assumes "it_received it = Inr (CopyData data)" and "message_of w it = Some m"
  shows "handle_copy_data x parseTime w ops it data S = handle_message x parseTime ops (it_persist it) m S"
  using assms
  by (auto simp: message_of_def handle_copy_data_def DecodeWALData_def split: list.splits if_splits bind_splits)

context durable_spool
begin

lemma handle_copy_data_idle:
  assumes "session_ok from S" and "handle_copy_data x parseTime w ops it data S = (S', stop)"
    and "it_received it = Inr (CopyData data)" and "message_of w it = None"
  shows "session_ok from S'" "ss_spool S' = ss_spool S" "stop = Continue \<Longrightarrow> ss_state S' = ss_state S"
  using assms report_status_ok [OF assms(1), of "it_send it" False]
  by (auto simp: message_of_def handle_copy_data_def DecodeWALData_def split: list.splits if_splits option.splits)

lemma session_ok_r [simp]: "session_ok from (S\<lparr>ss_r := r\<rparr>) = session_ok from S"
  "session_ok from (S\<lparr>ss_state := m\<rparr>) = session_ok from S"
  by (simp_all add: session_ok_def)

lemma receive_iteration_cases:
  assumes "session_ok from S" and "receive_iteration x parseTime w ops it S = (S', stop)"
  obtains (idle) "session_ok from S'" "ss_spool S' = ss_spool S"
      "stop = Continue \<longrightarrow> ss_state S' = ss_state S \<and> message_of w it = None"
    | (message) m r where "message_of w it = Some m"
      "handle_message x parseTime ops (it_persist it) m (S\<lparr>ss_r := r\<rparr>) = (S', stop)"
proof -
  obtain r paused where c: "checkDisk False (it_now it) (it_probe it) (ss_r S) = (r, paused)" by fastforce
  let ?S = "S\<lparr>ss_r := r\<rparr>"
  have ok: "session_ok from ?S" using assms(1) by simp
  note unfold = assms(2) [unfolded receive_iteration_def c]
  show thesis
  proof (cases paused)
    case True
    then show thesis using unfold ok by (intro idle) (auto simp: Let_def)
  next
    case False
    show thesis
    proof (cases "it_received it")
      case (Inl err)
      then have "message_of w it = None" by (simp add: message_of_def)
      then show thesis
        using unfold False Inl ok report_status_ok [OF ok, of "it_send it" True S' stop]
        by (intro idle) (auto simp: Let_def split: if_splits receive_error.splits)
    next
      case (Inr b)
      show thesis
      proof (cases b)
        case OtherBackend
        then show thesis using unfold False Inr ok by (intro idle) (auto simp: Let_def message_of_def)
      next
        case (CopyData data)
        have h: "handle_copy_data x parseTime w ops it data ?S = (S', stop)"
          using unfold False Inr CopyData by (simp add: Let_def)
        have rec: "it_received it = Inr (CopyData data)" using Inr CopyData by simp
        show thesis
        proof (cases "message_of w it")
          case None
          then show thesis using handle_copy_data_idle [OF ok h rec None] by (intro idle) auto
        next
          case (Some m)
          then show thesis using h handle_copy_data_message [OF rec Some, of x parseTime ops ?S] by (intro message) auto
        qed
      qed
    qed
  qed
qed

lemma handle_message_ok:
  assumes "session_ok from S" and "handle_message x parseTime ops p m S = (S', stop)"
  shows "session_ok from S'"
  using assms capture_batch_ok(1) [of "from" "S\<lparr>ss_state := state'\<rparr>" p for state']
  by (auto simp: handle_message_def split: prod.splits sum.splits option.splits)

lemma handle_message_grows:
  assumes "session_ok from S" and "handle_message x parseTime ops p m S = (S', stop)"
  shows "checkpoint (ss_spool S) \<le> checkpoint (ss_spool S') \<and> claims (ss_spool S) \<subseteq> claims (ss_spool S')"
proof (cases "\<exists>state' b. Consume x parseTime m (ss_state S) = (state', Inr (Some b))")
  case True
  then obtain state' b where "capture_batch ops p b (S\<lparr>ss_state := state'\<rparr>) = (S', stop)"
    using assms(2) by (auto simp: handle_message_def)
  from capture_batch_ok(3) [OF _ this] assms(1) show ?thesis by (metis Un_upper1 max.cobounded1 order_refl
      session.select_convs(4) session.update_convs(2) session.surjective session_ok_r(2))
next
  case False
  then show ?thesis
    using assms(2) by (auto simp: handle_message_def split: prod.splits sum.splits option.splits)
qed

lemma receive_iteration_ok:
  assumes "session_ok from S" and "receive_iteration x parseTime w ops it S = (T, stop)"
  shows "session_ok from T \<and> checkpoint (ss_spool S) \<le> checkpoint (ss_spool T) \<and> claims (ss_spool S) \<subseteq> claims (ss_spool T)"
  using assms
proof (cases rule: receive_iteration_cases)
  case (message m r)
  have "session_ok from (S\<lparr>ss_r := r\<rparr>)" using assms(1) by simp
  from handle_message_ok [OF this message(2)] handle_message_grows [OF this message(2)] show ?thesis by simp
qed simp

lemma receive_loop_ok:
  assumes "session_ok from S" and "receive_loop x parseTime w ops its S = (S', stop)"
  shows "session_ok from S' \<and> checkpoint (ss_spool S) \<le> checkpoint (ss_spool S') \<and> claims (ss_spool S) \<subseteq> claims (ss_spool S')"
  using assms
proof (induction its arbitrary: S)
  case (Cons it its)
  obtain T f where step: "receive_iteration x parseTime w ops it S = (T, f)" by fastforce
  note ok = receive_iteration_ok [OF Cons.prems(1) step]
  show ?case
  proof (cases "f = Continue")
    case True
    then have "receive_loop x parseTime w ops its T = (S', stop)" using Cons.prems(2) step by simp
    from Cons.IH [OF _ this] ok show ?thesis by (meson order_trans)
  next
    case False
    then have "S' = T" using Cons.prems(2) step by (cases f) auto
    then show ?thesis using ok by simp
  qed
qed simp

lemma new_session_ok [simp]:
  "good s \<Longrightarrow> durable \<le> max from (checkpoint s) \<Longrightarrow> session_ok from (new_session r durable s)"
  by (simp add: session_ok_def new_session_def Let_def)

text \<open>A session either ends before it talks to the server, or runs the loop from a start position.\<close>

lemma runOnce_cases:
  assumes "good s" and "runOnce x parseTime w env ops a r s server = (server', r', s', sent, stop)"
  obtains (early) "s' = s" "sent = []" "\<exists>err. stop = Return (Some err)"
    | (streamed) r1 start S where "startLSN x ops (at_start a) (rp_cfg r1) s server = (server', Inr start)" "rp_cfg r1 = rp_cfg r"
      "receive_loop x parseTime w ops (at_iterations a start)
         (new_session r1 (if checkpoint s = 0 then start else checkpoint s) s) = (S, stop)"
      "s' = ss_spool S" "sent = ss_wire S"
proof -
  obtain r1 paused where c: "checkDisk True (at_now a) (at_probe a) r = (r1, paused)" by fastforce
  have cfg: "rp_cfg r1 = rp_cfg r" using c by (auto simp: checkDisk_def split: prod.splits)
  note run = assms(2) [unfolded runOnce_def c]
  show thesis
  proof (cases "paused \<or> (\<exists>err. PostgreSQLDSN env (rp_cfg r1) = Inl err)")
    case True
    then show thesis using run by (intro early) (auto split: sum.splits if_splits)
  next
    case False
    then obtain dsn where dsn: "\<not> paused" "PostgreSQLDSN env (rp_cfg r1) = Inr dsn"
      by (cases "PostgreSQLDSN env (rp_cfg r1)") auto
    obtain server1 res where start: "startLSN x ops (at_start a) (rp_cfg r1) s server = (server1, res)" by fastforce
    show thesis
    proof (cases "(\<exists>err. res = Inl err) \<or> connectReplication (at_connect a) \<noteq> None \<or> at_start_fails a \<or>
        (\<exists>err. LastDurableOp ops (at_durable_fails a) s = Inl err)")
      case True
      then show thesis using run dsn start by (intro early) (auto split: sum.splits option.splits if_splits)
    next
      case False
      then obtain l durable where l: "res = Inr l" "connectReplication (at_connect a) = None" "\<not> at_start_fails a"
        "LastDurableOp ops (at_durable_fails a) s = Inr durable"
        by (cases res; cases "LastDurableOp ops (at_durable_fails a) s") auto
      have "durable = checkpoint s" using last_durable [OF assms(1) l(4)] .
      moreover obtain S f where loop: "receive_loop x parseTime w ops (at_iterations a l)
         (new_session r1 (if durable = 0 then l else durable) s) = (S, f)" by fastforce
      ultimately show thesis
        using run dsn start l cfg by (intro streamed [of r1 l S]) auto
    qed
  qed
qed

end
section \<open>The SQLite spool behind the interface\<close>

definition sqlite_Spool :: "externals \<Rightarrow> (Hooks \<times> persist_env, db) Spool" where
  "sqlite_Spool x = \<lparr>PersistOp = sqlite_persist x, LastDurableOp = LastDurableLSN x\<rparr>"

lemma sqlite_Spool_simps [simp]:
  "PersistOp (sqlite_Spool x) = sqlite_persist x" "LastDurableOp (sqlite_Spool x) = LastDurableLSN x"
  by (simp_all add: sqlite_Spool_def)

lemma LastDurableLSN_value:
  "lsn_codec x \<Longrightarrow> db_inv x d \<Longrightarrow> LastDurableLSN x f d = Inr l \<Longrightarrow> l = durable_lsn x d"
  by (auto simp: LastDurableLSN_def durable_lsn_def lastDurableLSNTx_def split: if_splits option.splits)

interpretation sqlite_durable: durable_spool "sqlite_Spool x" "durable_lsn x" stored_claims
  "\<lambda>d. lsn_codec x \<and> db_inv x d" for x
proof (intro durable_spool.intro durable_spool_axioms.intro)
  show "spool_interface (PersistOp (sqlite_Spool x)) (durable_lsn x) stored_claims (\<lambda>d. lsn_codec x \<and> db_inv x d)"
    unfolding sqlite_Spool_simps by (rule sqlite_spool.spool_interface_axioms)
qed (auto intro: LastDurableLSN_value)

section \<open>Properties\<close>

text \<open>(C2) Persist, then acknowledge: whatever fails, and wherever the process stops, a position is
  acknowledged only when the SQLite transaction with the whole batch has committed, and then it
  is the durable checkpoint, at or past the end of the transaction.\<close>

theorem acknowledge_after_durable:
  assumes "lsn_codec x" and "db_inv x d"
    and "persistThenAcknowledgeWithHooks (sqlite_Spool x) e b (sendStandbyStatus f) h d = (d', sent, res)"
    and "u \<in> set sent"
  shows "u = \<lparr>sb_WALWritePosition = durable_lsn x d', sb_WALFlushPosition = durable_lsn x d',
      sb_WALApplyPosition = durable_lsn x d'\<rparr> \<and>
    batch_claims (cb_Events b) \<subseteq> stored_claims d' \<and> cb_CommitEndLSN b \<le> durable_lsn x d'"
proof -
  have "sent \<noteq> []" using assms(4) by auto
  with sqlite_durable.acknowledged [of x, OF _ assms(3)] assms(1,2,4)
  show ?thesis by (auto simp: standbyStatus_def)
qed

text \<open>(C16) Every status update of a session, after a batch, on a keepalive or on a timeout, reports
  the same position for write, flush and apply, and that is never past the durable checkpoint of
  the spool; only with a spool that has no checkpoint yet it may be the start position that came
  from the slot itself. The WAL end that a keepalive names plays no part.\<close>

theorem session_reports_durable:
  assumes "lsn_codec x" and "db_inv x d"
    and "runOnce x parseTime w env (sqlite_Spool x) a r d server = (server', r', d', sent, stop)"
    and "u \<in> set sent"
  shows "db_inv x d' \<and> (\<exists>l. u = standbyStatus l \<and> (l \<le> durable_lsn x d' \<or>
    durable_lsn x d = 0 \<and> (\<exists>start. startLSN x (sqlite_Spool x) (at_start a) (rp_cfg r) d server = (server', Inr start) \<and> l \<le> start)))"
proof -
  have good: "lsn_codec x \<and> db_inv x d" using assms(1,2) by simp
  show ?thesis
    using good assms(3)
  proof (cases rule: sqlite_durable.runOnce_cases)
    case early
    then show ?thesis using assms(4) by simp
  next
    case (streamed r1 start S)
    let ?from = "if durable_lsn x d = 0 then start else durable_lsn x d"
    have loop: "sqlite_durable.session_ok x ?from S \<and>
        durable_lsn x (ss_spool (new_session r1 ?from d)) \<le> durable_lsn x (ss_spool S)"
      using sqlite_durable.receive_loop_ok [OF sqlite_durable.new_session_ok [OF good] streamed(3), of ?from] by simp
    then obtain l where l: "db_inv x d'" "u = standbyStatus l" "l \<le> max ?from (durable_lsn x d')"
      using assms(4) streamed(4,5) by (auto simp: sqlite_durable.session_ok_def)
    have "durable_lsn x d \<le> durable_lsn x d'"
      using loop streamed(4) by (simp add: new_session_def Let_def)
    then show ?thesis
      using l streamed(1,2) by (auto simp: le_max_iff_disj split: if_splits)
  qed
qed

text \<open>(C29) Low disk space stops capture before it writes: with the guard enabled, a batch changes the
  spool, is acknowledged or succeeds only right after a successful measurement at or above the
  pause threshold, and at or above the resume threshold when capture was paused.\<close>

theorem capture_admission:
  assumes "persistBatch durableSpool p b r s = (r', s', sent, res)" and "dk_Enabled (gd_status (rp_disk r))"
    and "s' \<noteq> s \<or> sent \<noteq> [] \<or> (\<exists>result. res = Ok result)"
  shows "\<not> pp_cancelled p \<and> (\<exists>available. pp_probe p = Some available \<and>
      word_of_int (dk_PauseBelowBytes (gd_status (rp_disk r))) \<le> available \<and>
      (dk_Paused (gd_status (rp_disk r)) \<longrightarrow> word_of_int (dk_ResumeAtBytes (gd_status (rp_disk r))) \<le> available))"
  using assms
  by (auto simp: persistBatch_def checkDisk_def Check_def probed_def Let_def not_less split: if_splits option.splits prod.splits)

lemma next_delay_bounds: "Second \<le> delay \<Longrightarrow> delay \<le> 30 * Second \<Longrightarrow> Second \<le> next_delay delay \<and> next_delay delay \<le> 30 * Second"
  by (auto simp: next_delay_def Let_def)

lemma retry_wait_bounds:
  assumes "Second \<le> delay" and "delay \<le> 30 * Second" and "0 \<le> k" and "k < delay"
  shows "Second div 2 \<le> retry_wait delay k \<and> retry_wait delay k < 45 * Second"
  using assms by (auto simp: retry_wait_def duration_defs)

lemma run_rounds_waits:
  assumes "run_rounds x parseTime w env ops rds delay r s server = (server', r', s', sent, waits, stop)"
    and "\<And>rd n. rd \<in> set rds \<Longrightarrow> 0 < n \<Longrightarrow> 0 \<le> rd_random rd n \<and> rd_random rd n < n"
    and "Second \<le> delay" and "delay \<le> 30 * Second" and "v \<in> set waits"
  shows "Second div 2 \<le> v \<and> v < 45 * Second"
  using assms
proof (induction rds arbitrary: delay r s server sent waits)
  case (Cons rd rds)
  obtain server1 r1 s1 sent1 f where run: "runOnce x parseTime w env ops (rd_attempt rd) r s (rd_server rd server) = (server1, r1, s1, sent1, f)"
    by (metis prod_cases5)
  have wait: "Second div 2 \<le> retry_wait delay (rd_random rd delay) \<and> retry_wait delay (rd_random rd delay) < 45 * Second"
    using retry_wait_bounds [OF Cons.prems(3,4)] Cons.prems(2) [of rd delay] Cons.prems(3) by (simp add: duration_defs)
  have second: "Second \<le> Second" "Second \<le> 30 * Second" by (simp_all add: duration_defs)
  note unfold = Cons.prems(1) [unfolded run_rounds.simps run]
  have rnd: "0 \<le> rd_random rd n \<and> rd_random rd n < n" if "rd \<in> set rds" "0 < n" for rd n
    using Cons.prems(2) that by simp
  note nd = next_delay_bounds [OF Cons.prems(3,4)]
  note again = Cons.IH [OF _ _ second] and later = Cons.IH [OF _ _ conjunct1 [OF nd] conjunct2 [OF nd]]
  show ?case
  proof (cases f)
    case (Return err)
    show ?thesis
    proof (cases "err = Some ErrPaused \<and> \<not> rd_cancelled rd")
      case True
      then have "\<exists>r2 sent'. run_rounds x parseTime w env ops rds Second r2 s1 server1 = (server', r', s', sent', waits, stop)"
        using unfold Return Cons.prems(5) by (auto split: prod.splits bool.splits)
      then show ?thesis using again rnd Cons.prems(5) by blast
    next
      case False
      then have "v = retry_wait delay (rd_random rd delay) \<or>
          (\<exists>sv r3 s3 sent' waits' stop'. run_rounds x parseTime w env ops rds (next_delay delay) r1 s1 server1 =
             (sv, r3, s3, sent', waits', stop') \<and> v \<in> set waits' \<and> (sv, r3, s3, stop') = (server', r', s', stop))"
        using unfold Return Cons.prems(5) by (auto split: prod.splits if_splits)
      then show ?thesis using wait later rnd by blast
    qed
  qed (use unfold Cons.prems(5) in auto)
qed simp

text \<open>The pause before a reconnection always lies between half a second and 45 seconds, with any
  sequence of failures, provided that the random source keeps its documented range.\<close>

theorem Run_waits:
  assumes "Run_capture x parseTime w env durableSpool rds r s server = (server', r', s', sent, waits, stop)"
    and "\<forall>rd \<in> set rds. \<forall>n > 0. 0 \<le> rd_random rd n \<and> rd_random rd n < n" and "v \<in> set waits"
  shows "Second div 2 \<le> v \<and> v < 45 * Second"
  using run_rounds_waits [OF assms(1) [unfolded Run_capture_def]] assms(2,3) by (simp add: duration_defs)

lemma run_rounds_stops:
  assumes "run_rounds x parseTime w env ops rds delay r s server = (server', r', s', sent, waits, Return (Some err))"
  shows "isFatalCaptureError err"
  using assms
proof (induction rds arbitrary: delay r s server sent waits)
  case (Cons rd rds)
  obtain server1 r1 s1 sent1 f where run: "runOnce x parseTime w env ops (rd_attempt rd) r s (rd_server rd server) = (server1, r1, s1, sent1, f)"
    by (metis prod_cases5)
  note unfold = Cons.prems [unfolded run_rounds.simps run]
  show ?case
    using unfold by (cases f) (auto split: prod.splits if_splits bool.splits option.splits intro: Cons.IH)
qed simp

text \<open>Capture gives up only on an error that replay cannot cure: a protocol or slot mismatch, an
  invalid protected event, a limit, an unsupported version, an identity conflict or a durability
  failure. Every other error leads to another session.\<close>

theorem Run_stops:
  assumes "Run_capture x parseTime w env durableSpool rds r s server = (server', r', s', sent, waits, Return (Some err))"
  shows "isFatalCaptureError err"
  by (rule run_rounds_stops [OF assms [unfolded Run_capture_def]])

text \<open>A slot that is missing while it must not be created is not among them: the session ends with
  an error that is retried.\<close>

lemma missing_slot_retried:
  assumes "sv_slots server (pg_Slot (cfg_Postgres cfg)) = None" and "\<not> pg_CreateSlotIfMissing (cfg_Postgres cfg)"
    and "sn_connect e = None" and "\<not> sn_read_fails e"
  shows "\<exists>err. startLSN x durableSpool e cfg s server = (server, Inl err) \<and> \<not> isFatalCaptureError err"
  using assms by (simp add: startLSN_def start_slot_def readSlot_def no_slot_def isFatalCaptureError_def Let_def)

section \<open>A concrete session\<close>

definition capture_config :: Config where
  "capture_config = example_config\<lparr>cfg_Postgres := (cfg_Postgres example_config)
       \<lparr>pg_MaxTransactionEvents := 10000, pg_MaxTransactionBytes := 8388608\<rparr>,
     cfg_Spool := (cfg_Spool example_config)\<lparr>sp_MaxEventBytes := 262144\<rparr>\<rparr>"

definition example_wire :: pglogrepl where
  "example_wire = \<lparr>ParsePrimaryKeepaliveMessage = (\<lambda>_. Some (900, True)), ParseXLogData = Some,
     Parse = (\<lambda>data. if data = ''B'' then Some (PgBegin 77) else if data = ''M'' then Some (PgLogical example_message)
       else if data = ''C'' then Some (PgCommit example_commit) else None)\<rparr>"

definition quiet_start :: start_env where
  "quiet_start = \<lparr>sn_connect = None, sn_read_fails = False, sn_close_fails = False, sn_create = quiet_setup,
     sn_reconnect = None, sn_reread_fails = False, sn_version_fails = False, sn_local_fails = False\<rparr>"

definition quiet_point :: "(Hooks \<times> persist_env) persist_point" where
  "quiet_point = \<lparr>pp_cancelled = False, pp_now = 1, pp_probe = Some 500, pp_spool = (no_hooks, quiet_env),
     pp_send = SendOk, pp_unix = 9\<rparr>"

definition quiet_iteration :: "bytes \<Rightarrow> (Hooks \<times> persist_env) iteration" where
  "quiet_iteration data = \<lparr>it_now = 1, it_probe = Some 500, it_received = Inr (CopyData data), it_cancelled = False,
     it_send = SendOk, it_persist = quiet_point\<rparr>"

definition quiet_attempt :: "bytes list \<Rightarrow> (Hooks \<times> persist_env) attempt" where
  "quiet_attempt datas = \<lparr>at_now = 1, at_probe = Some 500, at_start = quiet_start, at_connect = ReplConnected,
     at_start_fails = False, at_durable_fails = False, at_iterations = (\<lambda>_. map quiet_iteration datas)\<rparr>"

definition ready_server :: pg_server where
  "ready_server = new_slot ''writerelay'' (bits_string 7) (create_publication ''writerelay'' (install_emit fresh_server))"

abbreviation example_run where
  "example_run datas d \<equiv> runOnce example_externals (\<lambda>_. None) example_wire (\<lambda>_. Some ''host=db'')
     (sqlite_Spool example_externals) (quiet_attempt datas) (NewReplicator capture_config) d ready_server"

lemmas session_defs = runOnce_def connectReplication_def startLSN_def start_slot_def readSlot_def parse_slot_lsn_def choose_start_def
  validateServerVersion_def validateSlot_def PostgreSQLDSN_def checkDisk_def Check_def probed_def NewWithProbe_def
  NewReplicator_def NewReplicatorWithHooks_def new_session_def receive_iteration_def handle_copy_data_def
  report_status_def sendStandbyStatus_def DecodeWALData_def LastDurableLSN_def

lemmas example_session_defs = capture_config_def example_wire_def quiet_start_def quiet_point_def quiet_iteration_def
  quiet_attempt_def ready_server_def new_slot_def create_publication_def install_emit_def fresh_server_def
  example_config_def duration_defs

lemma example_keepalive:
  "\<exists>r. example_run [''k''] captured_db = (ready_server, r, captured_db, [standbyStatus 120], Continue)"
  by (simp add: session_defs example_session_defs example_defs Let_def zero_time_def parse_bits_string)

lemma example_payload_short: "length example_payload \<le> 100"
  by code_simp

definition session_batch :: CommittedBatch where
  "session_batch = transaction_batch 77 example_commit [buffered_event example_externals example_meta example_message]"

lemma example_consume:
  assumes "s = NewStateMachine ''writerelay.v1'' 262144 10000 8388608"
    and "s1 = s\<lparr>sm_inTransaction := True, sm_transactionID := 77\<rparr>"
    and "s2 = buffer_events [buffered_event example_externals example_meta example_message] s1"
  shows "Consume example_externals (\<lambda>_. None) (PgBegin 77) s = (s1, Inr None)"
    "Consume example_externals (\<lambda>_. None) (PgLogical example_message) s1 = (s2, Inr None)"
    "Consume example_externals (\<lambda>_. None) (PgCommit example_commit) s2 = (s, Inr (Some session_batch))"
  using example_payload_short example_message_valid
  by (auto simp: assms Consume_def consumeLogicalMessage_def buffer_events_def NewStateMachine_def example_message_def
      example_machine_def Reset_def session_batch_def transaction_batch_def commit_batch_def)

lemma session_batch_end [simp]: "cb_CommitEndLSN session_batch = 120"
  by (simp add: session_batch_def transaction_batch_def example_commit_def)

definition session_db :: db where
  "session_db = example_db\<lparr>db_metadata := [durableLSNKey \<mapsto> bits_string 120],
     db_events := [captured_row example_externals (hd (cb_Events session_batch)) 1 10], db_events_seq := 1,
     db_deliveries := [new_delivery 1 1 10]\<rparr>"

lemma example_session_persist:
  "sqlite_persist example_externals (no_hooks, quiet_env) session_batch example_db =
     (session_db, Ok \<lparr>pr_Inserted = 1, pr_Replayed = 0, pr_DurableLSN = 120\<rparr>)"
  by (simp add: sqlite_persist_def example_defs capture_defs session_db_def session_batch_def transaction_batch_def
      stamp_def buffered_event_def example_meta_def example_commit_def example_message_def)

lemma example_capture:
  "\<exists>r. example_run [''wB'', ''wM'', ''wC''] example_db = (ready_server, r, session_db, [standbyStatus 120], Continue)"
proof -
  note c = example_consume [OF refl refl refl]
  have last: "LastDurableLSN example_externals False example_db = Inr 0"
    by (simp add: LastDurableLSN_def example_defs)
  have lsn: "ParseLSN example_externals (bits_string l) = Some l" for l
    by (simp add: example_externals_def parse_bits_string)
  show ?thesis
    using c
    by (simp add: runOnce_def connectReplication_def startLSN_def start_slot_def readSlot_def parse_slot_lsn_def choose_start_def
        validateServerVersion_def validateSlot_def PostgreSQLDSN_def checkDisk_def Check_def probed_def NewWithProbe_def
        NewReplicator_def NewReplicatorWithHooks_def new_session_def receive_iteration_def handle_copy_data_def
        sendStandbyStatus_def DecodeWALData_def handle_message_def capture_batch_def persistBatch_def
        persistThenAcknowledgeWithHooks_def last example_session_persist
        example_session_defs lsn Let_def zero_time_def)
qed

lemma example_codec: "lsn_codec example_externals"
  by (simp add: lsn_codec_def example_externals_def parse_bits_string)

theorem acknowledge_after_durable_witness:
  "batch_claims (cb_Events session_batch) \<subseteq> stored_claims session_db \<and> 120 \<le> durable_lsn example_externals session_db"
  using acknowledge_after_durable [OF example_codec example_db_inv, of "(no_hooks, quiet_env)" session_batch SendOk no_hooks
      session_db "[standbyStatus 120]" _ "standbyStatus 120"]
  by (simp add: persistThenAcknowledgeWithHooks_def example_session_persist sendStandbyStatus_def standbyStatus_def)

theorem session_reports_durable_witness: "db_inv example_externals session_db"
proof -
  obtain r where run: "example_run [''wB'', ''wM'', ''wC''] example_db = (ready_server, r, session_db, [standbyStatus 120], Continue)"
    using example_capture by blast
  show ?thesis using session_reports_durable [OF example_codec example_db_inv run] by simp
qed

theorem capture_admission_witness: "\<exists>available. pp_probe quiet_point = Some available \<and> (100 :: 64 word) \<le> available"
proof -
  let ?r = "NewReplicator capture_config"
  obtain r' where p: "persistBatch (sqlite_Spool example_externals) quiet_point session_batch ?r example_db =
      (r', session_db, [standbyStatus 120], Ok \<lparr>pr_Inserted = 1, pr_Replayed = 0, pr_DurableLSN = 120\<rparr>)"
    by (simp add: persistBatch_def quiet_point_def checkDisk_def Check_def probed_def NewReplicator_def
        NewReplicatorWithHooks_def NewWithProbe_def capture_config_def example_config_def zero_time_def duration_defs
        persistThenAcknowledgeWithHooks_def example_session_persist sendStandbyStatus_def Let_def)
  have g: "dk_Enabled (gd_status (rp_disk ?r))" "dk_PauseBelowBytes (gd_status (rp_disk ?r)) = 100"
    by (simp_all add: NewReplicator_def NewReplicatorWithHooks_def NewWithProbe_def capture_config_def example_config_def)
  show ?thesis using capture_admission [OF p g(1)] by (auto simp: g)
qed

text \<open>The slot is gone: every session fails, and the context ends during the second wait.\<close>

definition failing_round :: "bool \<Rightarrow> (Hooks \<times> persist_env) round" where
  "failing_round cancelled = \<lparr>rd_server = (\<lambda>server. server\<lparr>sv_slots := Map.empty\<rparr>), rd_attempt = quiet_attempt [],
     rd_cancelled = False, rd_disk_checks = [], rd_random = (\<lambda>n. n - 1), rd_wait_cancelled = cancelled\<rparr>"

lemma example_retries:
  "\<exists>server' r. Run_capture example_externals (\<lambda>_. None) example_wire (\<lambda>_. Some ''host=db'') (sqlite_Spool example_externals)
     [failing_round False, failing_round True] (NewReplicator capture_config) example_db ready_server =
   (server', r, example_db, [], [1499999999, 2999999999], Return None)"
  by (simp add: Run_capture_def failing_round_def next_delay_def retry_wait_def isFatalCaptureError_def no_slot_def
      session_defs example_session_defs Let_def zero_time_def)

theorem Run_waits_witness: "Second div 2 \<le> 2999999999 \<and> 2999999999 < 45 * Second"
proof -
  obtain server' r where "Run_capture example_externals (\<lambda>_. None) example_wire (\<lambda>_. Some ''host=db'') (sqlite_Spool example_externals)
     [failing_round False, failing_round True] (NewReplicator capture_config) example_db ready_server =
     (server', r, example_db, [], [1499999999, 2999999999], Return None)" using example_retries by blast
  from Run_waits [OF this, of 2999999999] show ?thesis by (simp add: failing_round_def)
qed

text \<open>A server of an unsupported version stops capture at once.\<close>

definition old_round :: "(Hooks \<times> persist_env) round" where
  "old_round = (failing_round False)\<lparr>rd_server := (\<lambda>server. server\<lparr>sv_version := 130000\<rparr>)\<rparr>"

theorem Run_stops_witness: "isFatalCaptureError (ErrUnsupportedVersion (Itoa 130000))"
proof -
  have "\<exists>server' r. Run_capture example_externals (\<lambda>_. None) example_wire (\<lambda>_. Some ''host=db'') (sqlite_Spool example_externals)
     [old_round] (NewReplicator capture_config) example_db ready_server =
    (server', r, example_db, [], [], Return (Some (ErrUnsupportedVersion (Itoa 130000))))"
    by (simp add: Run_capture_def old_round_def failing_round_def isFatalCaptureError_def
      session_defs example_session_defs example_externals_def parse_bits_string Let_def zero_time_def)
  then show ?thesis by (elim exE) (erule Run_stops)
qed

end
