(* ===== verification/Delivery_Types.thy ===== *)
theory Delivery_Types
  imports Prelude
begin

text \<open>
  The types of \<open>internal/delivery/delivery.go\<close> that the delivery worker, its sinks and the
  spool exchange.
\<close>

record SinkRegistration =
  sr_Name :: string
  sr_Type :: string
  sr_ConfigSHA256 :: digest

record Delivery =
  dv_EventSequence :: int
  dv_SinkID :: int
  dv_SinkName :: string
  dv_SinkType :: string
  dv_Source :: string
  dv_ID :: string
  dv_Type :: string
  dv_Subject :: string
  dv_Payload :: bytes
  dv_Attempts :: int

record AttemptResult =
  ar_Success :: bool
  ar_Retryable :: bool
  ar_RetryAfter :: duration
  ar_StatusCode :: int
  ar_Failure :: string

end
