(* ===== verification/Store_Sinks.thy ===== *)
theory Store_Sinks
  imports Store_Capture Delivery_Types
begin

text \<open>
  Sink registration at daemon start: \<open>ConfigureSinks\<close> of \<open>internal/spool/sqlite/sqlite.go\<close>.
  Registered sinks become active and get a delivery record for every retained event; active
  sinks that are no longer configured are deactivated unless work is left for them.
\<close>

section \<open>Definitions\<close>

datatype configure_point =
    CfgBegin
  | CfgInspect nat
  | CfgRegister nat
  | CfgLastInsertId nat
  | CfgActivate nat
  | CfgBackfill nat
  | CfgListActive
  | CfgScanActive
  | CfgCloseActive
  | CfgRowsErr
  | CfgInspectDeliveries string
  | CfgDeactivate string

record configure_env =
  cf_fails :: "configure_point \<Rightarrow> bool"
  cf_commit :: commit_fault
  cf_now :: time
  cf_key_gap :: "nat \<Rightarrow> nat"

text \<open>Find or create the sink of one registration; the result has its id.\<close>

definition register_sink ::
    "configure_env \<Rightarrow> nat \<Rightarrow> SinkRegistration \<Rightarrow> db \<Rightarrow> store_error + (db \<times> int)" where
  "register_sink e index reg d =
     (if cf_fails e (CfgInspect index) then Inl (ErrDurability ''inspect sink'')
      else (case find_sink (sr_Name reg) d of
         None \<Rightarrow>
           (if cf_fails e (CfgRegister index) then Inl (ErrDurability ''register sink'')
            else if cf_fails e (CfgLastInsertId index) then Inl (ErrDurability ''inspect registered sink'')
            else (let sink = db_sinks_seq d + 1 + int (cf_key_gap e index) in
                  Inr (d\<lparr>db_sinks := db_sinks d @
                           [\<lparr>sk_id = sink, sk_name = sr_Name reg, sk_type = sr_Type reg,
                             sk_config_sha256 = sr_ConfigSHA256 reg, sk_active = True,
                             sk_created_at = cf_now e\<rparr>],
                         db_sinks_seq := sink\<rparr>, sink)))
       | Some s \<Rightarrow>
           (if sk_type s \<noteq> sr_Type reg \<or> sk_config_sha256 s \<noteq> sr_ConfigSHA256 reg
            then Inl (ErrSinkConfigurationConflict (sr_Name reg))
            else if cf_fails e (CfgActivate index) then Inl (ErrDurability ''activate sink'')
            else Inr (d\<lparr>db_sinks := update_where (\<lambda>t. sk_id t = sk_id s)
                          (\<lambda>t. t\<lparr>sk_active := True\<rparr>) (db_sinks d)\<rparr>, sk_id s))))"

definition backfill_rows :: "int \<Rightarrow> time \<Rightarrow> db \<Rightarrow> delivery_row list" where
  "backfill_rows sink now d =
     map (\<lambda>r. new_delivery (ev_sequence r) sink now) (filter retained (db_events d))"

text \<open>The loop over the registrations; \<open>configured\<close> are the names seen so far.\<close>

fun configure_registrations ::
    "configure_env \<Rightarrow> nat \<Rightarrow> SinkRegistration list \<Rightarrow> string set \<Rightarrow> db \<Rightarrow> store_error + (string set \<times> db)" where
  "configure_registrations e index [] configured d = Inr (configured, d)"
| "configure_registrations e index (reg # rest) configured d =
     (if sr_Name reg = '''' \<or> sr_Type reg = ''''
      then Inl (ErrDurability ''sink name and type are required'')
      else if sr_Name reg \<in> configured then Inl (ErrDurability ''duplicate sink'')
      else (case register_sink e index reg d of
         Inl err \<Rightarrow> Inl err
       | Inr (d1, sink) \<Rightarrow>
           (if cf_fails e (CfgBackfill index) then Inl (ErrDurability ''backfill sink'')
            else (case insert_deliveries (backfill_rows sink (cf_now e) d1) d1 of
               None \<Rightarrow> Inl (ErrDurability ''backfill sink'')
             | Some d2 \<Rightarrow>
                 configure_registrations e (Suc index) rest (insert (sr_Name reg) configured) d2))))"

definition pending_count :: "int \<Rightarrow> db \<Rightarrow> nat" where
  "pending_count sink d = count_where (\<lambda>w. dl_sink w = sink \<and> waiting w) (db_deliveries d)"

fun deactivate_sinks :: "configure_env \<Rightarrow> sink_row list \<Rightarrow> db \<Rightarrow> store_error + db" where
  "deactivate_sinks e [] d = Inr d"
| "deactivate_sinks e (s # rest) d =
     (if cf_fails e (CfgInspectDeliveries (sk_name s)) then Inl (ErrDurability ''inspect sink deliveries'')
      else if pending_count (sk_id s) d \<noteq> 0
      then Inl (ErrActiveSinkRemoval (sk_name s) (pending_count (sk_id s) d))
      else if cf_fails e (CfgDeactivate (sk_name s)) then Inl (ErrDurability ''deactivate sink'')
      else deactivate_sinks e rest
             (d\<lparr>db_sinks := update_where (\<lambda>t. sk_id t = sk_id s)
                  (\<lambda>t. t\<lparr>sk_active := False\<rparr>) (db_sinks d)\<rparr>))"

definition configure_tx :: "configure_env \<Rightarrow> SinkRegistration list \<Rightarrow> db \<Rightarrow> store_error + db" where
  "configure_tx e registrations d =
     (case configure_registrations e 0 registrations {} d of
        Inl err \<Rightarrow> Inl err
      | Inr (configured, d1) \<Rightarrow>
          (if cf_fails e CfgListActive then Inl (ErrDurability ''list active sinks'')
           else if cf_fails e CfgScanActive then Inl (ErrDurability ''scan active sink'')
           else if cf_fails e CfgCloseActive then Inl (ErrDurability ''close active sink rows'')
           else if cf_fails e CfgRowsErr then Inl (ErrDurability ''list active sinks'')
           else deactivate_sinks e
                  (filter (\<lambda>s. sk_active s \<and> sk_name s \<notin> configured) (db_sinks d1)) d1))"

definition ConfigureSinks ::
    "configure_env \<Rightarrow> SinkRegistration list \<Rightarrow> db \<Rightarrow> db \<times> store_error option" where
  "ConfigureSinks e registrations d =
     (if cf_fails e CfgBegin then (d, Some (ErrDurability ''begin sink configuration''))
      else (case configure_tx e registrations d of
         Inl err \<Rightarrow> (d, Some err)
       | Inr d' \<Rightarrow>
         (case cf_commit e of
            CommitOk \<Rightarrow> (d', None)
          | CommitLost \<Rightarrow> (d, Some (ErrDurability ''commit sink configuration''))
          | CommitLanded \<Rightarrow> (d', Some (ErrDurability ''commit sink configuration'')))))"

section \<open>Registering a sink\<close>

lemma core_inv_set_active:
  "core_inv x d \<Longrightarrow> core_inv x (d\<lparr>db_sinks := update_where p (\<lambda>t. t\<lparr>sk_active := b\<rparr>) (db_sinks d)\<rparr>)"
proof -
  let ?ss = "update_where p (\<lambda>t. t\<lparr>sk_active := b\<rparr>) (db_sinks d)"
  have m: "map sk_id ?ss = map sk_id (db_sinks d)" "map sk_name ?ss = map sk_name (db_sinks d)"
    by (simp_all add: map_update_where)
  then have "sk_id ` set ?ss = sk_id ` set (db_sinks d)" by (metis list.set_map)
  moreover have "\<forall>s \<in> set ?ss. sk_id s \<le> db_sinks_seq d" if "\<forall>s \<in> set (db_sinks d). sk_id s \<le> db_sinks_seq d"
    using that by (auto simp: set_update_where)
  ultimately show "core_inv x d \<Longrightarrow> core_inv x (d\<lparr>db_sinks := ?ss\<rparr>)"
    using m by (simp add: core_inv_def keys_ok_def refs_ok_def payloads_ok_def checkpoint_ok_def)
qed

lemma core_inv_insert_sink:
  assumes "core_inv x d" and "find_sink (sk_name s) d = None" and "db_sinks_seq d < sk_id s"
  shows "core_inv x (d\<lparr>db_sinks := db_sinks d @ [s], db_sinks_seq := sk_id s\<rparr>)"
proof -
  have "sk_name s \<notin> sk_name ` set (db_sinks d)"
    using assms(2) by (auto simp: find_sink_def find_None_set)
  moreover have "\<forall>s' \<in> set (db_sinks d). sk_id s' < sk_id s"
    using assms(1,3) by (auto simp: core_inv_def keys_ok_def)
  ultimately show ?thesis
    using assms(1,3) by (auto simp: core_inv_def keys_ok_def refs_ok_def payloads_ok_def
      checkpoint_ok_def sorted_wrt_append less_imp_le)
qed

text \<open>
  What registration does to the sinks: all stay, ids and names are kept, no sink loses its
  activity, at most the registered one gains it.
\<close>

definition sinks_extend :: "int \<Rightarrow> db \<Rightarrow> db \<Rightarrow> bool" where
  "sinks_extend k d d' \<longleftrightarrow>
     (\<forall>s \<in> set (db_sinks d). \<exists>s' \<in> set (db_sinks d'). sk_id s' = sk_id s \<and> sk_name s' = sk_name s \<and>
        (sk_active s \<longrightarrow> sk_active s')) \<and>
     (\<forall>s' \<in> set (db_sinks d'). sk_active s' \<longrightarrow> sk_id s' = k \<or>
        (\<exists>s \<in> set (db_sinks d). sk_id s = sk_id s' \<and> sk_name s = sk_name s' \<and> sk_active s))"

lemma sinks_extend_activate:
  "sinks_extend k d (d\<lparr>db_sinks := update_where (\<lambda>t. sk_id t = k) (\<lambda>t. t\<lparr>sk_active := True\<rparr>) (db_sinks d)\<rparr>)"
  (is "sinks_extend k d ?d'")
  unfolding sinks_extend_def
proof (intro conjI ballI impI)
  fix s assume s: "s \<in> set (db_sinks d)"
  let ?s = "if sk_id s = k then s\<lparr>sk_active := True\<rparr> else s"
  have "?s \<in> set (db_sinks ?d')" using s by (auto simp: set_update_where)
  then show "\<exists>s' \<in> set (db_sinks ?d'). sk_id s' = sk_id s \<and> sk_name s' = sk_name s \<and> (sk_active s \<longrightarrow> sk_active s')"
    by (rule rev_bexI) simp
qed (auto simp: set_update_where)

lemma register_sink_correct:
  assumes inv: "db_inv x d" and reg: "register_sink e i r d = Inr (d1, k)"
  shows "core_inv x d1" and "sinks_extend k d d1"
    and "\<exists>s \<in> set (db_sinks d1). sk_id s = k \<and> sk_name s = sr_Name r \<and> sk_active s"
    and "db_events d1 = db_events d" "db_deliveries d1 = db_deliveries d" "db_metadata d1 = db_metadata d"
proof -
  have core: "core_inv x d" using inv by blast
  have all: "core_inv x d1 \<and> sinks_extend k d d1 \<and>
    (\<exists>s \<in> set (db_sinks d1). sk_id s = k \<and> sk_name s = sr_Name r \<and> sk_active s) \<and>
    db_events d1 = db_events d \<and> db_deliveries d1 = db_deliveries d \<and> db_metadata d1 = db_metadata d"
  proof (cases "find_sink (sr_Name r) d")
    case None
    define row where "row = \<lparr>sk_id = k, sk_name = sr_Name r, sk_type = sr_Type r,
      sk_config_sha256 = sr_ConfigSHA256 r, sk_active = True, sk_created_at = cf_now e\<rparr>"
    have d1: "d1 = d\<lparr>db_sinks := db_sinks d @ [row], db_sinks_seq := sk_id row\<rparr>" "db_sinks_seq d < sk_id row"
      using reg None by (auto simp: register_sink_def row_def Let_def split: if_splits)
    have "core_inv x d1"
      using core_inv_insert_sink [OF core, of row] None d1 by (simp add: row_def)
    moreover have "sk_active row" "sk_id row = k" "sk_name row = sr_Name r" by (simp_all add: row_def)
    ultimately show ?thesis using d1 by (auto simp: sinks_extend_def)
  next
    case (Some s)
    then have s: "s \<in> set (db_sinks d)" "sk_name s = sr_Name r"
      by (auto simp: find_sink_def dest: find_SomeD)
    have d1: "d1 = d\<lparr>db_sinks := update_where (\<lambda>t. sk_id t = sk_id s) (\<lambda>t. t\<lparr>sk_active := True\<rparr>) (db_sinks d)\<rparr>"
      "k = sk_id s" using reg Some by (auto simp: register_sink_def split: if_splits)
    have "core_inv x d1" using core_inv_set_active [OF core] d1 by simp
    moreover have "s\<lparr>sk_active := True\<rparr> \<in> set (db_sinks d1)"
      using s d1 by (auto simp: set_update_where)
    then have "\<exists>s \<in> set (db_sinks d1). sk_id s = k \<and> sk_name s = sr_Name r \<and> sk_active s"
      by (rule rev_bexI) (simp add: d1 s)
    moreover have "sinks_extend k d d1"
      using d1 sinks_extend_activate by simp
    ultimately show ?thesis using d1 by simp
  qed
  then show "core_inv x d1" and "sinks_extend k d d1"
    and "\<exists>s \<in> set (db_sinks d1). sk_id s = k \<and> sk_name s = sr_Name r \<and> sk_active s"
    and "db_events d1 = db_events d" "db_deliveries d1 = db_deliveries d" "db_metadata d1 = db_metadata d"
    by blast+
qed

lemma backfill_inv:
  assumes inv: "db_inv x d" and reg: "register_sink e i r d = Inr (d1, k)"
    and bf: "insert_deliveries (backfill_rows k now d1) d1 = Some d2"
  shows "db_inv x d2" and "\<exists>vs. d2 = d1\<lparr>db_deliveries := db_deliveries d1 @ vs\<rparr>"
proof -
  note r = register_sink_correct [OF inv reg]
  obtain vs where vs: "d2 = d1\<lparr>db_deliveries := db_deliveries d1 @ vs\<rparr>"
    using insert_deliveries_frame [OF bf] by blast
  then show "\<exists>vs. d2 = d1\<lparr>db_deliveries := db_deliveries d1 @ vs\<rparr>" by blast
  have "pending_rows (backfill_rows k now d1)"
    by (auto simp: pending_rows_def backfill_rows_def)
  with r(1) bf have core: "core_inv x d2" by (blast intro: core_inv_insert_deliveries)
  have "routed_ok d1"
    using inv r(2,5) by (fastforce simp: db_inv_def routed_ok_def sinks_extend_def)
  then have routed: "routed_ok d2"
    by (rule routed_ok_insert_deliveries [OF _ bf]) (use r(3) in \<open>auto simp: backfill_rows_def\<close>)
  have keys: "delivery_key ` set (db_deliveries d2) =
      delivery_key ` set (db_deliveries d) \<union> delivery_key ` set (backfill_rows k now d1)"
    using insert_deliveries_keys [OF bf] r(5) by simp
  have "fanout_ok d2"
    unfolding fanout_ok_def
  proof (intro ballI impI)
    fix ev s assume ev: "ev \<in> set (db_events d2)" "retained ev" and s: "s \<in> set (db_sinks d2)" "sk_active s"
    show "(ev_sequence ev, sk_id s) \<in> delivery_key ` set (db_deliveries d2)"
    proof (cases "sk_id s = k")
      case True
      have "new_delivery (ev_sequence ev) k now \<in> set (backfill_rows k now d1)"
        using ev vs by (auto simp: backfill_rows_def)
      then show ?thesis using True keys by force
    next
      case False
      then obtain s' where "s' \<in> set (db_sinks d)" "sk_id s' = sk_id s" "sk_active s'"
        using r(2) s vs by (auto simp: sinks_extend_def)
      moreover have "ev \<in> set (db_events d)" using ev vs r(4) by simp
      ultimately have "(ev_sequence ev, sk_id s) \<in> delivery_key ` set (db_deliveries d)"
        using inv ev by (force simp: db_inv_def fanout_ok_def)
      then show ?thesis using keys by simp
    qed
  qed
  with core routed show "db_inv x d2" by (simp add: db_inv_def)
qed

text \<open>Without a failing statement the backfill of a sink never aborts: no trigger fires.\<close>

lemma backfill_total:
  assumes "core_inv x d" and "\<exists>s \<in> set (db_sinks d). sk_id s = k"
  shows "\<exists>d'. insert_deliveries (backfill_rows k now d) d = Some d'"
proof (rule insert_deliveries_Some, rule ballI)
  fix w assume "w \<in> set (backfill_rows k now d)"
  then obtain r where r: "r \<in> set (db_events d)" "retained r" "w = new_delivery (ev_sequence r) k now"
    by (auto simp: backfill_rows_def)
  then have "\<not> event_pruned (dl_event w) d"
    using event_pruned_retained [OF assms(1)] by (auto simp: event_retained_def)
  with r assms(2) show "\<not> event_pruned (dl_event w) d \<and> dl_event w \<in> ev_sequence ` set (db_events d) \<and>
      dl_sink w \<in> sk_id ` set (db_sinks d)" by auto
qed

section \<open>The loop over the registrations\<close>

definition active_names :: "db \<Rightarrow> string set" where
  "active_names d = {sk_name s | s. s \<in> set (db_sinks d) \<and> sk_active s}"

lemma configure_Cons_Inr:
  assumes "configure_registrations e i (reg # rest) names d = Inr r"
  obtains d1 k d2 where "register_sink e i reg d = Inr (d1, k)"
    "insert_deliveries (backfill_rows k (cf_now e) d1) d1 = Some d2"
    "configure_registrations e (Suc i) rest (insert (sr_Name reg) names) d2 = Inr r"
    "sr_Name reg \<notin> names"
  using assms by (auto split: if_splits sum.splits option.splits prod.splits)

lemma active_names_extend:
  "sinks_extend k d d' \<Longrightarrow> active_names d \<subseteq> active_names d'"
proof
  fix n assume ext: "sinks_extend k d d'" and "n \<in> active_names d"
  then obtain s where "s \<in> set (db_sinks d)" "sk_active s" "sk_name s = n"
    by (auto simp: active_names_def)
  with ext obtain s' where "s' \<in> set (db_sinks d')" "sk_name s' = n" "sk_active s'"
    unfolding sinks_extend_def by metis
  then show "n \<in> active_names d'" by (auto simp: active_names_def)
qed

lemma configure_registrations_correct:
  assumes "db_inv x d" and "configure_registrations e i regs names d = Inr (names', d')"
  shows "db_inv x d' \<and> names' = names \<union> sr_Name ` set regs \<and> active_names d \<subseteq> active_names d' \<and>
    sr_Name ` set regs \<subseteq> active_names d' \<and> distinct (map sr_Name regs) \<and> names \<inter> sr_Name ` set regs = {} \<and>
    db_events d' = db_events d \<and> db_metadata d' = db_metadata d \<and>
    (\<exists>ws. db_deliveries d' = db_deliveries d @ ws)"
  using assms
proof (induction regs arbitrary: i names d)
  case Nil
  then show ?case by simp
next
  case (Cons reg rest)
  from Cons.prems(2) obtain d1 k d2 where
    reg: "register_sink e i reg d = Inr (d1, k)"
    and bf: "insert_deliveries (backfill_rows k (cf_now e) d1) d1 = Some d2"
    and rest: "configure_registrations e (Suc i) rest (insert (sr_Name reg) names) d2 = Inr (names', d')"
    and new: "sr_Name reg \<notin> names"
    by (rule configure_Cons_Inr)
  note r = register_sink_correct [OF Cons.prems(1) reg]
  obtain vs where vs: "d2 = d1\<lparr>db_deliveries := db_deliveries d1 @ vs\<rparr>"
    using backfill_inv(2) [OF Cons.prems(1) reg bf] by blast
  note IH = Cons.IH [OF backfill_inv(1) [OF Cons.prems(1) reg bf] rest]
  have "active_names d \<subseteq> active_names d2" "sr_Name reg \<in> active_names d2"
    using active_names_extend [OF r(2)] r(3) vs by (auto simp: active_names_def)
  with IH r(4-6) vs new show ?case by auto
qed

section \<open>Deactivating sinks\<close>

lemma deactivate_one:
  assumes inv: "db_inv x d" and none: "pending_count k d = 0"
  shows "db_inv x (d\<lparr>db_sinks := update_where (\<lambda>t. sk_id t = k) (\<lambda>t. t\<lparr>sk_active := False\<rparr>) (db_sinks d)\<rparr>)"
    (is "db_inv x ?d'")
proof -
  have "core_inv x ?d'" using inv by (blast intro: core_inv_set_active)
  moreover have "fanout_ok ?d'"
    using inv by (auto simp: db_inv_def fanout_ok_def set_update_where)
  moreover have "routed_ok ?d'"
    unfolding routed_ok_def
  proof (intro ballI impI)
    fix w assume w: "w \<in> set (db_deliveries ?d')" "waiting w"
    then obtain s where s: "s \<in> set (db_sinks d)" "sk_id s = dl_sink w" "sk_active s"
      using inv by (auto simp: db_inv_def routed_ok_def)
    moreover have "dl_sink w \<noteq> k" using none w by (auto simp: pending_count_def)
    ultimately have "s \<in> set (db_sinks ?d')" by (auto simp: set_update_where)
    with s show "\<exists>s \<in> set (db_sinks ?d'). sk_id s = dl_sink w \<and> sk_active s" by blast
  qed
  ultimately show ?thesis by (simp add: db_inv_def)
qed

lemma deactivate_sinks_correct:
  assumes "db_inv x d" and "deactivate_sinks e ss d = Inr d'"
  shows "db_inv x d' \<and> db_events d' = db_events d \<and> db_metadata d' = db_metadata d \<and>
    db_deliveries d' = db_deliveries d \<and>
    active_names d' = {sk_name s | s. s \<in> set (db_sinks d) \<and> sk_active s \<and> sk_id s \<notin> sk_id ` set ss}"
  using assms
proof (induction ss arbitrary: d)
  case Nil
  then show ?case by (simp add: active_names_def)
next
  case (Cons s ss)
  define d1 where "d1 = d\<lparr>db_sinks := update_where (\<lambda>t. sk_id t = sk_id s) (\<lambda>t. t\<lparr>sk_active := False\<rparr>) (db_sinks d)\<rparr>"
  have none: "pending_count (sk_id s) d = 0" and rest: "deactivate_sinks e ss d1 = Inr d'"
    using Cons.prems(2) by (auto simp: d1_def split: if_splits)
  have "db_inv x d1" unfolding d1_def by (rule deactivate_one [OF Cons.prems(1) none])
  note IH = Cons.IH [OF this rest]
  have "{sk_name t | t. t \<in> set (db_sinks d1) \<and> sk_active t \<and> sk_id t \<notin> sk_id ` set ss} =
      {sk_name t | t. t \<in> set (db_sinks d) \<and> sk_active t \<and> sk_id t \<notin> sk_id ` set (s # ss)}"
    by (auto simp: d1_def set_update_where)
  with IH show ?case by (simp add: d1_def)
qed

lemma configure_tx_correct:
  assumes inv: "db_inv x d" and tx: "configure_tx e regs d = Inr d'"
  shows "db_inv x d'" and "active_names d' = sr_Name ` set regs" and "distinct (map sr_Name regs)"
    and "db_events d' = db_events d" and "db_metadata d' = db_metadata d"
    and "\<exists>ws. db_deliveries d' = db_deliveries d @ ws"
proof -
  obtain names d1 where loop: "configure_registrations e 0 regs {} d = Inr (names, d1)"
    and off: "deactivate_sinks e (filter (\<lambda>s. sk_active s \<and> sk_name s \<notin> names) (db_sinks d1)) d1 = Inr d'"
    using tx by (auto simp: configure_tx_def split: sum.splits if_splits)
  note l = configure_registrations_correct [OF inv loop]
  have inv1: "db_inv x d1" using l by blast
  note f = deactivate_sinks_correct [OF inv1 off]
  have "active_names d' = sr_Name ` set regs"
  proof
    show "active_names d' \<subseteq> sr_Name ` set regs"
      using f l by auto
    have "core_inv x d1" using inv1 by blast
    show "sr_Name ` set regs \<subseteq> active_names d'"
    proof
      fix n assume n: "n \<in> sr_Name ` set regs"
      then obtain s where s: "s \<in> set (db_sinks d1)" "sk_active s" "sk_name s = n"
        using l by (auto simp: active_names_def)
      have "sk_id s \<notin> sk_id ` set (filter (\<lambda>s. sk_active s \<and> sk_name s \<notin> names) (db_sinks d1))"
        using sink_unique [OF \<open>core_inv x d1\<close> s(1)] s n l by auto
      with s f show "n \<in> active_names d'" by auto
    qed
  qed
  with l f show "db_inv x d'" "active_names d' = sr_Name ` set regs" "distinct (map sr_Name regs)"
    "db_events d' = db_events d" "db_metadata d' = db_metadata d" "\<exists>ws. db_deliveries d' = db_deliveries d @ ws"
    by auto
qed

lemma ConfigureSinks_cases:
  obtains (aborted) "fst (ConfigureSinks e regs d) = d" "snd (ConfigureSinks e regs d) \<noteq> None"
    | (landed) d' where "configure_tx e regs d = Inr d'" "fst (ConfigureSinks e regs d) = d'"
proof -
  let ?p = "ConfigureSinks e regs d"
  have "fst ?p = d \<and> snd ?p \<noteq> None \<or> (\<exists>d'. configure_tx e regs d = Inr d' \<and> fst ?p = d')"
    by (simp add: ConfigureSinks_def split: sum.split commit_fault.split)
  with that show ?thesis by blast
qed

section \<open>Properties\<close>

text \<open>Every outcome of sink configuration leaves a spool that satisfies the invariant: retained
  events have a delivery record for each active sink, and no delivery that still waits belongs
  to an inactive sink.\<close>

theorem configure_invariant:
  assumes "db_inv x d"
  shows "db_inv x (fst (ConfigureSinks e regs d))"
proof (cases rule: ConfigureSinks_cases [of e regs d])
  case aborted
  with assms show ?thesis by simp
next
  case (landed d')
  with configure_tx_correct(1) [OF assms] show ?thesis by simp
qed

definition quiet_configure :: configure_env where
  "quiet_configure = \<lparr>cf_fails = (\<lambda>_. False), cf_commit = CommitOk, cf_now = 20, cf_key_gap = (\<lambda>_. 0)\<rparr>"

definition audit_sink :: SinkRegistration where
  "audit_sink = \<lparr>sr_Name = ''audit'', sr_Type = ''stdout'', sr_ConfigSHA256 = 9\<rparr>"

definition orders_sink :: SinkRegistration where
  "orders_sink = \<lparr>sr_Name = ''orders'', sr_Type = ''webhook'', sr_ConfigSHA256 = 7\<rparr>"

lemma captured_db_inv: "db_inv example_externals captured_db"
  by (rule reached_correct(1) [OF example_db_inv example_externals_codec PersistCommittedBatch_OkD [OF example_persist]])

theorem configure_invariant_witness:
  "db_inv example_externals (fst (ConfigureSinks quiet_configure [orders_sink, audit_sink] captured_db))"
  by (rule configure_invariant [OF captured_db_inv])


lemma example_configure:
  "snd (ConfigureSinks quiet_configure [orders_sink, audit_sink] captured_db) = None"
  by (simp add: ConfigureSinks_def configure_tx_def quiet_configure_def orders_sink_def audit_sink_def
     register_sink_def find_sink_def backfill_rows_def update_where_def pending_count_def
     example_defs capture_defs)


end
