(* ===== verification/Store_Delivery.thy ===== *)
theory Store_Delivery
  imports Store_Sinks
begin

text \<open>
  The delivery side of the spool: \<open>NextDueDelivery\<close>, \<open>MarkDelivered\<close>, \<open>MarkFailed\<close> and
  \<open>RedriveDelivery\<close> of \<open>internal/spool/sqlite/sqlite.go\<close>. Each is one SQL statement in its own
  implicit transaction.
\<close>

section \<open>Definitions\<close>

text \<open>The oldest delivery of a sink that is not terminal, the head of its line.\<close>

definition head_of_line :: "int \<Rightarrow> db \<Rightarrow> int option" where
  "head_of_line sink d =
     map_option dl_event (first_by dl_event (filter (\<lambda>w. dl_sink w = sink \<and> waiting w) (db_deliveries d)))"

definition due_heads :: "time \<Rightarrow> db \<Rightarrow> (sink_row \<times> delivery_row \<times> event_row) list" where
  "due_heads now d =
     [(s, w, r). s \<leftarrow> db_sinks d, w \<leftarrow> db_deliveries d,
        dl_sink w = sk_id s \<and> head_of_line (sk_id s) d = Some (dl_event w),
        r \<leftarrow> db_events d, ev_sequence r = dl_event w,
        sk_active s \<and> dl_next_attempt_at w \<le> now]"

definition delivery_item :: "sink_row \<times> delivery_row \<times> event_row \<Rightarrow> Delivery" where
  "delivery_item t = (case t of (s, w, r) \<Rightarrow>
     \<lparr>dv_EventSequence = ev_sequence r, dv_SinkID = sk_id s, dv_SinkName = sk_name s,
      dv_SinkType = sk_type s, dv_Source = ev_source r, dv_ID = ev_id r, dv_Type = ev_type r,
      dv_Subject = (case ev_subject r of None \<Rightarrow> '''' | Some v \<Rightarrow> v),
      dv_Payload = ev_payload r, dv_Attempts = dl_attempts w\<rparr>)"

definition NextDueDelivery :: "bool \<Rightarrow> time \<Rightarrow> db \<Rightarrow> store_error + Delivery option" where
  "NextDueDelivery fails now d =
     (if fails then Inl (ErrStore ''query next due delivery'')
      else Inr (map_option delivery_item
                  (first_by (\<lambda>(s, w, r). (ev_sequence r, sk_id s)) (due_heads now d))))"

text \<open>
  A single statement can fail without effect, fail after its effect became durable, or
  succeed and then refuse to report how many rows it changed.
\<close>

datatype exec_fault = ExecOk | ExecLost | ExecLanded | RowsAffectedFailed

definition expectOneDeliveryUpdate ::
    "exec_fault \<Rightarrow> string \<Rightarrow> (db \<times> nat) option \<Rightarrow> db \<Rightarrow> db \<times> store_error option" where
  "expectOneDeliveryUpdate fault operation result d =
     (case (fault, result) of
        (ExecLost, _) \<Rightarrow> (d, Some (ErrDurability operation))
      | (_, None) \<Rightarrow> (d, Some (ErrDurability operation))
      | (ExecLanded, Some (d', _)) \<Rightarrow> (d', Some (ErrDurability operation))
      | (RowsAffectedFailed, Some (d', _)) \<Rightarrow> (d', Some (ErrDurability operation))
      | (ExecOk, Some (d', affected)) \<Rightarrow>
          (d', if affected \<noteq> 1 then Some (ErrDurability operation) else None))"

definition attempted :: "Delivery \<Rightarrow> delivery_row \<Rightarrow> bool" where
  "attempted item w \<longleftrightarrow> dl_event w = dv_EventSequence item \<and> dl_sink w = dv_SinkID item \<and>
     dl_attempts w = dv_Attempts item \<and> waiting w"

definition response_status :: "int \<Rightarrow> int option" where
  "response_status status = (if status \<noteq> 0 then Some status else None)"

definition delivered_row :: "int \<Rightarrow> int \<Rightarrow> time \<Rightarrow> delivery_row \<Rightarrow> delivery_row" where
  "delivered_row attempt status now w =
     w\<lparr>dl_state := Delivered, dl_attempts := attempt, dl_last_attempt_at := Some now,
       dl_delivered_at := Some now, dl_dead_lettered_at := None, dl_last_error := None,
       dl_response_status := response_status status\<rparr>"

definition MarkDelivered ::
    "exec_fault \<Rightarrow> Delivery \<Rightarrow> int \<Rightarrow> int \<Rightarrow> time \<Rightarrow> db \<Rightarrow> db \<times> store_error option" where
  "MarkDelivered fault item attempt status now d =
     expectOneDeliveryUpdate fault ''mark delivered''
       (update_deliveries (attempted item) (delivered_row attempt status now) d) d"

definition failed_row ::
    "int \<Rightarrow> bool \<Rightarrow> time \<Rightarrow> string \<Rightarrow> int \<Rightarrow> time \<Rightarrow> delivery_row \<Rightarrow> delivery_row" where
  "failed_row attempt permanent retryAt failure status now w =
     w\<lparr>dl_state := (if permanent then DeadLetter else RetryWait), dl_attempts := attempt,
       dl_next_attempt_at := retryAt, dl_last_attempt_at := Some now, dl_delivered_at := None,
       dl_dead_lettered_at := (if permanent then Some now else None),
       dl_last_error := Some failure, dl_response_status := response_status status\<rparr>"

definition MarkFailed ::
    "exec_fault \<Rightarrow> Delivery \<Rightarrow> int \<Rightarrow> bool \<Rightarrow> time \<Rightarrow> string \<Rightarrow> int \<Rightarrow> time \<Rightarrow> db \<Rightarrow>
     db \<times> store_error option" where
  "MarkFailed fault item attempt permanent retryAt failure status now d =
     expectOneDeliveryUpdate fault ''mark failed''
       (update_deliveries (attempted item) (failed_row attempt permanent retryAt failure status now) d) d"

definition redriven_row :: "time \<Rightarrow> delivery_row \<Rightarrow> delivery_row" where
  "redriven_row now w =
     w\<lparr>dl_state := RetryWait, dl_attempts := 0, dl_next_attempt_at := now,
       dl_last_attempt_at := None, dl_delivered_at := None, dl_dead_lettered_at := None,
       dl_last_error := None, dl_response_status := None\<rparr>"

definition redrivable :: "string \<Rightarrow> string \<Rightarrow> string \<Rightarrow> db \<Rightarrow> delivery_row \<Rightarrow> bool" where
  "redrivable sinkName source i d w \<longleftrightarrow> dl_state w = DeadLetter \<and>
     map_option sk_id (List.find (\<lambda>s. sk_name s = sinkName \<and> sk_active s) (db_sinks d)) =
       Some (dl_sink w) \<and>
     map_option ev_sequence (find_event source i d) = Some (dl_event w)"

definition RedriveDelivery ::
    "exec_fault \<Rightarrow> string \<Rightarrow> string \<Rightarrow> string \<Rightarrow> time \<Rightarrow> db \<Rightarrow> db \<times> store_error option" where
  "RedriveDelivery fault sinkName source i now d =
     (case (fault, update_deliveries (redrivable sinkName source i d) (redriven_row now) d) of
        (ExecLost, _) \<Rightarrow> (d, Some (ErrDurability ''redrive delivery''))
      | (_, None) \<Rightarrow> (d, Some (ErrDurability ''redrive delivery''))
      | (ExecLanded, Some (d', _)) \<Rightarrow> (d', Some (ErrDurability ''redrive delivery''))
      | (RowsAffectedFailed, Some (d', _)) \<Rightarrow> (d', Some (ErrDurability ''inspect redrive''))
      | (ExecOk, Some (d', affected)) \<Rightarrow>
          (d', if affected \<noteq> 1 then Some (ErrStore ''no matching dead-letter delivery was found'') else None))"

section \<open>Updates of delivery rows keep the invariant\<close>

lemma update_deliveries_Some:
  assumes "update_deliveries p f d = Some (d', n)"
  shows "d' = d\<lparr>db_deliveries := update_where p f (db_deliveries d)\<rparr>" "n = count_where p (db_deliveries d)"
    "w \<in> set (db_deliveries d) \<Longrightarrow> p w \<Longrightarrow> 0 \<le> dl_attempts (f w)"
  using assms by (auto simp: update_deliveries_def not_less split: if_splits)

lemma update_deliveries_inv:
  assumes inv: "db_inv x d" and up: "update_deliveries p f d = Some (d', n)"
    and key: "\<And>w. w \<in> set (db_deliveries d) \<Longrightarrow> p w \<Longrightarrow> delivery_key (f w) = delivery_key w"
    and ok: "\<And>w. w \<in> set (db_deliveries d) \<Longrightarrow> p w \<Longrightarrow> 0 \<le> dl_attempts (f w) \<Longrightarrow> delivery_ok (f w)"
    and open_rows: "\<And>w. w \<in> set (db_deliveries d) \<Longrightarrow> p w \<Longrightarrow> dl_state w \<noteq> Delivered"
    and route: "\<And>w. w \<in> set (db_deliveries d) \<Longrightarrow> p w \<Longrightarrow> waiting (f w) \<Longrightarrow>
      \<exists>s \<in> set (db_sinks d). sk_id s = dl_sink w \<and> sk_active s"
  shows "db_inv x d'"
proof -
  note d' = update_deliveries_Some(1) [OF up]
  have rows: "set (db_deliveries d') = {w \<in> set (db_deliveries d). \<not> p w} \<union> f ` {w \<in> set (db_deliveries d). p w}"
    by (simp add: d' set_update_where)
  have keys: "map delivery_key (db_deliveries d') = map delivery_key (db_deliveries d)"
    using key by (simp add: d' map_update_where)
  then have keyset: "delivery_key ` set (db_deliveries d') = delivery_key ` set (db_deliveries d)"
    by (metis list.set_map)
  have refs: "refs_ok d'"
    unfolding refs_ok_def
  proof
    fix v assume "v \<in> set (db_deliveries d')"
    then obtain w where "w \<in> set (db_deliveries d)" "delivery_key v = delivery_key w"
      using rows key by auto
    moreover have "refs_ok d" using inv by (auto dest: core_invD)
    ultimately show "dl_event v \<in> ev_sequence ` set (db_events d') \<and> dl_sink v \<in> sk_id ` set (db_sinks d')"
      by (simp add: refs_ok_def d')
  qed
  have dels: "\<forall>w \<in> set (db_deliveries d'). delivery_ok w"
    using inv ok update_deliveries_Some(3) [OF up] by (auto simp: rows db_inv_def core_inv_def)
  have pruned: "all_delivered (ev_sequence r) d'" if "all_delivered (ev_sequence r) d" for r
  proof -
    have "w \<in> set (db_deliveries d')" if "w \<in> set (db_deliveries d)" "dl_event w = ev_sequence r" for w
      using that \<open>all_delivered _ d\<close> open_rows by (auto simp: rows all_delivered_def)
    moreover have "w \<in> set (db_deliveries d)" if "w \<in> set (db_deliveries d')" "dl_event w = ev_sequence r" for w
      using that \<open>all_delivered _ d\<close> open_rows key by (force simp: rows all_delivered_def)
    ultimately show ?thesis using that by (auto simp: all_delivered_def)
  qed
  have "payloads_ok x d'"
    unfolding payloads_ok_def
  proof
    fix r assume "r \<in> set (db_events d')"
    then have "if retained r then Sum256 x (ev_payload r) = ev_payload_sha256 r
        else ev_payload r = [] \<and> all_delivered (ev_sequence r) d"
      using inv by (simp add: d' db_inv_def core_inv_def payloads_ok_def)
    then show "if retained r then Sum256 x (ev_payload r) = ev_payload_sha256 r
        else ev_payload r = [] \<and> all_delivered (ev_sequence r) d'"
      using pruned [of r] by (simp split: if_splits)
  qed
  then have "core_inv x d'"
    using inv keys refs dels
    by (simp add: db_inv_def core_inv_def keys_ok_def checkpoint_ok_def d')
  moreover have "fanout_ok d'"
    using inv keyset by (auto simp: db_inv_def fanout_ok_def d')
  moreover have "routed_ok d'"
    unfolding routed_ok_def
  proof (intro ballI impI)
    fix v assume v: "v \<in> set (db_deliveries d')" "waiting v"
    have "\<exists>s \<in> set (db_sinks d). sk_id s = dl_sink v \<and> sk_active s"
    proof (cases "v \<in> {w \<in> set (db_deliveries d). \<not> p w}")
      case True
      with v inv show ?thesis by (auto simp: db_inv_def routed_ok_def)
    next
      case False
      then obtain w where "w \<in> set (db_deliveries d)" "p w" "v = f w" using v rows by auto
      with route [of w] key [of w] v show ?thesis by simp
    qed
    then show "\<exists>s \<in> set (db_sinks d'). sk_id s = dl_sink v \<and> sk_active s" by (simp add: d')
  qed
  ultimately show ?thesis by (simp add: db_inv_def)
qed

lemma delivered_row_simps [simp]:
  "dl_event (delivered_row a st now w) = dl_event w" "dl_sink (delivered_row a st now w) = dl_sink w"
  "dl_state (delivered_row a st now w) = Delivered" "dl_attempts (delivered_row a st now w) = a"
  by (simp_all add: delivered_row_def)

lemma failed_row_simps [simp]:
  "dl_event (failed_row a pm ra fl st now w) = dl_event w" "dl_sink (failed_row a pm ra fl st now w) = dl_sink w"
  "dl_state (failed_row a pm ra fl st now w) = (if pm then DeadLetter else RetryWait)"
  "dl_attempts (failed_row a pm ra fl st now w) = a" "dl_next_attempt_at (failed_row a pm ra fl st now w) = ra"
  by (simp_all add: failed_row_def)

lemma redriven_row_simps [simp]:
  "dl_event (redriven_row now w) = dl_event w" "dl_sink (redriven_row now w) = dl_sink w"
  "dl_state (redriven_row now w) = RetryWait" "dl_attempts (redriven_row now w) = 0"
  by (simp_all add: redriven_row_def)

lemma delivery_ok_rows:
  "0 \<le> a \<Longrightarrow> delivery_ok (delivered_row a st now w)"
  "0 \<le> a \<Longrightarrow> delivery_ok (failed_row a pm ra fl st now w)"
  "delivery_ok (redriven_row now w)"
  by (simp_all add: delivery_ok_def delivered_row_def failed_row_def redriven_row_def)

lemma routed_waiting:
  "db_inv x d \<Longrightarrow> w \<in> set (db_deliveries d) \<Longrightarrow> waiting w \<Longrightarrow>
     \<exists>s \<in> set (db_sinks d). sk_id s = dl_sink w \<and> sk_active s"
  unfolding db_inv_def routed_ok_def by blast

lemma attempted_routed:
  "db_inv x d \<Longrightarrow> w \<in> set (db_deliveries d) \<Longrightarrow> attempted item w \<Longrightarrow>
     \<exists>s \<in> set (db_sinks d). sk_id s = dl_sink w \<and> sk_active s"
  unfolding attempted_def using routed_waiting by blast

lemma attempted_open: "attempted item w \<Longrightarrow> dl_state w \<noteq> Delivered"
  by (auto simp: attempted_def)

lemma expectOne_inv:
  assumes "P d" and "\<And>d' n. r = Some (d', n) \<Longrightarrow> P d'"
  shows "P (fst (expectOneDeliveryUpdate fault operation r d))"
  using assms by (auto simp: expectOneDeliveryUpdate_def split: exec_fault.split option.split)

lemma mark_update_inv:
  assumes "db_inv x d" and "update_deliveries (attempted item) f d = Some (d', n)"
    and "\<And>w. delivery_key (f w) = delivery_key w" "\<And>w. 0 \<le> dl_attempts (f w) \<Longrightarrow> delivery_ok (f w)"
  shows "db_inv x d'"
  using assms by (intro update_deliveries_inv [OF assms(1,2)]) (auto dest: attempted_open intro: attempted_routed)

lemma MarkDelivered_inv: "db_inv x d \<Longrightarrow> db_inv x (fst (MarkDelivered fault item a st now d))"
  unfolding MarkDelivered_def
  by (rule expectOne_inv, assumption, erule (1) mark_update_inv) (auto simp: delivery_ok_rows)

lemma MarkFailed_inv: "db_inv x d \<Longrightarrow> db_inv x (fst (MarkFailed fault item a pm ra fl st now d))"
  unfolding MarkFailed_def
  by (rule expectOne_inv, assumption, erule (1) mark_update_inv) (auto simp: delivery_ok_rows)

lemma redrivable_sink:
  assumes "redrivable n so i d w"
  shows "\<exists>s \<in> set (db_sinks d). sk_id s = dl_sink w \<and> sk_active s"
proof -
  from assms obtain s where "List.find (\<lambda>s. sk_name s = n \<and> sk_active s) (db_sinks d) = Some s" "sk_id s = dl_sink w"
    by (auto simp: redrivable_def)
  then show ?thesis by (auto dest: find_SomeD)
qed

lemma redrive_update_inv:
  assumes "db_inv x d" and "update_deliveries (redrivable n so i d) (redriven_row now) d = Some (d', k)"
  shows "db_inv x d'"
  by (rule update_deliveries_inv [OF assms])
     (auto simp: delivery_ok_rows intro: redrivable_sink, simp add: redrivable_def)

lemma RedriveDelivery_inv: "db_inv x d \<Longrightarrow> db_inv x (fst (RedriveDelivery fault n so i now d))"
  by (auto simp: RedriveDelivery_def split: exec_fault.split option.split dest: redrive_update_inv)

section \<open>Delivery rows by key\<close>

definition row_at :: "db \<Rightarrow> int \<times> int \<Rightarrow> delivery_row option" where
  "row_at d k = List.find (\<lambda>w. delivery_key w = k) (db_deliveries d)"

abbreviation item_key :: "Delivery \<Rightarrow> int \<times> int" where
  "item_key item \<equiv> (dv_EventSequence item, dv_SinkID item)"

lemma row_at_iff:
  assumes "core_inv x d"
  shows "row_at d k = Some w \<longleftrightarrow> w \<in> set (db_deliveries d) \<and> delivery_key w = k"
proof
  show "row_at d k = Some w \<Longrightarrow> w \<in> set (db_deliveries d) \<and> delivery_key w = k"
    by (auto simp: row_at_def dest: find_SomeD)
  show "w \<in> set (db_deliveries d) \<and> delivery_key w = k \<Longrightarrow> row_at d k = Some w"
    unfolding row_at_def
    by (rule find_unique [of delivery_key]) (use assms in \<open>auto simp: core_inv_def keys_ok_def\<close>)
qed

lemma attempted_key: "attempted item w \<Longrightarrow> delivery_key w = item_key item"
  by (simp add: attempted_def)

lemma one_row_update:
  assumes core: "core_inv x d" and core': "core_inv x d'"
    and up: "update_deliveries p f d = Some (d', n)"
    and key: "\<And>w. delivery_key (f w) = delivery_key w"
    and at: "\<And>w. w \<in> set (db_deliveries d) \<Longrightarrow> p w \<Longrightarrow> delivery_key w = c"
  shows "(n = 1 \<and> (\<exists>w. row_at d c = Some w \<and> p w \<and>
            row_at d' = (row_at d)(c \<mapsto> f w))) \<or>
         (n = 0 \<and> d' = d \<and> (\<forall>w. row_at d c = Some w \<longrightarrow> \<not> p w))"
proof -
  note d' = update_deliveries_Some [OF up]
  have "n \<le> 1"
    unfolding d'(2) by (rule count_where_unique [of delivery_key])
      (use core in \<open>auto simp: core_inv_def keys_ok_def at\<close>)
  then consider "n = 0" | "n = 1" by linarith
  then show ?thesis
  proof cases
    case 1
    then have no: "\<forall>w \<in> set (db_deliveries d). \<not> p w" using d'(2) by simp
    then have "d' = d" using d'(1) by (simp add: update_where_none)
    with no 1 show ?thesis using row_at_iff [OF core] by auto
  next
    case 2
    with d'(2) have "count_where p (db_deliveries d) = 1" by simp
    then obtain w where only: "{v \<in> set (db_deliveries d). p v} = {w}"
      by (rule count_where_1_set)
    then have w: "w \<in> set (db_deliveries d)" "p w" by auto
    have "{v \<in> set (db_deliveries d). \<not> p v} = set (db_deliveries d) - {w}"
      using only by auto
    then have set': "set (db_deliveries d') = (set (db_deliveries d) - {w}) \<union> {f w}"
      by (simp add: d'(1) set_update_where only)
    have wkey: "delivery_key w = c" using w by (rule at)
    have "row_at d' k = ((row_at d)(c \<mapsto> f w)) k" for k
    proof (cases "k = c")
      case True
      then show ?thesis using set' key [of w] wkey by (simp add: row_at_iff [OF core'])
    next
      case False
      then show ?thesis
        using set' key [of w] wkey
        by (intro option_ext) (auto simp: row_at_iff [OF core'] row_at_iff [OF core])
    qed
    then have "row_at d' = (row_at d)(c \<mapsto> f w)" by blast
    with w wkey 2 show ?thesis using row_at_iff [OF core] by blast
  qed
qed

lemma mark_rows:
  assumes inv: "db_inv x d" and up: "update_deliveries (attempted item) f d = Some (d', n)"
    and key: "\<And>w. delivery_key (f w) = delivery_key w"
    and ok: "\<And>w. 0 \<le> dl_attempts (f w) \<Longrightarrow> delivery_ok (f w)"
  shows "(n = 1 \<and> (\<exists>w. row_at d (item_key item) = Some w \<and> attempted item w \<and>
            row_at d' = (row_at d)(item_key item \<mapsto> f w))) \<or>
         (n = 0 \<and> d' = d \<and> (\<forall>w. row_at d (item_key item) = Some w \<longrightarrow> \<not> attempted item w))"
  by (rule one_row_update [OF _ _ up key attempted_key])
    (use inv mark_update_inv [OF inv up key ok] in auto)

text \<open>
  The effect of a mark on the rows: exactly the attempted row is rewritten, or nothing is.
\<close>

lemma mark_effect:
  assumes inv: "db_inv x d" and key: "\<And>w. delivery_key (f w) = delivery_key w"
    and ok: "\<And>w. 0 \<le> dl_attempts (f w) \<Longrightarrow> delivery_ok (f w)"
    and r: "expectOneDeliveryUpdate fault operation (update_deliveries (attempted item) f d) d = (d', err)"
  shows "row_at d' = row_at d \<or> (\<exists>w. row_at d (item_key item) = Some w \<and> attempted item w \<and>
           row_at d' = (row_at d)(item_key item \<mapsto> f w))"
    and "err = None \<Longrightarrow> \<exists>w. row_at d (item_key item) = Some w \<and> attempted item w \<and>
           row_at d' = (row_at d)(item_key item \<mapsto> f w)"
proof -
  show "err = None \<Longrightarrow> \<exists>w. row_at d (item_key item) = Some w \<and> attempted item w \<and>
           row_at d' = (row_at d)(item_key item \<mapsto> f w)"
    using r mark_rows [OF inv _ key ok, of item d']
    by (simp add: expectOneDeliveryUpdate_def split: exec_fault.splits option.splits prod.splits if_splits)
  show "row_at d' = row_at d \<or> (\<exists>w. row_at d (item_key item) = Some w \<and> attempted item w \<and>
           row_at d' = (row_at d)(item_key item \<mapsto> f w))"
    using r mark_rows [OF inv _ key ok, of item d']
    by (simp add: expectOneDeliveryUpdate_def split: exec_fault.splits option.splits prod.splits if_splits) blast+
qed

lemma mark_succeeds:
  assumes inv: "db_inv x d" and w: "row_at d (item_key item) = Some w" "attempted item w"
    and key: "\<And>w. delivery_key (f w) = delivery_key w"
    and ok: "\<And>w. 0 \<le> dl_attempts (f w) \<Longrightarrow> delivery_ok (f w)" and pos: "\<And>w. 0 \<le> dl_attempts (f w)"
  shows "\<exists>d'. expectOneDeliveryUpdate ExecOk operation (update_deliveries (attempted item) f d) d = (d', None)"
proof -
  have core: "core_inv x d" using inv by blast
  have "\<not> event_pruned (dl_event (f v)) d" if "v \<in> set (db_deliveries d)" "attempted item v" for v
    using waiting_not_pruned [OF core that(1) attempted_open [OF that(2)]] key [of v] by simp
  then obtain d' n where up: "update_deliveries (attempted item) f d = Some (d', n)"
    using pos by (auto simp: update_deliveries_def not_less [symmetric])
  with mark_rows [OF inv up key ok] w show ?thesis
    by (auto simp: expectOneDeliveryUpdate_def)
qed

section \<open>Selecting the next delivery\<close>

lemma head_of_line_Some:
  "head_of_line k d = Some q \<longleftrightarrow>
     (\<exists>w \<in> set (db_deliveries d). dl_sink w = k \<and> waiting w \<and> dl_event w = q) \<and>
     (\<forall>w \<in> set (db_deliveries d). dl_sink w = k \<and> waiting w \<longrightarrow> q \<le> dl_event w)" (is "_ \<longleftrightarrow> ?rhs")
proof -
  define ws where "ws = filter (\<lambda>w. dl_sink w = k \<and> waiting w) (db_deliveries d)"
  have rhs: "?rhs \<longleftrightarrow> (\<exists>w \<in> set ws. dl_event w = q) \<and> (\<forall>w \<in> set ws. q \<le> dl_event w)"
    unfolding ws_def set_filter by blast
  show ?thesis
  proof (cases "first_by dl_event ws")
    case None
    then have "\<not> ?rhs" unfolding rhs by simp
    moreover have "head_of_line k d = None" using None by (simp add: head_of_line_def ws_def)
    ultimately show ?thesis by (simp only: option.distinct)
  next
    case (Some v)
    have "head_of_line k d = Some q \<longleftrightarrow> dl_event v = q"
      using Some by (simp add: head_of_line_def ws_def)
    with rhs first_by_Some [OF Some] show ?thesis by (metis antisym)
  qed
qed

lemma head_of_lineE:
  assumes "head_of_line k d = Some q"
  obtains v where "v \<in> set (db_deliveries d)" "dl_sink v = k" "waiting v" "dl_event v = q"
  using assms that unfolding head_of_line_Some by metis

lemma set_due_heads:
  "(s, w, r) \<in> set (due_heads now d) \<longleftrightarrow>
     s \<in> set (db_sinks d) \<and> w \<in> set (db_deliveries d) \<and> r \<in> set (db_events d) \<and> sk_active s \<and>
     dl_sink w = sk_id s \<and> head_of_line (sk_id s) d = Some (dl_event w) \<and>
     ev_sequence r = dl_event w \<and> dl_next_attempt_at w \<le> now"
  by (auto simp: due_heads_def)

lemma due_head_waiting:
  assumes "core_inv x d" and "(s, w, r) \<in> set (due_heads now d)"
  shows "waiting w" and "\<forall>v \<in> set (db_deliveries d). dl_sink v = dl_sink w \<and> waiting v \<longrightarrow> dl_event w \<le> dl_event v"
    and "retained r" and "Sum256 x (ev_payload r) = ev_payload_sha256 r"
proof -
  have w: "w \<in> set (db_deliveries d)" "dl_sink w = sk_id s" "head_of_line (sk_id s) d = Some (dl_event w)"
    and r: "r \<in> set (db_events d)" "ev_sequence r = dl_event w"
    using assms(2) by (simp_all add: set_due_heads)
  obtain v where v: "v \<in> set (db_deliveries d)" "dl_sink v = sk_id s" "waiting v" "dl_event v = dl_event w"
    by (rule head_of_lineE [OF w(3)])
  then have "v = w" using delivery_unique [OF assms(1) v(1) w(1)] w(2) by simp
  with v show wait: "waiting w" by simp
  show "\<forall>v \<in> set (db_deliveries d). dl_sink v = dl_sink w \<and> waiting v \<longrightarrow> dl_event w \<le> dl_event v"
    using w unfolding head_of_line_Some by simp
  have "\<not> event_pruned (dl_event w) d"
    by (rule waiting_not_pruned [OF assms(1) w(1)]) (use wait in auto)
  with r show ret: "retained r" by (auto simp: event_pruned_def)
  show "Sum256 x (ev_payload r) = ev_payload_sha256 r"
    using core_invD(3) [OF assms(1)] r(1) ret by (auto simp: payloads_ok_def)
qed

lemma NextDueDelivery_Some:
  assumes "NextDueDelivery f now d = Inr (Some item)"
  obtains s w r where "item = delivery_item (s, w, r)" "(s, w, r) \<in> set (due_heads now d)"
    "\<forall>s' w' r'. (s', w', r') \<in> set (due_heads now d) \<longrightarrow> (ev_sequence r, sk_id s) \<le> (ev_sequence r', sk_id s')"
proof -
  let ?k = "\<lambda>(s :: sink_row, w :: delivery_row, r). (ev_sequence r, sk_id s)"
  obtain t where t: "first_by ?k (due_heads now d) = Some t" "item = delivery_item t"
    using assms by (auto simp: NextDueDelivery_def split: if_splits)
  obtain s w r where "t = (s, w, r)" by (cases t)
  with t first_by_Some [OF t(1)] that [of s w r] show ?thesis by fastforce
qed

lemma head_of_line_least:
  "head_of_line k d = Some q \<Longrightarrow> w \<in> set (db_deliveries d) \<Longrightarrow> dl_sink w = k \<Longrightarrow> waiting w \<Longrightarrow>
     q \<le> dl_event w"
  by (simp add: head_of_line_Some)

lemma waiting_blocked:
  assumes inv: "db_inv x d" and none: "due_heads now d = []"
    and w: "w \<in> set (db_deliveries d)" "waiting w"
  shows "\<exists>v \<in> set (db_deliveries d). dl_sink v = dl_sink w \<and> waiting v \<and> dl_event v \<le> dl_event w \<and>
           now < dl_next_attempt_at v"
proof -
  have "filter (\<lambda>v. dl_sink v = dl_sink w \<and> waiting v) (db_deliveries d) \<noteq> []"
    using w by (auto simp: filter_empty_conv)
  then obtain q where q: "head_of_line (dl_sink w) d = Some q"
    by (cases "head_of_line (dl_sink w) d") (simp_all add: head_of_line_def)
  then obtain v where v: "v \<in> set (db_deliveries d)" "dl_sink v = dl_sink w" "waiting v" "dl_event v = q"
    by (rule head_of_lineE)
  obtain s where s: "s \<in> set (db_sinks d)" "sk_id s = dl_sink v" "sk_active s"
    using routed_waiting [OF inv v(1,3)] by blast
  obtain r where r: "r \<in> set (db_events d)" "ev_sequence r = dl_event v"
    using inv v(1) by (force simp: db_inv_def core_inv_def refs_ok_def)
  have "(s, v, r) \<notin> set (due_heads now d)" using none by simp
  then have late: "now < dl_next_attempt_at v"
    using s r v q by (simp add: set_due_heads)
  have "dl_event v \<le> dl_event w"
    unfolding v(4) by (rule head_of_line_least [OF q w(1) refl w(2)])
  with v(2,3) late show ?thesis by (intro bexI [OF _ v(1)] conjI)
qed

lemma redrivable_key:
  assumes "redrivable n so i d w" and "redrivable n so i d v"
  shows "delivery_key w = delivery_key v"
  using assms by (auto simp: redrivable_def)

lemma redrivable_iff:
  assumes inv: "core_inv x d"
  shows "redrivable n so i d w \<longleftrightarrow> dl_state w = DeadLetter \<and>
    (\<exists>s \<in> set (db_sinks d). sk_name s = n \<and> sk_active s \<and> sk_id s = dl_sink w) \<and>
    (\<exists>r \<in> set (db_events d). event_identity r = (so, i) \<and> ev_sequence r = dl_event w)"
proof -
  have 1: "List.find (\<lambda>s. sk_name s = n \<and> sk_active s) (db_sinks d) = Some s \<longleftrightarrow>
      s \<in> set (db_sinks d) \<and> sk_name s = n \<and> sk_active s" for s
  proof
    show "s \<in> set (db_sinks d) \<and> sk_name s = n \<and> sk_active s \<Longrightarrow>
        List.find (\<lambda>s. sk_name s = n \<and> sk_active s) (db_sinks d) = Some s"
      by (rule find_unique [of sk_name]) (use inv in \<open>auto simp: core_inv_def keys_ok_def\<close>)
  qed (auto dest: find_SomeD)
  have 2: "find_event so i d = Some r \<longleftrightarrow> r \<in> set (db_events d) \<and> event_identity r = (so, i)" for r
    using find_event_eq [OF inv, of r] find_event_SomeD [of so i d r] by auto
  show ?thesis
    unfolding redrivable_def by (auto simp: map_option_eq_Some 1 2)
qed

lemma mark_exact:
  assumes inv: "db_inv x d"
    and r: "expectOneDeliveryUpdate ExecOk operation (update_deliveries (attempted item) f d) d = (d', err)"
    and key: "\<And>w. delivery_key (f w) = delivery_key w"
    and ok: "\<And>w. 0 \<le> dl_attempts (f w) \<Longrightarrow> delivery_ok (f w)" and pos: "\<And>w. 0 \<le> dl_attempts (f w)"
  shows "case err of
      None \<Rightarrow> \<exists>w. row_at d (item_key item) = Some w \<and> attempted item w \<and>
        row_at d' = (row_at d)(item_key item \<mapsto> f w)
    | Some e \<Rightarrow> e = ErrDurability operation \<and> d' = d \<and>
        (\<forall>w. row_at d (item_key item) = Some w \<longrightarrow> \<not> attempted item w)"
proof (cases "update_deliveries (attempted item) f d")
  case None
  then have "row_at d (item_key item) = Some w \<longrightarrow> \<not> attempted item w" for w
    using mark_succeeds [OF inv _ _ key ok pos, of item w operation] by (auto simp: expectOneDeliveryUpdate_def)
  with None r show ?thesis by (auto simp: expectOneDeliveryUpdate_def)
next
  case (Some t)
  obtain d1 n where t: "t = (d1, n)" by (cases t)
  from mark_rows [OF inv Some [unfolded t] key ok] r Some t show ?thesis
    by (auto simp: expectOneDeliveryUpdate_def split: if_splits)
qed

section \<open>What the delivery operations guarantee\<close>

text \<open>Whatever the fault of its statement, each write of the delivery side keeps the
  invariant of the spool: keys, references, the state columns of a delivery row, payload
  retention, fan-out and the routing of waiting rows to active sinks.\<close>

theorem delivery_ops_invariant:
  assumes "db_inv x d"
  shows "db_inv x (fst (MarkDelivered fault item attempt status now d)) \<and>
    db_inv x (fst (MarkFailed fault item attempt permanent retryAt failure status now d)) \<and>
    db_inv x (fst (RedriveDelivery fault sinkName source i now d))"
  using assms by (simp_all add: MarkDelivered_inv MarkFailed_inv RedriveDelivery_inv)

text \<open>(C19) The delivery \<open>NextDueDelivery\<close> hands out belongs to an active sink, is due, is the
  oldest delivery of that sink that is not terminal, carries the retained payload of its event
  with the digest recorded at capture, shows the row's attempt count, and comes first in
  (sequence, sink) order among all due heads of line.\<close>

theorem NextDueDelivery_sound:
  assumes inv: "db_inv x d" and r: "NextDueDelivery fails now d = Inr (Some item)"
  shows "\<exists>s w r. item = delivery_item (s, w, r) \<and> s \<in> set (db_sinks d) \<and> sk_active s \<and>
    row_at d (item_key item) = Some w \<and> attempted item w \<and> dl_next_attempt_at w \<le> now \<and>
    (\<forall>v \<in> set (db_deliveries d). dl_sink v = dl_sink w \<and> waiting v \<longrightarrow> dl_event w \<le> dl_event v) \<and>
    r \<in> set (db_events d) \<and> retained r \<and> Sum256 x (dv_Payload item) = ev_payload_sha256 r \<and>
    (\<forall>s' w' r'. (s', w', r') \<in> set (due_heads now d) \<longrightarrow>
       (dv_EventSequence item, dv_SinkID item) \<le> (ev_sequence r', sk_id s'))"
proof -
  have core: "core_inv x d" using inv by blast
  obtain s w r where item: "item = delivery_item (s, w, r)" and t: "(s, w, r) \<in> set (due_heads now d)"
    and least: "\<forall>s' w' r'. (s', w', r') \<in> set (due_heads now d) \<longrightarrow> (ev_sequence r, sk_id s) \<le> (ev_sequence r', sk_id s')"
    using r by (rule NextDueDelivery_Some)
  note rows = t [unfolded set_due_heads]
  note head = due_head_waiting [OF core t]
  have "row_at d (item_key item) = Some w" "attempted item w"
    using rows head(1) by (simp_all add: item delivery_item_def row_at_iff [OF core] attempted_def)
  moreover have "Sum256 x (dv_Payload item) = ev_payload_sha256 r"
    using head(4) by (simp add: item delivery_item_def)
  moreover have "\<forall>s' w' r'. (s', w', r') \<in> set (due_heads now d) \<longrightarrow>
       (dv_EventSequence item, dv_SinkID item) \<le> (ev_sequence r', sk_id s')"
    using least by (simp add: item delivery_item_def)
  ultimately show ?thesis
    using item rows head(2,3) by (intro exI [of _ s] exI [of _ w] exI [of _ r]) simp
qed

text \<open>(C20) When \<open>NextDueDelivery\<close> finds nothing, no delivery is skipped: every delivery that is
  not terminal waits behind, or is itself, the head of its sink's line, whose next attempt is
  still in the future.\<close>

theorem NextDueDelivery_complete:
  assumes inv: "db_inv x d" and r: "NextDueDelivery fails now d = Inr None"
    and w: "w \<in> set (db_deliveries d)" "waiting w"
  shows "\<exists>v \<in> set (db_deliveries d). dl_sink v = dl_sink w \<and> waiting v \<and> dl_event v \<le> dl_event w \<and>
           now < dl_next_attempt_at v"
proof -
  have "due_heads now d = []" using r by (simp add: NextDueDelivery_def split: if_splits)
  then show ?thesis by (rule waiting_blocked [OF inv _ w])
qed

text \<open>\<open>MarkDelivered\<close> is an optimistic update of one row. It succeeds exactly when the row
  of the delivery still waits with the attempt count that was handed out, and then that row
  alone becomes delivered; otherwise it fails with \<open>ErrDurability\<close> and changes nothing.\<close>

theorem MarkDelivered_exact:
  assumes inv: "db_inv x d" and pos: "0 \<le> attempt"
    and r: "MarkDelivered ExecOk item attempt status now d = (d', err)"
  shows "case err of
      None \<Rightarrow> \<exists>w. row_at d (item_key item) = Some w \<and> attempted item w \<and>
        row_at d' = (row_at d)(item_key item \<mapsto> delivered_row attempt status now w)
    | Some e \<Rightarrow> e = ErrDurability ''mark delivered'' \<and> d' = d \<and>
        (\<forall>w. row_at d (item_key item) = Some w \<longrightarrow> \<not> attempted item w)"
  by (rule mark_exact [OF inv r [unfolded MarkDelivered_def]]) (use pos in \<open>simp_all add: delivery_ok_rows\<close>)

text \<open>\<open>MarkFailed\<close> has the same guard. The row it rewrites becomes a dead letter when the
  failure is permanent and waits until the given time otherwise.\<close>

theorem MarkFailed_exact:
  assumes inv: "db_inv x d" and pos: "0 \<le> attempt"
    and r: "MarkFailed ExecOk item attempt permanent retryAt failure status now d = (d', err)"
  shows "case err of
      None \<Rightarrow> \<exists>w. row_at d (item_key item) = Some w \<and> attempted item w \<and>
        row_at d' = (row_at d)(item_key item \<mapsto> failed_row attempt permanent retryAt failure status now w)
    | Some e \<Rightarrow> e = ErrDurability ''mark failed'' \<and> d' = d \<and>
        (\<forall>w. row_at d (item_key item) = Some w \<longrightarrow> \<not> attempted item w)"
  by (rule mark_exact [OF inv r [unfolded MarkFailed_def]]) (use pos in \<open>simp_all add: delivery_ok_rows\<close>)

text \<open>\<open>RedriveDelivery\<close> reopens a delivery exactly when it is the dead letter of the named
  active sink for the event with that identity. Only that row changes: it waits again, with no
  attempts and due now. When there is no such row the call fails and changes nothing.\<close>

theorem RedriveDelivery_exact:
  assumes inv: "db_inv x d" and r: "RedriveDelivery ExecOk sinkName source i now d = (d', err)"
  shows "case err of
      None \<Rightarrow> \<exists>w. dl_state w = DeadLetter \<and> row_at d (delivery_key w) = Some w \<and>
        (\<exists>s \<in> set (db_sinks d). sk_name s = sinkName \<and> sk_active s \<and> sk_id s = dl_sink w) \<and>
        (\<exists>r \<in> set (db_events d). event_identity r = (source, i) \<and> ev_sequence r = dl_event w) \<and>
        row_at d' = (row_at d)(delivery_key w \<mapsto> redriven_row now w)
    | Some e \<Rightarrow> d' = d \<and> (\<forall>w s r. row_at d (ev_sequence r, sk_id s) = Some w \<and> s \<in> set (db_sinks d) \<and>
        r \<in> set (db_events d) \<and> sk_name s = sinkName \<and> sk_active s \<and> event_identity r = (source, i) \<longrightarrow>
        dl_state w \<noteq> DeadLetter)"
proof -
  have core: "core_inv x d" using inv by blast
  note iff = redrivable_iff [OF core, of sinkName source i]
  let ?p = "redrivable sinkName source i d"
  have np: "\<not> event_pruned (dl_event w) d" if "w \<in> set (db_deliveries d)" "?p w" for w
    by (rule waiting_not_pruned [OF core that(1)]) (use that(2) in \<open>simp add: redrivable_def\<close>)
  then obtain d1 n where up: "update_deliveries ?p (redriven_row now) d = Some (d1, n)"
    by (auto simp: update_deliveries_def)
  have core1: "core_inv x d1" using redrive_update_inv [OF inv up] by blast
  show ?thesis
  proof (cases "\<exists>w \<in> set (db_deliveries d). ?p w")
    case True
    then obtain w where w: "w \<in> set (db_deliveries d)" "?p w" by blast
    have "row_at d (delivery_key w) = Some w" using w by (simp add: row_at_iff [OF core])
    with one_row_update [OF core core1 up _ redrivable_key [OF _ w(2)]] w(2)
    have "n = 1" "row_at d1 = (row_at d)(delivery_key w \<mapsto> redriven_row now w)" by auto
    with up r w iff [of w] show ?thesis
      by (auto simp: RedriveDelivery_def row_at_iff [OF core])
  next
    case False
    then have "n = 0" "d1 = d"
      using update_deliveries_Some [OF up] by (auto simp: update_where_none)
    moreover have "dl_state w \<noteq> DeadLetter"
      if "row_at d (ev_sequence r, sk_id s) = Some w" "s \<in> set (db_sinks d)" "r \<in> set (db_events d)"
        "sk_name s = sinkName" "sk_active s" "event_identity r = (source, i)" for w s r
    proof
      assume "dl_state w = DeadLetter"
      moreover have "w \<in> set (db_deliveries d)" "dl_event w = ev_sequence r" "dl_sink w = sk_id s"
        using that(1) by (simp_all add: row_at_iff [OF core])
      ultimately have "?p w" using that unfolding iff by metis
      with False \<open>w \<in> set (db_deliveries d)\<close> show False by blast
    qed
    ultimately show ?thesis
      using up r by (auto simp: RedriveDelivery_def)
  qed
qed
section \<open>The operations on a concrete spool\<close>

definition example_item :: Delivery where
  "example_item = \<lparr>dv_EventSequence = 1, dv_SinkID = 1, dv_SinkName = ''orders'',
     dv_SinkType = ''webhook'', dv_Source = ''urn:billing'', dv_ID = ''evt-1'', dv_Type = ''order.paid'',
     dv_Subject = ''order-1'', dv_Payload = ''{}'', dv_Attempts = 0\<rparr>"

definition dead_db :: db where
  "dead_db = captured_db\<lparr>db_deliveries := [failed_row 1 True 20 ''http 400'' 400 20 (new_delivery 1 1 10)]\<rparr>"

lemmas delivery_defs = example_item_def dead_db_def new_delivery_def captured_row_def first_by_def
  due_heads_def head_of_line_def delivery_item_def NextDueDelivery_def attempted_def
  update_deliveries_def update_where_def count_where_def event_pruned_def expectOneDeliveryUpdate_def

lemma example_next: "NextDueDelivery False 10 captured_db = Inr (Some example_item)"
  by (simp add: delivery_defs example_defs)

lemma example_mark: "snd (MarkDelivered ExecOk example_item 1 200 20 captured_db) = None"
  by (simp add: MarkDelivered_def delivery_defs example_defs)

lemma example_fail:
  "MarkFailed ExecOk example_item 1 True 20 ''http 400'' 400 20 captured_db = (dead_db, None)"
  by (simp add: MarkFailed_def delivery_defs example_defs)

lemma dead_db_inv: "db_inv example_externals dead_db"
  using MarkFailed_inv [OF captured_db_inv, of ExecOk example_item 1 True 20 "''http 400''" 400 20]
  by (simp add: example_fail)

theorem delivery_ops_invariant_witness:
  "db_inv example_externals (fst (RedriveDelivery ExecLanded ''orders'' ''urn:billing'' ''evt-1'' 30 dead_db))"
  using delivery_ops_invariant [OF dead_db_inv] by blast

theorem NextDueDelivery_sound_witness:
  "\<exists>w. row_at captured_db (item_key example_item) = Some w \<and> attempted example_item w \<and> dl_next_attempt_at w \<le> 10"
  using NextDueDelivery_sound [OF captured_db_inv example_next] by blast

theorem NextDueDelivery_complete_witness:
  "\<exists>v \<in> set (db_deliveries captured_db). dl_sink v = 1 \<and> waiting v \<and> dl_event v \<le> 1 \<and> 9 < dl_next_attempt_at v"
  using NextDueDelivery_complete [OF captured_db_inv, of False 9 "new_delivery 1 1 10"]
  by (simp add: delivery_defs example_defs)

theorem MarkDelivered_exact_witness:
  "\<exists>w. row_at captured_db (1, 1) = Some w \<and>
     row_at (fst (MarkDelivered ExecOk example_item 1 200 20 captured_db)) =
       (row_at captured_db)((1, 1) \<mapsto> delivered_row 1 200 20 w)"
  using MarkDelivered_exact [OF captured_db_inv, of 1 example_item 200 20, OF _ surjective_pairing]
  by (auto simp: example_mark) (simp add: example_item_def)

theorem MarkFailed_exact_witness:
  "\<exists>w. row_at captured_db (1, 1) = Some w \<and>
     row_at dead_db = (row_at captured_db)((1, 1) \<mapsto> failed_row 1 True 20 ''http 400'' 400 20 w)"
  using MarkFailed_exact [OF captured_db_inv _ example_fail] by (auto simp: example_item_def)

lemma example_redrive: "snd (RedriveDelivery ExecOk ''orders'' ''urn:billing'' ''evt-1'' 30 dead_db) = None"
  by (simp add: RedriveDelivery_def redrivable_def find_event_def failed_row_def delivery_defs example_defs)

theorem RedriveDelivery_exact_witness:
  "\<exists>w. dl_state w = DeadLetter \<and> row_at dead_db (delivery_key w) = Some w \<and>
     row_at (fst (RedriveDelivery ExecOk ''orders'' ''urn:billing'' ''evt-1'' 30 dead_db)) =
       (row_at dead_db)(delivery_key w \<mapsto> redriven_row 30 w)"
  using RedriveDelivery_exact [OF dead_db_inv surjective_pairing, of "''orders''" "''urn:billing''" "''evt-1''" 30]
  by (auto simp: example_redrive)

end
