(* ===== verification/Store_Prune.thy ===== *)
theory Store_Prune
  imports Store_Delivery
begin

text \<open>
  Retention: \<open>Prune\<close> of \<open>internal/spool/sqlite/prune.go\<close>, which removes the payload bytes of events
  that every sink has received, in one SQLite transaction. The file system, the clock and the
  statements that fail are recorded in the environment. A failing call also returns the partial
  result, as the code does.
\<close>

section \<open>Definitions\<close>

record PruneOptions =
  po_Before :: time
  po_Limit :: int
  po_DryRun :: bool

record PruneEntry =
  pn_Sequence :: int
  pn_Source :: string
  pn_ID :: string
  pn_PayloadBytes :: int

record PruneResult =
  pt_DryRun :: bool
  pt_Before :: time
  pt_Limit :: int
  pt_Events :: nat
  pt_PayloadBytes :: int
  pt_Entries :: "PruneEntry list"

datatype file_kind = FileMissing | FileIrregular | FileRegular

datatype prune_point =
    PruneAbsPath
  | PruneOpen
  | PruneConn
  | PruneBegin
  | PruneReadSchema
  | PruneReadJournal
  | PruneSelect
  | PruneRowsErr
  | PruneRowsClose
  | PruneUpdate nat
  | PruneRowsAffected nat

record prune_env =
  pz_now :: time
  pz_file :: file_kind
  pz_journal :: string
  pz_fails :: "prune_point \<Rightarrow> bool"
  pz_scan_fails :: "nat option"
  pz_commit :: commit_fault

definition currentSchemaVersion :: nat where
  "currentSchemaVersion = 3"

definition schema_version :: "db \<Rightarrow> nat" where
  "schema_version d = fold max (db_schema d) 0"

definition prunable :: "time \<Rightarrow> db \<Rightarrow> event_row \<Rightarrow> bool" where
  "prunable before d r \<longleftrightarrow> retained r \<and> (\<exists>w \<in> set (db_deliveries d). dl_event w = ev_sequence r) \<and>
     \<not> (\<exists>w \<in> set (db_deliveries d). dl_event w = ev_sequence r \<and>
          (dl_state w \<noteq> Delivered \<or> dl_delivered_at w = None \<or> the (dl_delivered_at w) \<ge> before))"

definition prune_entry :: "event_row \<Rightarrow> PruneEntry" where
  "prune_entry r = \<lparr>pn_Sequence = ev_sequence r, pn_Source = ev_source r, pn_ID = ev_id r,
     pn_PayloadBytes = int (length (ev_payload r))\<rparr>"

definition prune_candidates :: "PruneOptions \<Rightarrow> db \<Rightarrow> event_row list" where
  "prune_candidates options d =
     take (nat (po_Limit options)) (sort_key ev_sequence (filter (prunable (po_Before options) d) (db_events d)))"

definition scanned :: "PruneResult \<Rightarrow> PruneEntry list \<Rightarrow> PruneResult" where
  "scanned result entries =
     result\<lparr>pt_PayloadBytes := sum_list (map pn_PayloadBytes entries), pt_Entries := entries\<rparr>"

fun prune_entries :: "Hooks \<Rightarrow> prune_env \<Rightarrow> nat \<Rightarrow> PruneEntry list \<Rightarrow> db \<Rightarrow> (string, db) outcome" where
  "prune_entries hooks e index [] d = Ok d"
| "prune_entries hooks e index (entry # entries) d =
     (if pz_fails e (PruneUpdate index) then Err ''prune payload''
      else (case update_pruned (pn_Sequence entry) (pz_now e) d of
              None \<Rightarrow> Err ''prune payload''
            | Some (d', count) \<Rightarrow>
                if pz_fails e (PruneRowsAffected index) \<or> count \<noteq> 1 then Err ''prune changed rows, expected one''
                else if CallAfterPrunePayload hooks index then Halted
                else prune_entries hooks e (Suc index) entries d'))"

text \<open>The transaction, once it has begun: everything before the commit is undone by the deferred
  rollback, and a crash undoes it as well.\<close>

definition prune_tx ::
    "Hooks \<Rightarrow> prune_env \<Rightarrow> PruneOptions \<Rightarrow> PruneResult \<Rightarrow> db \<Rightarrow> db \<times> PruneResult \<times> (string, unit) outcome" where
  "prune_tx hooks e options result d =
     (if pz_fails e PruneReadSchema then (d, result, Err ''read prune schema'')
      else if schema_version d \<noteq> currentSchemaVersion then (d, result, Err ''prune requires the current schema version'')
      else if pz_fails e PruneReadJournal \<or> pz_journal e \<noteq> ''wal'' then (d, result, Err ''prune requires a WAL spool'')
      else if pz_fails e PruneSelect then (d, result, Err ''select prune candidates'')
      else
        (let entries = map prune_entry (prune_candidates options d) in
         case pz_scan_fails e of
           Some n \<Rightarrow> (d, scanned result (take n entries), Err ''scan prune candidate'')
         | None \<Rightarrow>
             (let result1 = scanned result entries; result2 = result1\<lparr>pt_Events := length entries\<rparr> in
              if pz_fails e PruneRowsErr \<or> pz_fails e PruneRowsClose then (d, result1, Err ''read prune candidates'')
              else (case (if po_DryRun options then Ok d else prune_entries hooks e 0 entries d) of
                      Err err \<Rightarrow> (d, result2, Err err)
                    | Halted \<Rightarrow> (d, result2, Halted)
                    | Ok d' \<Rightarrow>
                        (case pz_commit e of
                           CommitLost \<Rightarrow> (d, result2, Err ''commit prune transaction'')
                         | CommitLanded \<Rightarrow> (d', result2, Err ''commit prune transaction'')
                         | CommitOk \<Rightarrow>
                             (d', result2, if \<not> po_DryRun options \<and> CallAfterPruneCommit hooks then Halted else Ok ()))))))"

definition pruneWithHooks ::
    "Hooks \<Rightarrow> prune_env \<Rightarrow> string \<Rightarrow> PruneOptions \<Rightarrow> db \<Rightarrow> db \<times> PruneResult \<times> (string, unit) outcome" where
  "pruneWithHooks hooks e path options d =
     (let result = \<lparr>pt_DryRun = po_DryRun options, pt_Before = po_Before options, pt_Limit = po_Limit options,
            pt_Events = 0, pt_PayloadBytes = 0, pt_Entries = []\<rparr> in
      if po_Before options = zero_time \<or> po_Before options > pz_now e
        then (d, result, Err ''prune cutoff must be a non-zero timestamp no later than now'')
      else if po_Limit options < 1 \<or> po_Limit options > 1000
        then (d, result, Err ''prune limit must be between 1 and 1000'')
      else if path = [] then (d, result, Err ''spool path is required'')
      else (case pz_file e of
              FileMissing \<Rightarrow> (d, result, Err ''inspect existing spool for prune'')
            | FileIrregular \<Rightarrow> (d, result, Err ''spool path must be a regular file, not a symbolic link or directory'')
            | FileRegular \<Rightarrow>
                if pz_fails e PruneAbsPath then (d, result, Err ''absolute path'')
                else if pz_fails e PruneOpen then (d, result, Err ''open spool for prune'')
                else if pz_fails e PruneConn then (d, result, Err ''connect to spool for prune'')
                else if pz_fails e PruneBegin then (d, result, Err ''begin prune transaction'')
                else prune_tx hooks e options result d))"

definition Prune :: "prune_env \<Rightarrow> string \<Rightarrow> PruneOptions \<Rightarrow> db \<Rightarrow> db \<times> PruneResult \<times> (string, unit) outcome" where
  "Prune e path options d = pruneWithHooks no_hooks e path options d"

section \<open>What the update loop does\<close>

definition prune_row :: "time \<Rightarrow> int set \<Rightarrow> event_row \<Rightarrow> event_row" where
  "prune_row now Q r = (if ev_sequence r \<in> Q \<and> retained r then r\<lparr>ev_payload := [], ev_pruned_at := Some now\<rparr> else r)"

lemma prune_row_simps [simp]:
  "ev_sequence (prune_row now Q r) = ev_sequence r" "ev_source (prune_row now Q r) = ev_source r"
  "ev_id (prune_row now Q r) = ev_id r" "ev_payload_sha256 (prune_row now Q r) = ev_payload_sha256 r"
  "prune_row now {} r = r" "prune_row now Q (prune_row now {q} r) = prune_row now (insert q Q) r"
  "retained (prune_row now Q r) \<longleftrightarrow> retained r \<and> ev_sequence r \<notin> Q"
  by (auto simp: prune_row_def)

definition prune_rows :: "time \<Rightarrow> int set \<Rightarrow> db \<Rightarrow> db" where
  "prune_rows now Q d = d\<lparr>db_events := map (prune_row now Q) (db_events d)\<rparr>"

lemma prune_rows_simps [simp]:
  "db_deliveries (prune_rows now Q d) = db_deliveries d" "db_sinks (prune_rows now Q d) = db_sinks d"
  "db_metadata (prune_rows now Q d) = db_metadata d" "db_events (prune_rows now Q d) = map (prune_row now Q) (db_events d)"
  "prune_rows now {} d = d" "prune_rows now Q (prune_rows now {q} d) = prune_rows now (insert q Q) d"
  "all_delivered q (prune_rows now Q d) = all_delivered q d"
  by (simp_all add: prune_rows_def comp_def map_idI)

lemma update_pruned_Some:
  "update_pruned q now d = Some (d', n) \<Longrightarrow> d' = prune_rows now {q} d"
  by (auto simp: update_pruned_def prune_rows_def update_where_def prune_row_def Let_def split: if_splits)

lemma prune_entries_Ok:
  "prune_entries h e i es d = Ok d' \<Longrightarrow> d' = prune_rows (pz_now e) (pn_Sequence ` set es) d"
proof (induction es arbitrary: i d)
  case (Cons a es)
  then obtain d1 n where "update_pruned (pn_Sequence a) (pz_now e) d = Some (d1, n)"
      and rest: "prune_entries h e (Suc i) es d1 = Ok d'"
    by (auto split: if_splits option.splits)
  then have "d1 = prune_rows (pz_now e) {pn_Sequence a} d" by (simp add: update_pruned_Some)
  with Cons.IH [OF rest] show ?case by simp
qed simp

section \<open>Candidates\<close>

lemma set_candidates: "r \<in> set (prune_candidates options d) \<Longrightarrow> r \<in> set (db_events d) \<and> prunable (po_Before options) d r"
  by (auto simp: prune_candidates_def dest!: in_set_takeD)

lemma candidates_sequences:
  "pn_Sequence ` set (map prune_entry (prune_candidates options d)) = ev_sequence ` set (prune_candidates options d)"
  by (force simp: prune_entry_def)

lemma candidates_distinct:
  assumes "core_inv x d"
  shows "distinct (map ev_sequence (prune_candidates options d))"
proof -
  have "distinct (map ev_sequence (db_events d))"
    using assms by (auto simp: core_inv_def keys_ok_def dest: strict_sorted_distinct)
  then have "distinct (map ev_sequence (filter (prunable (po_Before options) d) (db_events d)))"
    by (simp add: distinct_map_filter)
  then have "distinct (map ev_sequence (sort_key ev_sequence (filter (prunable (po_Before options) d) (db_events d))))"
    by (simp add: distinct_map)
  then show ?thesis by (simp add: prune_candidates_def take_map [symmetric] distinct_take)
qed

lemma prunable_delivered: "prunable before d r \<Longrightarrow> all_delivered (ev_sequence r) d"
  by (auto simp: prunable_def all_delivered_def)

text \<open>The loop cannot fail by itself: the trigger and the row count agree with the selection.\<close>

lemma update_pruned_total:
  assumes "core_inv x d" and "r \<in> set (db_events d)" and "retained r" and "all_delivered (ev_sequence r) d"
  shows "update_pruned (ev_sequence r) now d = Some (prune_rows now {ev_sequence r} d, 1)"
proof -
  have "distinct (map ev_sequence (db_events d))"
    using assms(1) by (auto simp: core_inv_def keys_ok_def dest: strict_sorted_distinct)
  then have "count_where (\<lambda>r'. ev_sequence r' = ev_sequence r \<and> retained r') (db_events d) \<le> 1"
    by (rule count_where_unique) simp
  moreover have "count_where (\<lambda>r'. ev_sequence r' = ev_sequence r \<and> retained r') (db_events d) \<noteq> 0"
    using assms(2,3) unfolding count_where_0 by blast
  ultimately have "count_where (\<lambda>r'. ev_sequence r' = ev_sequence r \<and> retained r') (db_events d) = 1" by linarith
  then show ?thesis
    using assms(4) by (auto simp: update_pruned_def Let_def prune_rows_def update_where_def prune_row_def)
qed

lemma core_inv_prune_rows:
  assumes "core_inv x d" and "\<forall>q \<in> Q. all_delivered q d"
  shows "core_inv x (prune_rows now Q d)"
proof -
  have "map ev_sequence (db_events (prune_rows now Q d)) = map ev_sequence (db_events d)"
    "map event_identity (db_events (prune_rows now Q d)) = map event_identity (db_events d)" by simp_all
  moreover have "ev_sequence ` set (db_events (prune_rows now Q d)) = ev_sequence ` set (db_events d)"
    by (simp add: image_image)
  moreover have "payloads_ok x (prune_rows now Q d)"
    using assms by (auto simp: core_inv_def payloads_ok_def prune_row_def)
  ultimately show ?thesis
    using assms(1) unfolding core_inv_def keys_ok_def refs_ok_def checkpoint_ok_def
    by (simp add: prune_rows_def comp_def)
qed

lemma db_inv_prune_rows:
  assumes "db_inv x d" and "\<forall>q \<in> Q. all_delivered q d"
  shows "db_inv x (prune_rows now Q d)"
  using assms core_inv_prune_rows [of x d Q now] by (auto simp: db_inv_def fanout_ok_def routed_ok_def)

lemma prune_entries_total:
  assumes "core_inv x d" and "\<forall>i. \<not> pz_fails e (PruneUpdate i) \<and> \<not> pz_fails e (PruneRowsAffected i)"
    and "\<forall>i. \<not> CallAfterPrunePayload h i" and "distinct (map pn_Sequence es)"
    and "\<forall>a \<in> set es. \<exists>r \<in> set (db_events d). ev_sequence r = pn_Sequence a \<and> retained r \<and> all_delivered (pn_Sequence a) d"
  shows "\<exists>d'. prune_entries h e i es d = Ok d'"
  using assms
proof (induction es arbitrary: i d)
  case (Cons a es)
  obtain r where r: "r \<in> set (db_events d)" "ev_sequence r = pn_Sequence a" "retained r" "all_delivered (pn_Sequence a) d"
    using Cons.prems(5) by auto
  let ?d = "prune_rows (pz_now e) {pn_Sequence a} d"
  have step: "update_pruned (pn_Sequence a) (pz_now e) d = Some (?d, 1)"
    using update_pruned_total [OF Cons.prems(1) r(1,3), of "pz_now e"] r by simp
  have "core_inv x ?d" using core_inv_prune_rows [OF Cons.prems(1)] r(4) by simp
  moreover have "\<forall>b \<in> set es. \<exists>r \<in> set (db_events ?d). ev_sequence r = pn_Sequence b \<and> retained r \<and> all_delivered (pn_Sequence b) ?d"
  proof
    fix b assume b: "b \<in> set es"
    then obtain r' where r': "r' \<in> set (db_events d)" "ev_sequence r' = pn_Sequence b" "retained r'" "all_delivered (pn_Sequence b) d"
      using Cons.prems(5) by auto
    moreover have "pn_Sequence b \<noteq> pn_Sequence a" using imageI [OF b, of pn_Sequence] Cons.prems(4) by auto
    ultimately have "prune_row (pz_now e) {pn_Sequence a} r' = r'" by (simp add: prune_row_def)
    then have "r' \<in> set (db_events ?d)" using imageI [OF r'(1), of "prune_row (pz_now e) {pn_Sequence a}"] by simp
    then show "\<exists>r \<in> set (db_events ?d). ev_sequence r = pn_Sequence b \<and> retained r \<and> all_delivered (pn_Sequence b) ?d"
      using r'(2-4) by (intro bexI [of _ r']) simp_all
  qed
  ultimately show ?case using Cons.IH [of ?d "Suc i"] Cons.prems(2,3,4) step by simp
qed simp

lemma pruneWithHooks_cases:
  assumes "pruneWithHooks h e path options d = (d', result, res)"
  obtains (unchanged) "d' = d" "res = Ok () \<longrightarrow> po_DryRun options"
    | (pruned) "d' = prune_rows (pz_now e) (ev_sequence ` set (prune_candidates options d)) d" "\<not> po_DryRun options"
        "1 \<le> po_Limit options" "po_Limit options \<le> 1000" "po_Before options \<le> pz_now e"
        "pt_Entries result = map prune_entry (prune_candidates options d)"
proof (cases "d' = d \<and> (res = Ok () \<longrightarrow> po_DryRun options)")
  case False
  then have "\<not> po_DryRun options \<and> 1 \<le> po_Limit options \<and> po_Limit options \<le> 1000 \<and> po_Before options \<le> pz_now e \<and>
    pt_Entries result = map prune_entry (prune_candidates options d) \<and>
    prune_entries h e 0 (map prune_entry (prune_candidates options d)) d = Ok d'"
    using assms
    by (auto simp: pruneWithHooks_def prune_tx_def scanned_def Let_def
        split: if_splits file_kind.splits option.splits outcome.splits commit_fault.splits)
  then show thesis using pruned prune_entries_Ok candidates_sequences by metis
qed (use unchanged in blast)

section \<open>Properties\<close>

lemma stored_claims_prune_rows [simp]: "stored_claims (prune_rows now Q d) = stored_claims d"
  by (simp add: stored_claims_def image_image)

lemma candidates_delivered: "\<forall>q \<in> ev_sequence ` set (prune_candidates options d). all_delivered q d"
  using set_candidates prunable_delivered by blast

lemma pruneWithHooks_db:
  assumes "pruneWithHooks h e path options d = (d', result, res)"
  obtains Q where "d' = prune_rows (pz_now e) Q d" "Q \<subseteq> ev_sequence ` set (prune_candidates options d)"
  using assms
proof (cases rule: pruneWithHooks_cases)
  case unchanged
  then show thesis using that [of "{}"] by simp
next
  case pruned
  then show thesis using that by blast
qed

lemma pruneWithHooks_inv:
  assumes "db_inv x d"
  shows "db_inv x (fst (pruneWithHooks h e path options d))"
    "stored_claims (fst (pruneWithHooks h e path options d)) = stored_claims d"
    "db_metadata (fst (pruneWithHooks h e path options d)) = db_metadata d"
proof -
  obtain Q where Q: "fst (pruneWithHooks h e path options d) = prune_rows (pz_now e) Q d"
      "Q \<subseteq> ev_sequence ` set (prune_candidates options d)"
    using pruneWithHooks_db by (metis prod_cases3 fst_conv)
  then show "db_inv x (fst (pruneWithHooks h e path options d))"
    using db_inv_prune_rows [OF assms] candidates_delivered [of options d] by (metis subsetD)
qed (use pruneWithHooks_db in \<open>metis prod_cases3 fst_conv stored_claims_prune_rows prune_rows_simps(3)\<close>)+

text \<open>(C21) Pruning loses nothing that is still needed: identities, digests, deliveries, sinks and the
  checkpoint stay, and the only events whose row changes had their payload, have deliveries, and
  every one of them succeeded before the cutoff. A dry run changes nothing.\<close>

theorem prune_safe:
  assumes "db_inv x d" and "pruneWithHooks h e path options d = (d', result, res)"
  shows "db_inv x d' \<and> stored_claims d' = stored_claims d \<and> db_deliveries d' = db_deliveries d \<and>
    db_sinks d' = db_sinks d \<and> db_metadata d' = db_metadata d \<and>
    (\<forall>r \<in> set (db_events d) - set (db_events d'). \<not> po_DryRun options \<and> retained r \<and>
       (\<exists>w \<in> set (db_deliveries d). dl_event w = ev_sequence r) \<and>
       (\<forall>w \<in> set (db_deliveries d). dl_event w = ev_sequence r \<longrightarrow> dl_state w = Delivered \<and>
          (\<exists>t. dl_delivered_at w = Some t \<and> t < po_Before options)))"
proof -
  obtain Q where Q: "d' = prune_rows (pz_now e) Q d" "Q \<subseteq> ev_sequence ` set (prune_candidates options d)"
    using assms(2) by (rule pruneWithHooks_db)
  have changed: "\<not> po_DryRun options \<and> prunable (po_Before options) d r"
    if r: "r \<in> set (db_events d)" "r \<notin> set (db_events d')" for r
  proof -
    have "prune_row (pz_now e) Q r \<noteq> r" using imageI [OF r(1), of "prune_row (pz_now e) Q"] r(2) Q(1) by auto
    then have "ev_sequence r \<in> Q" by (auto simp: prune_row_def split: if_splits)
    then obtain c where c: "c \<in> set (prune_candidates options d)" "ev_sequence c = ev_sequence r" using Q(2) by auto
    then have "c = r" using set_candidates event_unique db_invD(1) [OF assms(1)] r(1) by blast
    moreover have "\<not> po_DryRun options"
      using assms(2) r by (cases rule: pruneWithHooks_cases) auto
    ultimately show ?thesis using set_candidates [OF c(1)] by blast
  qed
  have "db_inv x d'" using pruneWithHooks_inv(1) [OF assms(1), of h e path options] assms(2) by simp
  then show ?thesis using changed Q(1) by (fastforce simp: prunable_def not_le)
qed

text \<open>(C22) A prune run is atomic and exact: the spool is as before, or exactly the reported candidates,
  at most the limit and in sequence order, lost their payload. A run that succeeds and is not a
  dry run has done the latter; one that stops or fails anywhere leaves one of the two states.\<close>

theorem prune_atomic:
  assumes "db_inv x d" and "pruneWithHooks h e path options d = (d', result, res)"
  shows "(d' = d \<and> (res = Ok () \<longrightarrow> po_DryRun options) \<or>
     \<not> po_DryRun options \<and> d' = prune_rows (pz_now e) (ev_sequence ` set (prune_candidates options d)) d \<and>
       pt_Entries result = map prune_entry (prune_candidates options d)) \<and>
    length (prune_candidates options d) \<le> nat (po_Limit options) \<and>
    sorted_wrt (<) (map ev_sequence (prune_candidates options d))"
proof -
  have "sorted (map ev_sequence (prune_candidates options d))"
    by (simp add: prune_candidates_def take_map [symmetric] sorted_wrt_take)
  then have "sorted_wrt (<) (map ev_sequence (prune_candidates options d))"
    using candidates_distinct [OF db_invD(1) [OF assms(1)], of options] by (simp add: strict_sorted_iff)
  moreover have "length (prune_candidates options d) \<le> nat (po_Limit options)"
    by (simp add: prune_candidates_def)
  moreover have "d' = d \<and> (res = Ok () \<longrightarrow> po_DryRun options) \<or>
     \<not> po_DryRun options \<and> d' = prune_rows (pz_now e) (ev_sequence ` set (prune_candidates options d)) d \<and>
       pt_Entries result = map prune_entry (prune_candidates options d)"
    using assms(2) by (cases rule: pruneWithHooks_cases) auto
  ultimately show ?thesis by blast
qed

lemma due_heads_prune:
  assumes "db_inv x d" and "\<forall>q \<in> Q. all_delivered q d"
  shows "due_heads now (prune_rows t Q d) = due_heads now d"
proof -
  have head: "head_of_line s (prune_rows t Q d) = head_of_line s d" for s
    by (simp add: head_of_line_def)
  have same: "prune_row t Q r = r" if "w \<in> set (db_deliveries d)" "ev_sequence r = dl_event w" "dl_state w \<noteq> Delivered" for r w
  proof -
    have "\<not> all_delivered (ev_sequence r) d" using that by (auto simp: all_delivered_def)
    then show ?thesis using assms(2) by (auto simp: prune_row_def)
  qed
  have wait: "dl_state w \<noteq> Delivered"
    if w: "w \<in> set (db_deliveries d)" "dl_sink w = s" "head_of_line s d = Some (dl_event w)" for w s
  proof -
    obtain v where v: "v \<in> set (db_deliveries d)" "dl_sink v = s" "waiting v" "dl_event v = dl_event w"
      using w(3) by (auto simp: head_of_line_def dest!: first_by_Some)
    then have "v = w" using delivery_unique [OF db_invD(1) [OF assms(1)] v(1) w(1)] v w by simp
    then show ?thesis using v(3) by auto
  qed
  have row: "prune_row t Q r = r"
    if "w \<in> set (db_deliveries d)" "dl_sink w = sk_id s" "head_of_line (sk_id s) d = Some (dl_event w)" "ev_sequence r = dl_event w" for s w r
    using same [OF that(1,4) wait [OF that(1-3)]] .
  show ?thesis
    unfolding due_heads_def head prune_rows_simps
    using row by (auto intro!: arg_cong [where f = concat] map_cong)
qed

text \<open>Pruning is invisible to delivery: at every instant the next delivery is the same before and
  after, with the same payload.\<close>

theorem prune_keeps_next:
  assumes "db_inv x d" and "pruneWithHooks h e path options d = (d', result, res)"
  shows "NextDueDelivery fails now d' = NextDueDelivery fails now d"
proof -
  obtain Q where Q: "d' = prune_rows (pz_now e) Q d" "Q \<subseteq> ev_sequence ` set (prune_candidates options d)"
    using assms(2) by (rule pruneWithHooks_db)
  have "due_heads now d' = due_heads now d"
    unfolding Q(1) using Q(2) candidates_delivered by (intro due_heads_prune [OF assms(1)]) blast
  then show ?thesis by (simp add: NextDueDelivery_def)
qed

definition quiet_prune :: "prune_env \<Rightarrow> bool" where
  "quiet_prune e \<longleftrightarrow> pz_file e = FileRegular \<and> pz_journal e = ''wal'' \<and> (\<forall>p. \<not> pz_fails e p) \<and>
     pz_scan_fails e = None \<and> pz_commit e = CommitOk"

text \<open>Nothing but the environment stops a prune with valid options: on a current-schema spool the
  trigger that protects undelivered events never fires against the selection, every update
  changes one row, and the result counts the candidates and their bytes.\<close>

theorem prune_succeeds:
  assumes "db_inv x d" and "schema_version d = currentSchemaVersion" and "quiet_prune e" and "path \<noteq> []"
    and "po_Before options \<noteq> zero_time" and "po_Before options \<le> pz_now e"
    and "1 \<le> po_Limit options" and "po_Limit options \<le> 1000"
  shows "\<exists>d' result. Prune e path options d = (d', result, Ok ()) \<and>
    pt_Events result = length (prune_candidates options d) \<and>
    pt_PayloadBytes result = (\<Sum>r \<leftarrow> prune_candidates options d. int (length (ev_payload r)))"
proof -
  let ?es = "map prune_entry (prune_candidates options d)"
  have seq: "map pn_Sequence ?es = map ev_sequence (prune_candidates options d)" by (simp add: prune_entry_def)
  have "\<exists>r \<in> set (db_events d). ev_sequence r = pn_Sequence a \<and> retained r \<and> all_delivered (pn_Sequence a) d"
    if "a \<in> set ?es" for a
    using that set_candidates prunable_delivered by (fastforce simp: prune_entry_def prunable_def)
  then obtain d' where "prune_entries no_hooks e 0 ?es d = Ok d'"
    using prune_entries_total [OF db_invD(1) [OF assms(1)], of e no_hooks ?es 0] assms(3)
      candidates_distinct [OF db_invD(1) [OF assms(1)], of options]
    unfolding seq by (auto simp: quiet_prune_def)
  moreover have "map pn_PayloadBytes ?es = map (\<lambda>r. int (length (ev_payload r))) (prune_candidates options d)"
    by (simp add: prune_entry_def)
  ultimately show ?thesis
    using assms by (simp add: Prune_def pruneWithHooks_def prune_tx_def quiet_prune_def scanned_def Let_def not_less not_le
        leD del: map_map)
qed

section \<open>A concrete run\<close>

definition delivered_db :: db where
  "delivered_db = captured_db\<lparr>db_deliveries := [delivered_row 1 200 20 (new_delivery 1 1 10)]\<rparr>"

definition example_prune_env :: prune_env where
  "example_prune_env = \<lparr>pz_now = 40, pz_file = FileRegular, pz_journal = ''wal'', pz_fails = \<lambda>_. False,
     pz_scan_fails = None, pz_commit = CommitOk\<rparr>"

definition example_options :: PruneOptions where
  "example_options = \<lparr>po_Before = 30, po_Limit = 10, po_DryRun = False\<rparr>"

lemma delivered_db_inv: "db_inv example_externals delivered_db"
  using captured_db_inv
  by (auto simp: delivered_db_def captured_db_def example_db_def empty_db_def db_inv_defs delivery_ok_def delivered_row_def)

abbreviation example_pruned where
  "example_pruned \<equiv> pruneWithHooks no_hooks example_prune_env ''spool.db'' example_options delivered_db"

lemma example_pruned_eq: "example_pruned = (fst example_pruned, fst (snd example_pruned), snd (snd example_pruned))"
  by simp

theorem prune_safe_witness: "db_inv example_externals (fst example_pruned) \<and> fst example_pruned \<noteq> delivered_db"
proof -
  have "retained (hd (db_events delivered_db)) \<and> \<not> retained (hd (db_events (fst example_pruned)))"
    by (simp add: pruneWithHooks_def prune_tx_def Let_def example_prune_env_def example_options_def delivered_db_def
        captured_db_def example_db_def empty_db_def schema_version_def currentSchemaVersion_def prune_candidates_def
        prunable_def prune_entry_def update_pruned_def update_where_def count_where_def all_delivered_def
        delivered_row_def zero_time_def captured_row_def)
  then have "fst example_pruned \<noteq> delivered_db" by auto
  with prune_safe [OF delivered_db_inv example_pruned_eq] show ?thesis by blast
qed

theorem prune_atomic_witness: "length (prune_candidates example_options delivered_db) \<le> 10"
  using prune_atomic [OF delivered_db_inv example_pruned_eq] by (simp add: example_options_def)

theorem prune_keeps_next_witness:
  "NextDueDelivery False 50 (fst example_pruned) = NextDueDelivery False 50 delivered_db"
  by (rule prune_keeps_next [OF delivered_db_inv example_pruned_eq])

theorem prune_succeeds_witness:
  "\<exists>d' result. Prune example_prune_env ''spool.db'' example_options delivered_db = (d', result, Ok ())"
  using prune_succeeds [OF delivered_db_inv, of example_prune_env "''spool.db''" example_options]
  by (auto simp: quiet_prune_def example_prune_env_def example_options_def zero_time_def schema_version_def
      currentSchemaVersion_def delivered_db_def captured_db_def example_db_def)

end
