(* ===== verification/Capture_System.thy ===== *)
theory Capture_System
  imports Replicator Store_Prune "HOL-Library.Sublist"
begin

text \<open>
  PostgreSQL, the capture process and the spool as one system. Transactions commit in WAL order;
  a session streams those past its start position, and may be cut off anywhere; the server
  learns any of the positions that were reported to it. The steps are the code's: a session is
  \<open>runOnce\<close> of \<open>internal/postgres/replicator.go\<close> with an arbitrary environment.
\<close>

section \<open>Transactions in the WAL\<close>

record transaction =
  tx_id :: xid
  tx_messages :: "pg_message list"
  tx_commit :: CommitMessage

definition tx_end :: "transaction \<Rightarrow> lsn" where
  "tx_end t = cm_TransactionEndLSN (tx_commit t)"

definition wal_messages :: "transaction \<Rightarrow> pg_message list" where
  "wal_messages t = PgBegin (tx_id t) # tx_messages t @ [PgCommit (tx_commit t)]"

text \<open>What the server sends when replication starts at a position.\<close>

definition stream :: "transaction list \<Rightarrow> lsn \<Rightarrow> pg_message list" where
  "stream log from = concat (map wal_messages (filter (\<lambda>t. from < tx_end t) log))"

definition wal_log :: "transaction list \<Rightarrow> bool" where
  "wal_log log \<longleftrightarrow> sorted_wrt (\<lambda>a b. tx_end a < tx_end b) log \<and> (\<forall>t \<in> set log. list_all inner_message (tx_messages t))"

section \<open>The machine between two messages\<close>

lemma protected_events_append:
  "protected_events x parseTime p k (as @ bs) =
     (case protected_events x parseTime p k as of
        None \<Rightarrow> None
      | Some es \<Rightarrow> map_option ((@) es) (protected_events x parseTime p k bs))"
proof (induction as)
  case Nil
  show ?case by (cases "protected_events x parseTime p k bs") auto
next
  case (Cons a as)
  then show ?case
    by (cases a; cases "protected_events x parseTime p k bs") (auto split: option.splits sum.splits)
qed

text \<open>The messages still to come belong to the pending transactions, of which the first may be
  partly consumed.\<close>

definition in_flight ::
    "externals \<Rightarrow> (string \<Rightarrow> time option) \<Rightarrow> string \<Rightarrow> int \<Rightarrow> StateMachine \<Rightarrow> pg_message list \<Rightarrow> transaction list \<Rightarrow> bool" where
  "in_flight x parseTime p k m rest pending \<longleftrightarrow> sm_prefix m = p \<and> sm_maxEventBytes m = k \<and>
     (if sm_inTransaction m then
        (\<exists>t pending' seen coming. pending = t # pending' \<and> tx_messages t = seen @ coming \<and>
           rest = coming @ PgCommit (tx_commit t) # concat (map wal_messages pending') \<and>
           protected_events x parseTime p k seen = Some (sm_events m))
      else rest = concat (map wal_messages pending))"

lemma Consume_fields:
  assumes "Consume x parseTime msg m = (m', res)"
  shows "sm_prefix m' = sm_prefix m" "sm_maxEventBytes m' = sm_maxEventBytes m"
  using assms
  by (auto simp: Consume_def consumeLogicalMessage_def Reset_def split: pg_message.splits if_splits sum.splits)

lemma Consume_inner_step:
  assumes "Consume x parseTime msg m = (m', Inr b)" and "inner_message msg" and "sm_inTransaction m"
    and "protected_events x parseTime (sm_prefix m) (sm_maxEventBytes m) seen = Some (sm_events m)"
  shows "b = None \<and> sm_inTransaction m' \<and>
    protected_events x parseTime (sm_prefix m) (sm_maxEventBytes m) (seen @ [msg]) = Some (sm_events m')"
  using assms
  by (auto simp: Consume_def consumeLogicalMessage_def inner_message_def protected_events_append
      split: pg_message.splits if_splits sum.splits)

lemma batch_claims_stamped:
  "batch_claims (map (\<lambda>(i, e). stamp t c i e) (enumerate n es)) = batch_claims es"
  by (induction es arbitrary: n) (simp_all add: batch_claims_def stamp_def)

lemma in_flight_step:
  assumes "in_flight x parseTime p k m (msg # rest) pending" and "Consume x parseTime msg m = (m', Inr b)"
    and "\<forall>t \<in> set pending. list_all inner_message (tx_messages t)"
  shows "case b of
      None \<Rightarrow> in_flight x parseTime p k m' rest pending
    | Some batch \<Rightarrow> \<exists>t pending' es. pending = t # pending' \<and> in_flight x parseTime p k m' rest pending' \<and>
        protected_events x parseTime p k (tx_messages t) = Some es \<and> cb_CommitEndLSN batch = tx_end t \<and>
        batch_claims (cb_Events batch) = batch_claims es"
proof (cases "sm_inTransaction m")
  case False
  then obtain t pending' where p: "pending = t # pending'" "msg = PgBegin (tx_id t)"
      "rest = tx_messages t @ PgCommit (tx_commit t) # concat (map wal_messages pending')"
    using assms(1) by (cases pending) (auto simp: in_flight_def wal_messages_def)
  then have "b = None" "m' = m\<lparr>sm_inTransaction := True, sm_transactionID := tx_id t, sm_events := [], sm_bufferedBytes := 0\<rparr>"
    using assms(2) False by (auto simp: Consume_def)
  then show ?thesis using p assms(1) by (auto simp: in_flight_def)
next
  case True
  then obtain t pending' seen coming where p: "pending = t # pending'" "tx_messages t = seen @ coming"
      "msg # rest = coming @ PgCommit (tx_commit t) # concat (map wal_messages pending')"
      "protected_events x parseTime p k seen = Some (sm_events m)" "sm_prefix m = p" "sm_maxEventBytes m = k"
    using assms(1) by (auto simp: in_flight_def)
  show ?thesis
  proof (cases coming)
    case Nil
    then have "msg = PgCommit (tx_commit t)" "rest = concat (map wal_messages pending')" using p(3) by auto
    moreover from this have "b = Some (commit_batch (tx_commit t) m)" "m' = Reset m"
      using assms(2) True by (auto simp: Consume_def)
    moreover have "batch_claims (cb_Events (commit_batch (tx_commit t) m)) = batch_claims (sm_events m)"
      by (simp add: commit_batch_def batch_claims_stamped)
    ultimately show ?thesis using p Nil by (auto simp: in_flight_def Reset_def tx_end_def)
  next
    case (Cons c coming')
    then have c: "c = msg" "rest = coming' @ PgCommit (tx_commit t) # concat (map wal_messages pending')" using p(3) by auto
    then have "inner_message msg" using assms(3) p Cons by simp
    from Consume_inner_step [OF assms(2) this True] p
    have "b = None" "sm_inTransaction m'" "protected_events x parseTime p k (seen @ [msg]) = Some (sm_events m')" by auto
    moreover have "tx_messages t = (seen @ [msg]) @ coming'" using p(2) Cons c by simp
    ultimately show ?thesis
      using p c Consume_fields [OF assms(2)] unfolding in_flight_def by fastforce
  qed
qed

section \<open>What a session keeps\<close>

definition captured ::
    "externals \<Rightarrow> (string \<Rightarrow> time option) \<Rightarrow> string \<Rightarrow> int \<Rightarrow> ((string \<times> string) \<times> digest) set \<Rightarrow> transaction \<Rightarrow> bool" where
  "captured x parseTime p k C t \<longleftrightarrow>
     (\<exists>es. protected_events x parseTime p k (tx_messages t) = Some es \<and> batch_claims es \<subseteq> C)"

lemma captured_mono: "captured x parseTime p k C t \<Longrightarrow> C \<subseteq> C' \<Longrightarrow> captured x parseTime p k C' t"
  by (auto simp: captured_def)

text \<open>Every transaction up to a position is captured.\<close>

definition covered ::
    "externals \<Rightarrow> (string \<Rightarrow> time option) \<Rightarrow> string \<Rightarrow> int \<Rightarrow> transaction list \<Rightarrow> lsn \<Rightarrow> ((string \<times> string) \<times> digest) set \<Rightarrow> bool" where
  "covered x parseTime p k log b C \<longleftrightarrow> (\<forall>t \<in> set log. tx_end t \<le> b \<longrightarrow> captured x parseTime p k C t)"

lemma covered_mono:
  "covered x parseTime p k log b C \<Longrightarrow> b' \<le> b \<Longrightarrow> C \<subseteq> C' \<Longrightarrow> covered x parseTime p k log b' C'"
  unfolding covered_def using captured_mono by (meson order_trans)

definition pending_from :: "transaction list \<Rightarrow> lsn \<Rightarrow> transaction list \<Rightarrow> bool" where
  "pending_from log b pending \<longleftrightarrow> sorted_wrt (\<lambda>a b. tx_end a < tx_end b) pending \<and> set pending \<subseteq> set log \<and>
     (\<forall>t \<in> set log. t \<in> set pending \<longleftrightarrow> b < tx_end t)"

lemma pending_from_filter: "wal_log log \<Longrightarrow> pending_from log b (filter (\<lambda>t. b < tx_end t) log)"
  by (auto simp: wal_log_def pending_from_def sorted_wrt_filter)

lemma pending_from_Cons:
  assumes "pending_from log b (t # pending)"
  shows "b < tx_end t" "t \<in> set log" "pending_from log (tx_end t) pending"
    "\<And>t'. t' \<in> set log \<Longrightarrow> tx_end t' \<le> tx_end t \<Longrightarrow> t' = t \<or> tx_end t' \<le> b"
proof -
  show t: "b < tx_end t" "t \<in> set log" using assms by (auto simp: pending_from_def)
  have iff: "t' \<in> set pending \<longleftrightarrow> tx_end t < tx_end t'" if "t' \<in> set log" for t'
  proof
    assume "tx_end t < tx_end t'"
    then have "b < tx_end t'" using t(1) by order
    then have "t' \<in> set (t # pending)" using assms that by (auto simp: pending_from_def)
    then show "t' \<in> set pending" using \<open>tx_end t < tx_end t'\<close> by auto
  qed (use assms in \<open>auto simp: pending_from_def\<close>)
  then show "pending_from log (tx_end t) pending" using assms by (auto simp: pending_from_def)
  show "t' = t \<or> tx_end t' \<le> b" if "t' \<in> set log" "tx_end t' \<le> tx_end t" for t'
    using iff [OF that(1)] that assms by (auto simp: pending_from_def not_less)
qed

lemma covered_step:
  assumes "covered x parseTime p k log b C" and "pending_from log b (t # pending)"
    and "captured x parseTime p k C' t" and "C \<subseteq> C'"
  shows "covered x parseTime p k log (tx_end t) C'"
  unfolding covered_def
proof (intro ballI impI)
  fix t' assume "t' \<in> set log" "tx_end t' \<le> tx_end t"
  then have "t' = t \<or> tx_end t' \<le> b" by (rule pending_from_Cons(4) [OF assms(2)])
  then show "captured x parseTime p k C' t'"
    using assms \<open>t' \<in> set log\<close> captured_mono unfolding covered_def by metis
qed

context durable_spool
begin

definition position :: "lsn \<Rightarrow> 's session \<Rightarrow> lsn" where
  "position from S = max from (checkpoint (ss_spool S))"

text \<open>What holds between two iterations, and the part of it that remains when the session ends.\<close>

definition session_safe ::
    "externals \<Rightarrow> (string \<Rightarrow> time option) \<Rightarrow> string \<Rightarrow> int \<Rightarrow> transaction list \<Rightarrow> lsn \<Rightarrow> lsn \<Rightarrow> 's session \<Rightarrow> bool" where
  "session_safe x parseTime p k log wal_top from S \<longleftrightarrow> session_ok from S \<and> position from S \<le> wal_top \<and>
     covered x parseTime p k log (position from S) (claims (ss_spool S))"

definition loop_inv ::
    "externals \<Rightarrow> (string \<Rightarrow> time option) \<Rightarrow> string \<Rightarrow> int \<Rightarrow> transaction list \<Rightarrow> lsn \<Rightarrow> lsn \<Rightarrow> 's session \<Rightarrow> pg_message list \<Rightarrow> bool" where
  "loop_inv x parseTime p k log wal_top from S rest \<longleftrightarrow> session_safe x parseTime p k log wal_top from S \<and>
     (\<exists>pending. in_flight x parseTime p k (ss_state S) rest pending \<and> pending_from log (position from S) pending)"

lemma session_safe_frame:
  assumes "session_safe x parseTime p k log wal_top from S" and "session_ok from S'" and "ss_spool S' = ss_spool S"
  shows "session_safe x parseTime p k log wal_top from S'"
  using assms by (simp add: session_safe_def position_def)

lemma capture_batch_safe:
  assumes "session_safe x parseTime p k log wal_top from S" and "capture_batch ops pt b S = (S', stop)"
    and "pending_from log (position from S) (t # pending)" and "\<forall>t \<in> set log. tx_end t \<le> wal_top"
    and "protected_events x parseTime p k (tx_messages t) = Some es" and "batch_claims (cb_Events b) = batch_claims es"
    and "cb_CommitEndLSN b = tx_end t"
  shows "session_safe x parseTime p k log wal_top from S' \<and> (stop = Continue \<longrightarrow> position from S' = tx_end t)"
proof -
  have ok: "session_ok from S" using assms(1) by (simp add: session_safe_def)
  note t = pending_from_Cons [OF assms(3)] and c = capture_batch_ok [OF ok assms(2)]
  have upper: "tx_end t \<le> wal_top" using assms(4) t(2) by blast
  have moved: "session_safe x parseTime p k log wal_top from S' \<and> position from S' = tx_end t"
    if m: "claims (ss_spool S') = claims (ss_spool S) \<union> batch_claims (cb_Events b) \<and>
      checkpoint (ss_spool S') = max (checkpoint (ss_spool S)) (cb_CommitEndLSN b)"
  proof -
    have pos: "position from S' = tx_end t"
      using m t(1) assms(7) unfolding position_def by (simp add: max_absorb2 less_imp_le)
    have "captured x parseTime p k (claims (ss_spool S')) t" using m assms(5,6) by (auto simp: captured_def)
    then have "covered x parseTime p k log (tx_end t) (claims (ss_spool S'))"
      using assms(1) m by (intro covered_step [OF _ assms(3)]) (auto simp: session_safe_def)
    then show ?thesis using c(1) pos upper by (simp add: session_safe_def)
  qed
  have stay: "session_safe x parseTime p k log wal_top from S'"
    if "claims (ss_spool S') = claims (ss_spool S) \<and> checkpoint (ss_spool S') = checkpoint (ss_spool S)"
    using assms(1) c(1) that by (simp add: session_safe_def position_def)
  show ?thesis using c(3,4) moved stay by blast
qed

lemma handle_message_safe:
  assumes "loop_inv x parseTime p k log wal_top from S (m # rest)" and "handle_message x parseTime ops pt m S = (S', stop)"
    and "wal_log log" and "\<forall>t \<in> set log. tx_end t \<le> wal_top"
  shows "session_safe x parseTime p k log wal_top from S' \<and> (stop = Continue \<longrightarrow> loop_inv x parseTime p k log wal_top from S' rest)"
proof -
  have safe: "session_safe x parseTime p k log wal_top from S" and ok: "session_ok from S"
    using assms(1) by (simp_all add: loop_inv_def session_safe_def)
  obtain pending where fl: "in_flight x parseTime p k (ss_state S) (m # rest) pending"
      and pend: "pending_from log (position from S) pending"
    using assms(1) by (auto simp: loop_inv_def)
  have inner: "\<forall>t \<in> set pending. list_all inner_message (tx_messages t)"
    using pend assms(3) by (auto simp: pending_from_def wal_log_def)
  obtain m' res where con: "Consume x parseTime m (ss_state S) = (m', res)" by fastforce
  have safe': "session_safe x parseTime p k log wal_top from (S\<lparr>ss_state := m'\<rparr>)"
    using safe ok by (intro session_safe_frame [OF safe]) simp_all
  show ?thesis
  proof (cases res)
    case (Inl err)
    then show ?thesis using assms(2) con safe' by (auto simp: handle_message_def)
  next
    case (Inr b)
    note step = in_flight_step [OF fl con [unfolded Inr] inner]
    show ?thesis
    proof (cases b)
      case None
      then have S': "S' = S\<lparr>ss_state := m'\<rparr>" "stop = Continue" using assms(2) con Inr by (auto simp: handle_message_def)
      moreover have "position from (S\<lparr>ss_state := m'\<rparr>) = position from S" by (simp add: position_def)
      ultimately show ?thesis using safe' step None pend unfolding loop_inv_def by auto
    next
      case (Some batch)
      then obtain t pending' es where t: "pending = t # pending'" "in_flight x parseTime p k m' rest pending'"
          "protected_events x parseTime p k (tx_messages t) = Some es" "cb_CommitEndLSN batch = tx_end t"
          "batch_claims (cb_Events batch) = batch_claims es"
        using step by auto
      have cb: "capture_batch ops pt batch (S\<lparr>ss_state := m'\<rparr>) = (S', stop)"
        using assms(2) con Inr Some by (simp add: handle_message_def)
      have pend': "pending_from log (position from (S\<lparr>ss_state := m'\<rparr>)) (t # pending')"
        using pend t(1) by (simp add: position_def)
      have "session_ok from (S\<lparr>ss_state := m'\<rparr>)" using ok by simp
      from capture_batch_ok(2) [OF this cb] have "ss_state S' = m'" by simp
      with capture_batch_safe [OF safe' cb pend' assms(4) t(3,5,4)] t(2) pending_from_Cons(3) [OF pend']
      show ?thesis unfolding loop_inv_def by auto
    qed
  qed
qed

end

context durable_spool
begin

lemma receive_loop_safe:
  assumes "loop_inv x parseTime p k log wal_top from S rest" and "receive_loop x parseTime w ops its S = (S', stop)"
    and "wal_log log" and "\<forall>t \<in> set log. tx_end t \<le> wal_top" and "rest = delivered w its @ coming"
  shows "session_safe x parseTime p k log wal_top from S' \<and> (stop = Continue \<longrightarrow> loop_inv x parseTime p k log wal_top from S' coming)"
  using assms
proof (induction its arbitrary: S rest)
  case Nil
  then show ?case by (auto simp: loop_inv_def)
next
  case (Cons it its)
  have safe: "session_safe x parseTime p k log wal_top from S" and ok: "session_ok from S"
    using Cons.prems(1) by (simp_all add: loop_inv_def session_safe_def)
  obtain T f where step: "receive_iteration x parseTime w ops it S = (T, f)" by fastforce
  have T: "session_safe x parseTime p k log wal_top from T \<and>
      (f = Continue \<longrightarrow> loop_inv x parseTime p k log wal_top from T (delivered w its @ coming))"
    using ok step
  proof (cases rule: receive_iteration_cases)
    case idle
    then show ?thesis
      using session_safe_frame [OF safe idle(1,2)] Cons.prems(1,5) by (auto simp: loop_inv_def position_def)
  next
    case (message m r)
    have "loop_inv x parseTime p k log wal_top from (S\<lparr>ss_r := r\<rparr>) (m # delivered w its @ coming)"
      using Cons.prems(1,5) message(1) session_safe_frame [OF safe, of "S\<lparr>ss_r := r\<rparr>"] ok
      by (auto simp: loop_inv_def position_def)
    from handle_message_safe [OF this message(2) Cons.prems(3,4)] show ?thesis .
  qed
  show ?case
  proof (cases "f = Continue")
    case True
    then have loop: "receive_loop x parseTime w ops its T = (S', stop)" using Cons.prems(2) step by simp
    show ?thesis by (rule Cons.IH [OF _ loop Cons.prems(3,4) refl]) (use T True in simp)
  next
    case False
    then have "S' = T" "stop = f" using Cons.prems(2) step by (cases f; simp)+
    then show ?thesis using T False by simp
  qed
qed

end

section \<open>The system\<close>

text \<open>The slot exists and the server has been told to forget everything up to a position.\<close>

definition slot_at :: "externals \<Rightarrow> Config \<Rightarrow> pg_server \<Rightarrow> lsn \<Rightarrow> bool" where
  "slot_at x cfg server l \<longleftrightarrow>
     (\<exists>slot. readSlot x False (pg_Slot (cfg_Postgres cfg)) server = Inr slot \<and> si_Exists slot \<and> si_ConfirmedFlushLSN slot = l)"

lemma slot_at_unique: "slot_at x cfg server l \<Longrightarrow> slot_at x cfg server l' \<Longrightarrow> l = l'"
  by (auto simp: slot_at_def)

record 's system =
  sy_log :: "transaction list"
  sy_server :: pg_server
  sy_spool :: 's

definition wal_end :: "lsn \<Rightarrow> transaction list \<Rightarrow> lsn" where
  "wal_end base log = (if log = [] then base else tx_end (last log))"

text \<open>Steps: a transaction commits at the end of the WAL; a capture process with the given
  configuration runs one session, in any environment in which the server streams what it
  should, and the server takes over none or any one of the positions reported to it; the
  server's other state changes; another part of the program works on the spool.\<close>

inductive system_step ::
    "externals \<Rightarrow> (string \<Rightarrow> time option) \<Rightarrow> pglogrepl \<Rightarrow> (string \<Rightarrow> string option) \<Rightarrow> ('e, 's) Spool \<Rightarrow> ('s \<Rightarrow> 's \<Rightarrow> bool) \<Rightarrow>
     Config \<Rightarrow> lsn \<Rightarrow> 's system \<Rightarrow> 's system \<Rightarrow> bool"
  for x parseTime w env ops works cfg base where
  commit: "wal_end base (sy_log S) < tx_end t \<Longrightarrow> list_all inner_message (tx_messages t) \<Longrightarrow>
    system_step x parseTime w env ops works cfg base S (S\<lparr>sy_log := sy_log S @ [t]\<rparr>)"
| session: "rp_cfg r = cfg \<Longrightarrow> slot_at x cfg (sy_server S) l \<Longrightarrow>
    (\<And>server1 start. startLSN x ops (at_start a) cfg (sy_spool S) (sy_server S) = (server1, Inr start) \<Longrightarrow>
       prefix (delivered w (at_iterations a start)) (stream (sy_log S) (max start l))) \<Longrightarrow>
    runOnce x parseTime w env ops a r (sy_spool S) (sy_server S) = (server', r', s', sent, stop) \<Longrightarrow>
    slot_at x cfg server'' l' \<Longrightarrow> l' = l \<or> l \<le> l' \<and> l' \<in> sb_WALFlushPosition ` set sent \<Longrightarrow>
    system_step x parseTime w env ops works cfg base S (S\<lparr>sy_server := server'', sy_spool := s'\<rparr>)"
| server: "slot_at x cfg (sy_server S) l \<Longrightarrow> slot_at x cfg server' l \<Longrightarrow>
    system_step x parseTime w env ops works cfg base S (S\<lparr>sy_server := server'\<rparr>)"
| spool: "works (sy_spool S) s' \<Longrightarrow> system_step x parseTime w env ops works cfg base S (S\<lparr>sy_spool := s'\<rparr>)"

lemma wal_end_upper: "wal_log log \<Longrightarrow> t \<in> set log \<Longrightarrow> tx_end t \<le> wal_end base log"
  by (cases log rule: rev_cases) (auto simp: wal_log_def wal_end_def sorted_wrt_append less_imp_le)

lemma wal_log_snoc:
  assumes "wal_log log" and "wal_end base log < tx_end t" and "list_all inner_message (tx_messages t)"
  shows "wal_log (log @ [t])"
proof -
  have "tx_end t' < tx_end t" if "t' \<in> set log" for t' using wal_end_upper [OF assms(1) that, of base] assms(2) by order
  then show ?thesis using assms(1,3) by (auto simp: wal_log_def sorted_wrt_append)
qed

text \<open>With the slot at a known position, a session starts at the durable checkpoint, or there.\<close>

lemma startLSN_slot:
  assumes "startLSN x ops e cfg s server = (server', Inr start)" and "slot_at x cfg server l"
  shows "\<exists>local. LastDurableOp ops (sn_local_fails e) s = Inr local \<and> (local \<noteq> 0 \<longrightarrow> start = local) \<and>
    (local = 0 \<and> l \<noteq> 0 \<longrightarrow> start = l)"
  using assms
  by (auto simp: startLSN_def start_slot_def slot_at_def readSlot_def choose_start_def Let_def
      split: option.splits sum.splits if_splits)

context durable_spool
begin

definition system_inv ::
    "externals \<Rightarrow> (string \<Rightarrow> time option) \<Rightarrow> Config \<Rightarrow> lsn \<Rightarrow> 's system \<Rightarrow> bool" where
  "system_inv x parseTime cfg base S \<longleftrightarrow> good (sy_spool S) \<and> wal_log (sy_log S) \<and>
     (\<exists>l. slot_at x cfg (sy_server S) l \<and> base \<le> l \<and> max l (checkpoint (sy_spool S)) \<le> wal_end base (sy_log S) \<and>
        covered x parseTime (pg_MessagePrefix (cfg_Postgres cfg)) (sp_MaxEventBytes (cfg_Spool cfg)) (sy_log S)
          (max l (checkpoint (sy_spool S))) (claims (sy_spool S)))"

lemma new_session_loop_inv:
  assumes "good s" and "wal_log log" and "rp_cfg r = cfg"
    and "from = max start l" and "durable \<le> from" and "checkpoint s \<le> from" and "from \<le> wal_end base log"
    and "covered x parseTime (pg_MessagePrefix (cfg_Postgres cfg)) (sp_MaxEventBytes (cfg_Spool cfg)) log from (claims s)"
  shows "loop_inv x parseTime (pg_MessagePrefix (cfg_Postgres cfg)) (sp_MaxEventBytes (cfg_Spool cfg)) log (wal_end base log)
     from (new_session r durable s) (stream log from)"
proof -
  let ?S = "new_session r durable s"
  have S: "ss_spool ?S = s" "session_ok from ?S"
    using assms(1,5) by (simp_all add: new_session_def session_ok_def Let_def le_max_iff_disj)
  then have pos: "position from ?S = from" using assms(6) by (simp add: position_def max_absorb1)
  have "in_flight x parseTime (pg_MessagePrefix (cfg_Postgres cfg)) (sp_MaxEventBytes (cfg_Spool cfg)) (ss_state ?S)
      (stream log from) (filter (\<lambda>t. from < tx_end t) log)"
    using assms(3) by (simp add: in_flight_def new_session_def NewStateMachine_def stream_def Let_def)
  then show ?thesis
    unfolding loop_inv_def session_safe_def pos
    using pending_from_filter [OF assms(2)] S assms(7,8) by auto
qed

text \<open>One session, with the server at a known position.\<close>

lemma session_step:
  assumes "good s" and "wal_log log" and "slot_at x (rp_cfg r) server l" and "l \<noteq> 0"
    and "max l (checkpoint s) \<le> wal_end base log"
    and "covered x parseTime (pg_MessagePrefix (cfg_Postgres (rp_cfg r))) (sp_MaxEventBytes (cfg_Spool (rp_cfg r))) log (max l (checkpoint s)) (claims s)"
    and "\<And>server1 start. startLSN x ops (at_start a) (rp_cfg r) s server = (server1, Inr start) \<Longrightarrow>
      prefix (delivered w (at_iterations a start)) (stream log (max start l))"
    and "runOnce x parseTime w env ops a r s server = (server', r', s', sent, stop)"
  shows "good s' \<and> (\<forall>l' \<in> insert l (sb_WALFlushPosition ` set sent). max l' (checkpoint s') \<le> wal_end base log \<and>
    covered x parseTime (pg_MessagePrefix (cfg_Postgres (rp_cfg r))) (sp_MaxEventBytes (cfg_Spool (rp_cfg r))) log
      (max l' (checkpoint s')) (claims s'))"
  using assms(1,8)
proof (cases rule: runOnce_cases)
  case early
  then show ?thesis using assms(1,5,6) by simp
next
  case (streamed r1 start S)
  let ?from = "max l (checkpoint s)"
  have start: "max start l = ?from"
    using startLSN_slot [OF streamed(1), of l] assms(3,4) streamed(2) last_durable [OF assms(1)]
    by (cases "checkpoint s = 0") (auto simp: max.commute)
  have "checkpoint s \<noteq> 0 \<longrightarrow> checkpoint s \<le> ?from" "checkpoint s = 0 \<longrightarrow> start \<le> ?from"
    using start by auto (metis max.cobounded1)
  then have inv: "loop_inv x parseTime (pg_MessagePrefix (cfg_Postgres (rp_cfg r))) (sp_MaxEventBytes (cfg_Spool (rp_cfg r))) log
      (wal_end base log) ?from (new_session r1 (if checkpoint s = 0 then start else checkpoint s) s) (stream log ?from)"
    using assms(5,6) start by (intro new_session_loop_inv [OF assms(1,2) streamed(2)]) auto
  obtain coming where "stream log ?from = delivered w (at_iterations a start) @ coming"
    using assms(7) [OF streamed(1) [unfolded streamed(2)]] unfolding start prefix_def by blast
  from receive_loop_safe [OF inv streamed(3) assms(2) _ this] wal_end_upper [OF assms(2)]
  have safe: "session_safe x parseTime (pg_MessagePrefix (cfg_Postgres (rp_cfg r))) (sp_MaxEventBytes (cfg_Spool (rp_cfg r))) log
      (wal_end base log) ?from S" by blast
  have "checkpoint s \<le> checkpoint s'"
    using receive_loop_ok [OF _ streamed(3), of ?from] inv streamed(4)
    by (simp add: loop_inv_def session_safe_def new_session_def Let_def)
  then have pos: "position ?from S = max l (checkpoint s')" using streamed(4) by (simp add: position_def max.assoc max_absorb2)
  have "max l' (checkpoint s') \<le> max l (checkpoint s')" if "l' \<in> insert l (sb_WALFlushPosition ` set sent)" for l'
    using that safe streamed(5) pos by (auto simp: session_safe_def session_ok_def position_def standbyStatus_def)
  then show ?thesis
    using safe pos streamed(4) covered_mono [OF _ _ order_refl] unfolding session_safe_def session_ok_def
    by (metis order_trans)
qed

lemma system_inv_step:
  assumes "system_step x parseTime w env ops works cfg base S S'" and "system_inv x parseTime cfg base S" and "base \<noteq> 0"
    and "\<And>s s'. works s s' \<Longrightarrow> good s \<Longrightarrow> good s' \<and> checkpoint s' = checkpoint s \<and> claims s \<subseteq> claims s'"
  shows "system_inv x parseTime cfg base S'"
  using assms(1)
proof cases
  case (commit t)
  obtain l where l: "slot_at x cfg (sy_server S) l" "base \<le> l" "max l (checkpoint (sy_spool S)) \<le> wal_end base (sy_log S)"
    "covered x parseTime (pg_MessagePrefix (cfg_Postgres cfg)) (sp_MaxEventBytes (cfg_Spool cfg)) (sy_log S)
          (max l (checkpoint (sy_spool S))) (claims (sy_spool S))"
    using assms(2) by (auto simp: system_inv_def)
  have "max l (checkpoint (sy_spool S)) < tx_end t" using l(3) commit(2) by order
  then have "covered x parseTime (pg_MessagePrefix (cfg_Postgres cfg)) (sp_MaxEventBytes (cfg_Spool cfg)) (sy_log S @ [t])
          (max l (checkpoint (sy_spool S))) (claims (sy_spool S))"
    using l(4) by (auto simp: covered_def simp del: max_less_iff_conj dest: leD)
  moreover have "wal_log (sy_log S @ [t])"
    using wal_log_snoc [OF _ commit(2,3)] assms(2) by (simp add: system_inv_def)
  ultimately show ?thesis
    using assms(2) l(1,2) \<open>max l (checkpoint (sy_spool S)) < tx_end t\<close>
    by (auto simp: system_inv_def commit(1) wal_end_def intro!: exI [of _ l])
next
  case (session r l a server' r' s' sent stop server'' l')
  have inv: "base \<le> l" "max l (checkpoint (sy_spool S)) \<le> wal_end base (sy_log S)"
    "covered x parseTime (pg_MessagePrefix (cfg_Postgres cfg)) (sp_MaxEventBytes (cfg_Spool cfg)) (sy_log S)
          (max l (checkpoint (sy_spool S))) (claims (sy_spool S))" "good (sy_spool S)" "wal_log (sy_log S)"
    using assms(2) slot_at_unique [OF session(3)] unfolding system_inv_def by metis+
  have "l \<noteq> 0" using inv(1) assms(3) by auto
  from session_step [OF inv(4,5) session(3) [folded session(2)] this inv(2) inv(3) [folded session(2)] session(4) [folded session(2)] session(5)]
  have "good s'" "max l' (checkpoint s') \<le> wal_end base (sy_log S)"
    "covered x parseTime (pg_MessagePrefix (cfg_Postgres cfg)) (sp_MaxEventBytes (cfg_Spool cfg)) (sy_log S)
       (max l' (checkpoint s')) (claims s')"
    using session(7) unfolding session(2) by auto
  moreover have "base \<le> l'" using session(7) inv(1) by auto
  ultimately show ?thesis
    using session(6) inv(5) unfolding system_inv_def session(1) by (intro conjI exI [of _ l']) simp_all
next
  case (server l server')
  have "\<And>l'. slot_at x cfg (sy_server S) l' \<Longrightarrow> slot_at x cfg server' l'"
    using slot_at_unique [OF server(2)] server(3) by blast
  then show ?thesis using assms(2) unfolding system_inv_def server(1) by auto
next
  case (spool s')
  obtain l where l: "slot_at x cfg (sy_server S) l" "base \<le> l" "max l (checkpoint (sy_spool S)) \<le> wal_end base (sy_log S)"
    "covered x parseTime (pg_MessagePrefix (cfg_Postgres cfg)) (sp_MaxEventBytes (cfg_Spool cfg)) (sy_log S)
          (max l (checkpoint (sy_spool S))) (claims (sy_spool S))" and inv: "good (sy_spool S)" "wal_log (sy_log S)"
    using assms(2) by (auto simp: system_inv_def)
  note s' = assms(4) [OF spool(2) inv(1)]
  then show ?thesis
    using l inv(2) covered_mono [OF l(4) order_refl] unfolding system_inv_def spool(1)
    by (intro conjI exI [of _ l]) simp_all
qed

end

section \<open>No acknowledged transaction is lost\<close>

text \<open>The other work on the spool: the delivery worker, an operator's redrive, sink configuration and
  pruning.\<close>

inductive spool_work :: "db \<Rightarrow> db \<Rightarrow> bool" where
  work_delivered: "spool_work d (fst (MarkDelivered fault item attempt status now d))"
| work_failed: "spool_work d (fst (MarkFailed fault item attempt permanent retryAt failure status now d))"
| work_redriven: "spool_work d (fst (RedriveDelivery fault name source i now d))"
| work_configured: "spool_work d (fst (ConfigureSinks e regs d))"
| work_pruned: "spool_work d (fst (pruneWithHooks h pe path options d))"

lemma expectOne_frame:
  assumes "r = update_deliveries p f d"
  shows "db_events (fst (expectOneDeliveryUpdate fault operation r d)) = db_events d"
    "db_metadata (fst (expectOneDeliveryUpdate fault operation r d)) = db_metadata d"
  by (rule expectOne_inv; auto simp: assms dest: update_deliveries_Some(1))+

lemma RedriveDelivery_frame:
  "db_events (fst (RedriveDelivery fault name source i now d)) = db_events d"
  "db_metadata (fst (RedriveDelivery fault name source i now d)) = db_metadata d"
  by (auto simp: RedriveDelivery_def split: exec_fault.split option.split dest: update_deliveries_Some(1))

lemma durable_lsn_frame: "db_metadata d' = db_metadata d \<Longrightarrow> durable_lsn x d' = durable_lsn x d"
  by (simp add: durable_lsn_def lastDurableLSNTx_def)

lemma work_frame:
  assumes "db_inv x d'" and "db_events d' = db_events d" and "db_metadata d' = db_metadata d"
  shows "db_inv x d' \<and> durable_lsn x d' = durable_lsn x d \<and> stored_claims d' = stored_claims d"
  using assms(1,2) durable_lsn_frame [OF assms(3)] by (simp add: stored_claims_def)

lemma spool_work_keeps:
  assumes "spool_work d d'" and "db_inv x d"
  shows "db_inv x d' \<and> durable_lsn x d' = durable_lsn x d \<and> stored_claims d' = stored_claims d"
  using assms(1)
proof cases
  case (work_delivered fault item attempt status now)
  show ?thesis
    unfolding work_delivered by (rule work_frame [OF MarkDelivered_inv [OF assms(2)]]) (simp_all add: MarkDelivered_def expectOne_frame)
next
  case (work_failed fault item attempt permanent retryAt failure status now)
  show ?thesis
    unfolding work_failed by (rule work_frame [OF MarkFailed_inv [OF assms(2)]]) (simp_all add: MarkFailed_def expectOne_frame)
next
  case (work_redriven fault name source i now)
  show ?thesis
    unfolding work_redriven by (rule work_frame [OF RedriveDelivery_inv [OF assms(2)]]) (simp_all add: RedriveDelivery_frame)
next
  case (work_configured e regs)
  show ?thesis
  proof (cases rule: ConfigureSinks_cases [of e regs d])
    case aborted
    then show ?thesis using assms(2) work_configured by simp
  next
    case (landed d1)
    then have "d' = d1" using work_configured by simp
    then show ?thesis using work_frame [OF configure_tx_correct(1,4,5) [OF assms(2) landed(1)]] by simp
  qed
next
  case (work_pruned h pe path options)
  show ?thesis
    unfolding work_pruned
    using pruneWithHooks_inv(1,2) [OF assms(2)] durable_lsn_frame [OF pruneWithHooks_inv(3) [OF assms(2)]] by simp
qed

definition system_start :: "externals \<Rightarrow> Config \<Rightarrow> lsn \<Rightarrow> db system \<Rightarrow> bool" where
  "system_start x cfg base S \<longleftrightarrow> base \<noteq> 0 \<and> sy_log S = [] \<and> slot_at x cfg (sy_server S) base \<and>
     db_inv x (sy_spool S) \<and> durable_lsn x (sy_spool S) \<le> base"

lemma reachable_inv:
  assumes "(system_step x parseTime w env (sqlite_Spool x) spool_work cfg base)\<^sup>*\<^sup>* S0 S"
    and "lsn_codec x" and "system_start x cfg base S0"
  shows "sqlite_durable.system_inv x x parseTime cfg base S"
  using assms(1)
proof induction
  case base
  show ?case
    using assms(2,3) unfolding sqlite_durable.system_inv_def system_start_def
    by (auto simp: wal_log_def wal_end_def covered_def)
next
  case (step S S')
  show ?case
    by (rule sqlite_durable.system_inv_step [OF step.hyps(2) step.IH])
       (use assms(3) spool_work_keeps in \<open>auto simp: system_start_def\<close>)
qed

lemma protected_events_member:
  assumes "protected_events x parseTime p k ms = Some es" and "PgLogical m \<in> set ms" and "ld_Prefix m = p"
  shows "ld_Transactional m \<and> (\<exists>meta. Validate parseTime (ld_Content m) k = Inr meta \<and> buffered_event x meta m \<in> set es)"
  using assms
proof (induction ms arbitrary: es)
  case (Cons a ms)
  then show ?case by (cases a) (auto split: if_splits sum.splits option.splits)
qed simp

text \<open>(C1) No loss: start from a slot at a position and a spool whose checkpoint is not past it, and let
  transactions commit, sessions run and be cut off anywhere, statuses get lost, the process
  restart, and the rest of the program work on the spool, in any order. Whenever the server has
  been told that it may forget a transaction, or the checkpoint is past it, every message of
  the transaction with the protected prefix was valid and its event is in the spool, under its
  identity and with the digest of exactly the bytes that the message carried.\<close>

theorem no_acknowledged_loss:
  assumes "lsn_codec x" and "system_start x cfg base S0"
    and "(system_step x parseTime w env (sqlite_Spool x) spool_work cfg base)\<^sup>*\<^sup>* S0 S"
    and "slot_at x cfg (sy_server S) l" and "t \<in> set (sy_log S)" and "tx_end t \<le> max l (durable_lsn x (sy_spool S))"
    and "PgLogical m \<in> set (tx_messages t)" and "ld_Prefix m = pg_MessagePrefix (cfg_Postgres cfg)"
  shows "ld_Transactional m \<and> (\<exists>meta. Validate parseTime (ld_Content m) (sp_MaxEventBytes (cfg_Spool cfg)) = Inr meta \<and>
    ((md_Source meta, md_ID meta), Sum256 x (ld_Content m)) \<in> stored_claims (sy_spool S))"
proof -
  have "captured x parseTime (pg_MessagePrefix (cfg_Postgres cfg)) (sp_MaxEventBytes (cfg_Spool cfg)) (stored_claims (sy_spool S)) t"
    using reachable_inv [OF assms(3,1,2)] assms(4-6) slot_at_unique [OF assms(4)]
    unfolding sqlite_durable.system_inv_def covered_def by metis
  then obtain es where es: "protected_events x parseTime (pg_MessagePrefix (cfg_Postgres cfg)) (sp_MaxEventBytes (cfg_Spool cfg)) (tx_messages t) = Some es"
      "batch_claims es \<subseteq> stored_claims (sy_spool S)" by (auto simp: captured_def)
  from protected_events_member [OF es(1) assms(7,8)] es(2) show ?thesis
    by (force simp: batch_claims_def buffered_event_def image_subset_iff)
qed

section \<open>A concrete history\<close>

definition example_transaction :: transaction where
  "example_transaction = \<lparr>tx_id = 77, tx_messages = [PgLogical example_message], tx_commit = example_commit\<rparr>"

definition first_system :: "db system" where
  "first_system = \<lparr>sy_log = [], sy_server = ready_server, sy_spool = example_db\<rparr>"

definition last_system :: "db system" where
  "last_system = \<lparr>sy_log = [example_transaction],
     sy_server = new_slot ''writerelay'' (bits_string 120) ready_server, sy_spool = session_db\<rparr>"

lemma slot_at_new: "slot_at example_externals capture_config (new_slot ''writerelay'' (bits_string l) server) l"
  by (simp add: slot_at_def readSlot_def new_slot_def parse_slot_lsn_def capture_config_def example_config_def
      example_externals_def parse_bits_string)

lemma first_system_start: "system_start example_externals capture_config 7 first_system"
  using example_db_inv slot_at_new [of 7]
  by (simp add: system_start_def first_system_def ready_server_def durable_lsn_def lastDurableLSNTx_def example_db_def empty_db_def)

abbreviation example_step where
  "example_step \<equiv> system_step example_externals (\<lambda>_. None) example_wire (\<lambda>_. Some ''host=db'')
     (sqlite_Spool example_externals) spool_work capture_config 7"

lemma example_history: "example_step\<^sup>*\<^sup>* first_system last_system"
proof -
  let ?S = "first_system\<lparr>sy_log := [example_transaction]\<rparr>"
  have commit: "example_step first_system ?S"
    using system_step.commit [of 7 first_system example_transaction]
    by (simp add: first_system_def wal_end_def tx_end_def example_transaction_def example_commit_def inner_message_def)
  obtain r where run: "example_run [''wB'', ''wM'', ''wC''] example_db = (ready_server, r, session_db, [standbyStatus 120], Continue)"
    using example_capture by blast
  have del: "delivered example_wire (map quiet_iteration [''wB'', ''wM'', ''wC'']) = wal_messages example_transaction"
    by (simp add: message_of_def quiet_iteration_def example_wire_def wal_messages_def example_transaction_def)
  have str: "stream (sy_log ?S) 7 = wal_messages example_transaction"
    by (simp add: stream_def tx_end_def example_transaction_def example_commit_def)
  have start: "snd (startLSN example_externals (sqlite_Spool example_externals) quiet_start capture_config example_db ready_server) = Inr 7"
    by (simp add: startLSN_def start_slot_def quiet_start_def readSlot_def ready_server_def new_slot_def capture_config_def
        example_config_def parse_slot_lsn_def example_externals_def parse_bits_string validateSlot_def validateServerVersion_def
        create_publication_def install_emit_def fresh_server_def LastDurableLSN_def example_db_def empty_db_def choose_start_def Let_def)
  have "example_step ?S (?S\<lparr>sy_server := new_slot ''writerelay'' (bits_string 120) ready_server, sy_spool := session_db\<rparr>)"
  proof (rule system_step.session [where r = "NewReplicator capture_config" and l = 7 and l' = 120 and stop = Continue and
        a = "quiet_attempt [''wB'', ''wM'', ''wC'']" and server' = ready_server and r' = r and sent = "[standbyStatus 120]"])
    show "rp_cfg (NewReplicator capture_config) = capture_config"
      by (simp add: NewReplicator_def NewReplicatorWithHooks_def)
    show "slot_at example_externals capture_config (sy_server ?S) 7"
      by (simp add: first_system_def ready_server_def slot_at_new)
    show "slot_at example_externals capture_config (new_slot ''writerelay'' (bits_string 120) ready_server) 120"
      by (rule slot_at_new)
    show "(120 :: lsn) = 7 \<or> 7 \<le> (120 :: lsn) \<and> 120 \<in> sb_WALFlushPosition ` set [standbyStatus 120]"
      by (simp add: standbyStatus_def)
    show "runOnce example_externals (\<lambda>_. None) example_wire (\<lambda>_. Some ''host=db'') (sqlite_Spool example_externals)
        (quiet_attempt [''wB'', ''wM'', ''wC'']) (NewReplicator capture_config) (sy_spool ?S) (sy_server ?S) = (ready_server, r, session_db, [standbyStatus 120], Continue)"
      using run by (simp add: first_system_def)
  next
    fix server1 start
    assume "startLSN example_externals (sqlite_Spool example_externals) (at_start (quiet_attempt [''wB'', ''wM'', ''wC''])) capture_config
      (sy_spool ?S) (sy_server ?S) = (server1, Inr start)"
    then have "start = 7" using start by (simp add: quiet_attempt_def first_system_def)
    then show "prefix (delivered example_wire (at_iterations (quiet_attempt [''wB'', ''wM'', ''wC'']) start)) (stream (sy_log ?S) (max start 7))"
      using del str by (simp add: quiet_attempt_def del: list.map delivered_simps)
  qed
  moreover have "?S\<lparr>sy_server := new_slot ''writerelay'' (bits_string 120) ready_server, sy_spool := session_db\<rparr> = last_system"
    by (simp add: last_system_def first_system_def)
  ultimately show ?thesis using commit by (simp add: converse_rtranclp_into_rtranclp)
qed

theorem no_acknowledged_loss_witness:
  "\<exists>meta. Validate (\<lambda>_. None) (ld_Content example_message) 262144 = Inr meta \<and>
     ((md_Source meta, md_ID meta), Sum256 example_externals (ld_Content example_message)) \<in> stored_claims session_db"
proof -
  have "slot_at example_externals capture_config (sy_server last_system) 120"
    using slot_at_new by (simp add: last_system_def)
  from no_acknowledged_loss [OF example_codec first_system_start example_history this, of example_transaction example_message]
  show ?thesis
    by (simp add: last_system_def example_transaction_def tx_end_def example_commit_def le_max_iff_disj
        capture_config_def example_config_def example_message_def)
qed

end
