(* ===== verification/SDK_Inbox.thy ===== *)
theory SDK_Inbox
  imports Go_Strconv Store_Capture
begin

text \<open>
  The receiver side of the SDK, \<open>sdk/go/inbox.go\<close>: a webhook delivery is recorded under its
  idempotency key in the same transaction as the application's own writes. The receiver's
  database is a value with the inbox tables and the application's state; what the driver, the
  handler and the commit do is an argument of each call. Concurrent transactions on one key are
  serialised by the primary key, so a history is a list of calls.
\<close>

section \<open>Definitions\<close>

datatype inbox_error =
    ErrInvalidDelivery string
  | ErrInboxConflict
  | ErrInboxTransaction
  | ErrInboxDatabase string
  | ErrInboxHandler string

record InboxTable =
  ix_Schema :: string
  ix_Table :: string

record InboxDelivery =
  id_Table :: InboxTable
  id_Key :: string
  id_Body :: bytes

datatype InboxResult = InboxProcessed | InboxDuplicate

definition is_letter :: "char \<Rightarrow> bool" where
  "is_letter c = (let n = of_char c :: nat in 65 \<le> n \<and> n \<le> 90 \<or> 97 \<le> n \<and> n \<le> 122 \<or> n = 95)"

definition is_digit :: "char \<Rightarrow> bool" where
  "is_digit c = (let n = of_char c :: nat in 48 \<le> n \<and> n \<le> 57)"

definition inboxIdentifier :: "string \<Rightarrow> bool" where
  "inboxIdentifier s \<longleftrightarrow> s \<noteq> [] \<and> is_letter (hd s) \<and> length (tl s) \<le> 62 \<and>
     list_all (\<lambda>c. is_letter c \<or> is_digit c) (tl s)"

definition inboxKey :: "string \<Rightarrow> bool" where
  "inboxKey s \<longleftrightarrow> length s = 64 \<and> list_all is_hex s"

definition InboxTable_name :: "InboxTable \<Rightarrow> inbox_error + string" where
  "InboxTable_name table =
     (let schema = (if ix_Schema table = [] then ''public'' else ix_Schema table);
          tbl = (if ix_Table table = [] then ''writerelay_inbox'' else ix_Table table) in
      if \<not> inboxIdentifier schema \<or> \<not> inboxIdentifier tbl
      then Inl (ErrInvalidDelivery ''table identifiers must be ASCII SQL identifiers of at most 63 characters'')
      else Inr ([CHR 0x22] @ schema @ [CHR 0x22, CHR ''.'', CHR 0x22] @ tbl @ [CHR 0x22]))"

definition hex_check :: string where
  "hex_check = CHR 0x27 # ''^[a-f0-9]{64}$'' @ [CHR 0x27]"

definition InboxTableSQL :: "InboxTable \<Rightarrow> inbox_error + string" where
  "InboxTableSQL table =
     (case InboxTable_name table of
        Inl err \<Rightarrow> Inl err
      | Inr name \<Rightarrow> Inr (''CREATE TABLE '' @ name @ '' ('' @ [CHR 0x0A] @
          '' idempotency_key text PRIMARY KEY CHECK (idempotency_key ~ '' @ hex_check @ ''),'' @ [CHR 0x0A] @
          '' payload_sha256 text NOT NULL CHECK (payload_sha256 ~ '' @ hex_check @ ''),'' @ [CHR 0x0A] @
          '' received_at timestamptz NOT NULL DEFAULT now()'' @ [CHR 0x0A] @ '')''))"

definition prepareInbox :: "externals \<Rightarrow> InboxDelivery \<Rightarrow> bool \<Rightarrow> inbox_error + string \<times> string" where
  "prepareInbox x delivery hasHandler =
     (if \<not> inboxKey (id_Key delivery) \<or> id_Body delivery = [] \<or> \<not> hasHandler
      then Inl (ErrInvalidDelivery ''require a 64-character lowercase hex key, original body bytes, and handler'')
      else (case InboxTable_name (id_Table delivery) of
              Inl err \<Rightarrow> Inl err
            | Inr table \<Rightarrow> Inr (table, EncodeToString (Sum256 x (id_Body delivery)))))"

text \<open>The receiver's database: the digests by table and key, and the application's tables.\<close>

record 'a inbox_db =
  rb_inbox :: "string \<Rightarrow> string \<Rightarrow> string option"
  rb_app :: 'a

text \<open>What a callback does: it succeeds with its writes, swallows a failed statement and so leaves
  an aborted transaction, returns an error, or panics.\<close>

datatype 'a handled = HandledOk 'a | HandledAborted | HandledErr string | HandledPanic

datatype read_result = ReadRow | ReadNoRows | ReadFailed

record inbox_env =
  xe_begin_fails :: bool
  xe_insert_fails :: bool
  xe_odd_count :: bool
  xe_read :: read_result
  xe_cancelled :: bool
  xe_probe_fails :: bool
  xe_commit :: commit_fault

text \<open>The end of \<open>runInbox\<close>: the statement that fails in an aborted transaction, then the commit.\<close>

definition finish_inbox ::
    "inbox_env \<Rightarrow> bool \<Rightarrow> 'a inbox_db \<Rightarrow> 'a inbox_db \<Rightarrow> InboxResult \<Rightarrow> 'a inbox_db \<times> (inbox_error, InboxResult) outcome" where
  "finish_inbox e aborted d d' result =
     (if xe_cancelled e then (d, Err (ErrInboxDatabase ''context''))
      else if xe_probe_fails e \<or> aborted then (d, Err (ErrInboxDatabase ''SELECT 1''))
      else (case xe_commit e of
              CommitOk \<Rightarrow> (d', Ok result)
            | CommitLost \<Rightarrow> (d, Err (ErrInboxDatabase ''commit''))
            | CommitLanded \<Rightarrow> (d', Err (ErrInboxDatabase ''commit''))))"

definition record_key :: "string \<Rightarrow> string \<Rightarrow> string \<Rightarrow> 'a inbox_db \<Rightarrow> 'a inbox_db" where
  "record_key table key digest d =
     d\<lparr>rb_inbox := (rb_inbox d)(table := (rb_inbox d table)(key \<mapsto> digest))\<rparr>"

definition runInbox ::
    "string \<Rightarrow> string \<Rightarrow> string \<Rightarrow> inbox_env \<Rightarrow> ('a \<Rightarrow> 'a handled) \<Rightarrow> 'a inbox_db \<Rightarrow>
     'a inbox_db \<times> (inbox_error, InboxResult) outcome" where
  "runInbox table key digest e handle d =
     (if xe_insert_fails e then (d, Err (ErrInboxDatabase ''insert''))
      else if xe_odd_count e then (d, Err ErrInboxTransaction)
      else (case rb_inbox d table key of
              None \<Rightarrow>
                (let d1 = record_key table key digest d in
                 case handle (rb_app d1) of
                   HandledErr err \<Rightarrow> (d, Err (ErrInboxHandler err))
                 | HandledPanic \<Rightarrow> (d, Halted)
                 | HandledAborted \<Rightarrow> finish_inbox e True d d1 InboxProcessed
                 | HandledOk a \<Rightarrow> finish_inbox e False d (d1\<lparr>rb_app := a\<rparr>) InboxProcessed)
            | Some previous \<Rightarrow>
                (case xe_read e of
                   ReadNoRows \<Rightarrow> (d, Err ErrInboxTransaction)
                 | ReadFailed \<Rightarrow> (d, Err (ErrInboxDatabase ''read''))
                 | ReadRow \<Rightarrow>
                     if previous \<noteq> digest then (d, Err ErrInboxConflict)
                     else finish_inbox e False d d InboxDuplicate)))"

text \<open>A missing handler or pool is \<open>None\<close>; \<open>WithInboxSQL\<close> differs only in the text for a missing database.\<close>

definition WithInbox ::
    "externals \<Rightarrow> inbox_env \<Rightarrow> 'a inbox_db option \<Rightarrow> InboxDelivery \<Rightarrow> ('a \<Rightarrow> 'a handled) option \<Rightarrow>
     'a inbox_db option \<times> (inbox_error, InboxResult) outcome" where
  "WithInbox x e pool delivery handle =
     (case prepareInbox x delivery (handle \<noteq> None) of
        Inl err \<Rightarrow> (pool, Err err)
      | Inr (table, digest) \<Rightarrow>
          (case pool of
             None \<Rightarrow> (None, Err (ErrInvalidDelivery ''pool is required''))
           | Some d \<Rightarrow>
               if xe_begin_fails e then (pool, Err (ErrInboxDatabase ''begin''))
               else (case runInbox table (id_Key delivery) digest e (the handle) d of
                       (d', r) \<Rightarrow> (Some d', r))))"

definition WithInboxSQL ::
    "externals \<Rightarrow> inbox_env \<Rightarrow> 'a inbox_db option \<Rightarrow> InboxDelivery \<Rightarrow> ('a \<Rightarrow> 'a handled) option \<Rightarrow>
     'a inbox_db option \<times> (inbox_error, InboxResult) outcome" where
  "WithInboxSQL x e pool delivery handle =
     (case prepareInbox x delivery (handle \<noteq> None) of
        Inl err \<Rightarrow> (pool, Err err)
      | Inr (table, digest) \<Rightarrow>
          (case pool of
             None \<Rightarrow> (None, Err (ErrInvalidDelivery ''database is required''))
           | Some d \<Rightarrow>
               if xe_begin_fails e then (pool, Err (ErrInboxDatabase ''begin''))
               else (case runInbox table (id_Key delivery) digest e (the handle) d of
                       (d', r) \<Rightarrow> (Some d', r))))"

section \<open>Calls\<close>

text \<open>The key under which a delivery is recorded, and its digest.\<close>

definition inbox_slot :: "InboxDelivery \<Rightarrow> (string \<times> string) option" where
  "inbox_slot delivery = (case InboxTable_name (id_Table delivery) of Inl _ \<Rightarrow> None | Inr t \<Rightarrow> Some (t, id_Key delivery))"

definition body_digest :: "externals \<Rightarrow> InboxDelivery \<Rightarrow> string" where
  "body_digest x delivery = EncodeToString (Sum256 x (id_Body delivery))"

abbreviation recorded_at :: "'a inbox_db \<Rightarrow> string \<times> string \<Rightarrow> string option" where
  "recorded_at d slot \<equiv> rb_inbox d (fst slot) (snd slot)"

lemma recorded_at_record_key:
  "recorded_at (record_key t k v d) s = (if s = (t, k) then Some v else recorded_at d s)"
  by (cases s) (simp add: record_key_def)

text \<open>What a call does: nothing, or the handler's writes together with the key.\<close>

lemma runInbox_cases:
  assumes "runInbox t k v e h d = (d', r)"
  obtains (same) "d' = d" "\<forall>res. r = Ok res \<longrightarrow> res = InboxDuplicate \<and> rb_inbox d t k = Some v"
    | (applied) a where "rb_inbox d t k = None" "h (rb_app d) = HandledOk a" "d' = (record_key t k v d)\<lparr>rb_app := a\<rparr>"
        "\<forall>res. r = Ok res \<longrightarrow> res = InboxProcessed"
proof (cases "rb_inbox d t k")
  case None
  have "rb_app (record_key t k v d) = rb_app d" by (simp add: record_key_def)
  then have "d' = d \<and> (\<forall>res. r \<noteq> Ok res) \<or>
      (\<exists>a. h (rb_app d) = HandledOk a \<and> d' = (record_key t k v d)\<lparr>rb_app := a\<rparr> \<and> (\<forall>res. r = Ok res \<longrightarrow> res = InboxProcessed))"
    using assms None
    by (auto simp: runInbox_def finish_inbox_def Let_def split: if_splits handled.splits commit_fault.splits)
  then show thesis using None same applied by blast
next
  case (Some p)
  then have "d' = d \<and> (\<forall>res. r = Ok res \<longrightarrow> res = InboxDuplicate \<and> p = v)"
    using assms
    by (auto simp: runInbox_def finish_inbox_def split: if_splits read_result.splits commit_fault.splits)
  then show thesis using Some same by blast
qed

lemma WithInbox_cases:
  assumes "WithInbox x e (Some d) delivery (Some h) = (p', r)"
  obtains (same) "p' = Some d" "\<forall>res. r = Ok res \<longrightarrow> res = InboxDuplicate \<and>
      (\<exists>s. inbox_slot delivery = Some s \<and> recorded_at d s = Some (body_digest x delivery))"
    | (applied) s a where "inbox_slot delivery = Some s" "recorded_at d s = None" "h (rb_app d) = HandledOk a"
        "p' = Some ((record_key (fst s) (snd s) (body_digest x delivery) d)\<lparr>rb_app := a\<rparr>)"
        "\<forall>res. r = Ok res \<longrightarrow> res = InboxProcessed"
proof (cases "prepareInbox x delivery True")
  case (Inl err)
  then have "p' = Some d" "r = Err err" using assms by (auto simp: WithInbox_def)
  then show thesis by (intro same) simp_all
next
  case (Inr td)
  then obtain t where t: "td = (t, body_digest x delivery)" "inbox_slot delivery = Some (t, id_Key delivery)"
    by (auto simp: prepareInbox_def inbox_slot_def body_digest_def split: if_splits sum.splits)
  show thesis
  proof (cases "xe_begin_fails e")
    case True
    then have "p' = Some d" "r = Err (ErrInboxDatabase ''begin'')" using assms Inr t by (auto simp: WithInbox_def)
    then show thesis by (intro same) simp_all
  next
    case False
    obtain d' where run: "runInbox t (id_Key delivery) (body_digest x delivery) e h d = (d', r)" "p' = Some d'"
      using assms Inr t False by (auto simp: WithInbox_def split: prod.splits)
    from run(1) show thesis
    proof (cases rule: runInbox_cases)
      case kept: same
      show thesis by (rule same) (use kept run(2) t in auto)
    next
      case (applied a)
      show thesis by (rule that(2) [of "(t, id_Key delivery)" a]) (use applied run(2) t in auto)
    qed
  qed
qed

section \<open>Histories of calls\<close>

fun inbox_calls ::
    "externals \<Rightarrow> (InboxDelivery \<Rightarrow> 'a \<Rightarrow> 'a handled) \<Rightarrow> (inbox_env \<times> InboxDelivery) list \<Rightarrow> 'a inbox_db \<Rightarrow>
     'a inbox_db \<times> (inbox_error, InboxResult) outcome list" where
  "inbox_calls x h [] d = (d, [])"
| "inbox_calls x h ((e, delivery) # calls) d =
     (case WithInbox x e (Some d) delivery (Some (h delivery)) of
        (p, r) \<Rightarrow> (case inbox_calls x h calls (case p of None \<Rightarrow> d | Some d' \<Rightarrow> d') of (d'', rs) \<Rightarrow> (d'', r # rs)))"

text \<open>The application's state after the handlers of some deliveries ran, one after the other.\<close>

fun handle_all :: "(InboxDelivery \<Rightarrow> 'a \<Rightarrow> 'a handled) \<Rightarrow> InboxDelivery list \<Rightarrow> 'a \<Rightarrow> 'a option" where
  "handle_all h [] a = Some a"
| "handle_all h (dl # dls) a = (case h dl a of HandledOk a' \<Rightarrow> handle_all h dls a' | _ \<Rightarrow> None)"

text \<open>The deliveries whose handler took effect, and what that says about keys and results.\<close>

definition effects_once ::
    "externals \<Rightarrow> (InboxDelivery \<Rightarrow> 'a \<Rightarrow> 'a handled) \<Rightarrow> 'a inbox_db \<Rightarrow> 'a inbox_db \<Rightarrow> InboxDelivery list \<Rightarrow> bool" where
  "effects_once x h d d' dls \<longleftrightarrow> handle_all h dls (rb_app d) = Some (rb_app d') \<and>
     distinct (map inbox_slot dls) \<and> None \<notin> set (map inbox_slot dls) \<and>
     (\<forall>dl \<in> set dls. recorded_at d (the (inbox_slot dl)) = None) \<and>
     (\<forall>s. recorded_at d' s = (case List.find (\<lambda>dl. inbox_slot dl = Some s) dls of
        None \<Rightarrow> recorded_at d s | Some dl \<Rightarrow> Some (body_digest x dl)))"

lemma effects_once_keep:
  assumes "effects_once x h d d' dls" and "recorded_at d s = Some v"
  shows "recorded_at d' s = Some v"
proof -
  have "inbox_slot dl \<noteq> Some s" if "dl \<in> set dls" for dl
    using assms that by (auto simp: effects_once_def)
  then have "List.find (\<lambda>dl. inbox_slot dl = Some s) dls = None" by (simp add: find_None_set)
  then show ?thesis using assms by (simp add: effects_once_def)
qed

lemma effects_once_Cons:
  assumes "effects_once x h ((record_key (fst s) (snd s) (body_digest x dl) d)\<lparr>rb_app := a\<rparr>) d' dls"
    and "inbox_slot dl = Some s" and "recorded_at d s = None" and "h dl (rb_app d) = HandledOk a"
  shows "effects_once x h d d' (dl # dls)"
proof -
  let ?d = "(record_key (fst s) (snd s) (body_digest x dl) d)\<lparr>rb_app := a\<rparr>"
  have rec: "recorded_at ?d s' = (if s' = s then Some (body_digest x dl) else recorded_at d s')" for s'
    using recorded_at_record_key [of "fst s" "snd s" "body_digest x dl" d s'] by simp
  have new: "inbox_slot dl' \<noteq> Some s" if "dl' \<in> set dls" for dl'
    using assms(1) that rec by (auto simp: effects_once_def)
  then have "inbox_slot dl \<notin> set (map inbox_slot dls)" unfolding assms(2) set_map by (metis imageE)
  moreover have "recorded_at d (the (inbox_slot dl')) = None" if "dl' \<in> set dls" for dl'
    using assms(1) that new [OF that] rec [of "the (inbox_slot dl')"] by (auto simp: effects_once_def split: if_splits)
  moreover have "recorded_at d' s' = (case List.find (\<lambda>dl. inbox_slot dl = Some s') (dl # dls) of
      None \<Rightarrow> recorded_at d s' | Some dl \<Rightarrow> Some (body_digest x dl))" for s'
  proof (cases "s' = s")
    case True
    have "recorded_at ?d s = Some (body_digest x dl)" using rec by simp
    from effects_once_keep [OF assms(1) this] show ?thesis using True assms(2) by simp
  next
    case False
    then show ?thesis using assms(1,2) rec [of s'] by (simp add: effects_once_def split: option.split)
  qed
  ultimately show ?thesis
    using assms by (simp add: effects_once_def)
qed

lemma inbox_calls_once:
  assumes "inbox_calls x h calls d = (d', rs)"
  shows "length rs = length calls \<and> (\<exists>dls. effects_once x h d d' dls \<and> set dls \<subseteq> snd ` set calls) \<and>
    (\<forall>i < length calls. \<forall>res. rs ! i = Ok res \<longrightarrow>
       (\<exists>s. inbox_slot (snd (calls ! i)) = Some s \<and> recorded_at d' s = Some (body_digest x (snd (calls ! i)))))"
  using assms
proof (induction calls arbitrary: d rs)
  case Nil
  then show ?case by (auto simp: effects_once_def intro!: exI [of _ "[]"])
next
  case (Cons c calls)
  obtain e dl where c: "c = (e, dl)" by fastforce
  obtain p r where call: "WithInbox x e (Some d) dl (Some (h dl)) = (p, r)" by fastforce
  define d1 where "d1 = (case p of None \<Rightarrow> d | Some d' \<Rightarrow> d')"
  obtain rs' where rest: "inbox_calls x h calls d1 = (d', rs')" "rs = r # rs'"
    using Cons.prems call unfolding c d1_def by (auto split: prod.splits)
  note IH = Cons.IH [OF rest(1)]
  obtain dls where dls: "effects_once x h d1 d' dls" "set dls \<subseteq> snd ` set calls" using IH by blast
  have "(\<exists>dls. effects_once x h d d' dls \<and> set dls \<subseteq> snd ` set (c # calls)) \<and>
    (\<forall>res. r = Ok res \<longrightarrow> (\<exists>s. inbox_slot dl = Some s \<and> recorded_at d' s = Some (body_digest x dl)))"
    using call
  proof (cases rule: WithInbox_cases)
    case same
    then have d1: "d1 = d" by (simp add: d1_def)
    then have "\<forall>res. r = Ok res \<longrightarrow> (\<exists>s. inbox_slot dl = Some s \<and> recorded_at d' s = Some (body_digest x dl))"
      using same(2) effects_once_keep dls(1) by metis
    then show ?thesis using dls d1 by auto
  next
    case (applied s a)
    then have d1: "d1 = (record_key (fst s) (snd s) (body_digest x dl) d)\<lparr>rb_app := a\<rparr>" by (simp add: d1_def)
    have "effects_once x h d d' (dl # dls)" by (rule effects_once_Cons [OF dls(1) [unfolded d1] applied(1-3)])
    moreover have "recorded_at d1 s = Some (body_digest x dl)" unfolding d1 by (simp add: record_key_def)
    then have "recorded_at d' s = Some (body_digest x dl)" by (rule effects_once_keep [OF dls(1)])
    ultimately show ?thesis using applied(1) dls(2) c by (intro conjI exI [of _ "dl # dls"]) auto
  qed
  then show ?case using IH rest(2) c by (auto simp: nth_Cons split: nat.split)
qed

section \<open>Properties\<close>

text \<open>(C4) Exactly once: over any history of calls, with failures, panics, lost and unknown commits,
  the application's state is what the handlers of some of the deliveries make of it, one after the
  other, at most one for each key. Every call that reports success, as processed or as a
  duplicate, has such a delivery with the same key and the same body digest, unless the key was
  recorded with that digest before the history began.\<close>

theorem inbox_exactly_once:
  assumes "inbox_calls x h calls d = (d', rs)"
  shows "\<exists>dls. handle_all h dls (rb_app d) = Some (rb_app d') \<and> distinct (map inbox_slot dls) \<and> set dls \<subseteq> snd ` set calls \<and>
    (\<forall>i < length calls. \<forall>res. rs ! i = Ok res \<longrightarrow>
       recorded_at d (the (inbox_slot (snd (calls ! i)))) = Some (body_digest x (snd (calls ! i))) \<or>
       (\<exists>dl \<in> set dls. inbox_slot dl = inbox_slot (snd (calls ! i)) \<and> body_digest x dl = body_digest x (snd (calls ! i))))"
proof -
  obtain dls where dls: "effects_once x h d d' dls" "set dls \<subseteq> snd ` set calls"
    using inbox_calls_once [OF assms] by blast
  have "recorded_at d (the (inbox_slot (snd (calls ! i)))) = Some (body_digest x (snd (calls ! i))) \<or>
       (\<exists>dl \<in> set dls. inbox_slot dl = inbox_slot (snd (calls ! i)) \<and> body_digest x dl = body_digest x (snd (calls ! i)))"
    if i: "i < length calls" "rs ! i = Ok res" for i res
  proof -
    obtain s where s: "inbox_slot (snd (calls ! i)) = Some s" "recorded_at d' s = Some (body_digest x (snd (calls ! i)))"
      using inbox_calls_once [OF assms] i by blast
    show ?thesis
    proof (cases "List.find (\<lambda>dl. inbox_slot dl = Some s) dls")
      case None
      then show ?thesis using dls(1) s by (simp add: effects_once_def)
    next
      case (Some dl)
      then have "dl \<in> set dls" "inbox_slot dl = Some s" by (auto dest: find_SomeD)
      moreover have "recorded_at d' s = Some (body_digest x dl)" using dls(1) Some by (simp add: effects_once_def)
      ultimately show ?thesis using s by auto
    qed
  qed
  then show ?thesis using dls by (auto simp: effects_once_def)
qed

text \<open>Keys whose deliveries agree on the body never conflict.\<close>

definition inbox_from :: "externals \<Rightarrow> (InboxDelivery \<Rightarrow> bool) \<Rightarrow> 'a inbox_db \<Rightarrow> bool" where
  "inbox_from x P d \<longleftrightarrow> (\<forall>s v. recorded_at d s = Some v \<longrightarrow> (\<exists>dl. P dl \<and> id_Key dl = snd s \<and> body_digest x dl = v))"

lemma runInbox_conflict:
  "runInbox t k v e h d = (d', Err ErrInboxConflict) \<Longrightarrow> \<exists>p. rb_inbox d t k = Some p \<and> p \<noteq> v"
  by (auto simp: runInbox_def finish_inbox_def Let_def
      split: if_splits option.splits handled.splits read_result.splits commit_fault.splits)

lemma WithInbox_conflict:
  assumes "WithInbox x e (Some d) dl (Some h) = (p, Err ErrInboxConflict)"
  shows "\<exists>s v. recorded_at d s = Some v \<and> snd s = id_Key dl \<and> v \<noteq> body_digest x dl"
proof -
  obtain t where t: "prepareInbox x dl True = Inr (t, body_digest x dl)"
    using assms
    by (auto simp: WithInbox_def prepareInbox_def InboxTable_name_def body_digest_def Let_def split: if_splits sum.splits)
  then have "\<exists>d'. runInbox t (id_Key dl) (body_digest x dl) e h d = (d', Err ErrInboxConflict)"
    using assms by (auto simp: WithInbox_def split: if_splits prod.splits)
  then obtain q where "rb_inbox d t (id_Key dl) = Some q" "q \<noteq> body_digest x dl" using runInbox_conflict by blast
  then show ?thesis by (intro exI [of _ "(t, id_Key dl)"] exI [of _ q]) simp
qed

lemma inbox_from_step:
  assumes "inbox_from x P d" and "P dl" and "WithInbox x e (Some d) dl (Some h) = (p, r)"
  shows "\<exists>d'. p = Some d' \<and> inbox_from x P d'"
  using assms(3)
proof (cases rule: WithInbox_cases)
  case same
  then show ?thesis using assms(1) by simp
next
  case (applied s a)
  have "snd s = id_Key dl" using applied(1) by (auto simp: inbox_slot_def split: sum.splits)
  then have "inbox_from x P ((record_key (fst s) (snd s) (body_digest x dl) d)\<lparr>rb_app := a\<rparr>)"
    using assms(1,2) by (auto simp: inbox_from_def record_key_def split: if_splits)
  then show ?thesis using applied(4) by blast
qed

lemma inbox_no_conflict:
  assumes "\<And>a b. P a \<Longrightarrow> P b \<Longrightarrow> id_Key a = id_Key b \<Longrightarrow> body_digest x a = body_digest x b"
    and "\<forall>c \<in> set calls. P (snd c)" and "inbox_from x P d" and "inbox_calls x h calls d = (d', rs)"
  shows "Err ErrInboxConflict \<notin> set rs"
  using assms(2-4)
proof (induction calls arbitrary: d rs)
  case (Cons c calls)
  obtain e dl where c: "c = (e, dl)" by fastforce
  obtain p r where call: "WithInbox x e (Some d) dl (Some (h dl)) = (p, r)" by fastforce
  have P: "P dl" using Cons.prems(1) c by simp
  obtain d1 where d1: "p = Some d1" "inbox_from x P d1" using inbox_from_step [OF Cons.prems(2) P call] by blast
  obtain rs' where rest: "inbox_calls x h calls d1 = (d', rs')" "rs = r # rs'"
    using Cons.prems(3) call d1(1) unfolding c by (auto split: prod.splits)
  have "r \<noteq> Err ErrInboxConflict"
    using WithInbox_conflict [of x e d dl "h dl" p] call Cons.prems(2) P assms(1) unfolding inbox_from_def by metis
  moreover have "Err ErrInboxConflict \<notin> set rs'" using Cons.IH [OF _ d1(2) rest(1)] Cons.prems(1) by simp
  ultimately show ?case using rest(2) by simp
qed simp

text \<open>The table name that goes into the SQL text is two quoted identifiers of plain letters, digits
  and underscores: no quote, and so no SQL, can enter through it, and different tables have
  different names.\<close>

theorem InboxTable_name_safe:
  assumes "InboxTable_name table = Inr name"
  shows "\<exists>schema tbl. inboxIdentifier schema \<and> inboxIdentifier tbl \<and>
    name = CHR 0x22 # schema @ [CHR 0x22, CHR ''.'', CHR 0x22] @ tbl @ [CHR 0x22] \<and>
    CHR 0x22 \<notin> set schema \<and> CHR 0x22 \<notin> set tbl \<and>
    (ix_Schema table = schema \<or> ix_Schema table = [] \<and> schema = ''public'') \<and>
    (ix_Table table = tbl \<or> ix_Table table = [] \<and> tbl = ''writerelay_inbox'')"
proof -
  have plain: "CHR 0x22 \<notin> set s" if "inboxIdentifier s" for s
    using that by (cases s) (auto simp: inboxIdentifier_def list_all_iff is_letter_def is_digit_def Let_def)
  show ?thesis
    using assms plain by (auto simp: InboxTable_name_def Let_def split: if_splits)
qed

text \<open>What a call records satisfies the checks of the table, and both entry points behave the same.\<close>

lemma prepareInbox_checks:
  "prepareInbox x dl h = Inr (t, v) \<Longrightarrow> inboxKey (id_Key dl) \<and> inboxKey v \<and> id_Body dl \<noteq> []"
  using EncodeToString_shape by (auto simp: prepareInbox_def inboxKey_def split: if_splits sum.splits)

lemma WithInboxSQL_WithInbox: "WithInboxSQL x e (Some d) dl h = WithInbox x e (Some d) dl h"
  by (auto simp: WithInboxSQL_def WithInbox_def split: sum.split)

section \<open>A concrete history\<close>

definition quiet_inbox :: inbox_env where
  "quiet_inbox = \<lparr>xe_begin_fails = False, xe_insert_fails = False, xe_odd_count = False, xe_read = ReadRow,
     xe_cancelled = False, xe_probe_fails = False, xe_commit = CommitOk\<rparr>"

definition order_delivery :: InboxDelivery where
  "order_delivery = \<lparr>id_Table = \<lparr>ix_Schema = [], ix_Table = []\<rparr>, id_Key = replicate 64 CHR ''a'', id_Body = ''{}''\<rparr>"

definition count_handler :: "InboxDelivery \<Rightarrow> nat \<Rightarrow> nat handled" where
  "count_handler dl n = HandledOk (Suc n)"

text \<open>The first commit is lost on the way back, so the sender tries again.\<close>

definition retry_calls :: "(inbox_env \<times> InboxDelivery) list" where
  "retry_calls = [(quiet_inbox\<lparr>xe_commit := CommitLanded\<rparr>, order_delivery), (quiet_inbox, order_delivery)]"

lemma order_slot:
  "inboxKey (replicate 64 CHR ''a'')" "inboxIdentifier ''public''" "inboxIdentifier ''writerelay_inbox''"
  by code_simp+

lemma example_retry:
  "\<exists>d'. inbox_calls x count_handler retry_calls \<lparr>rb_inbox = \<lambda>_ _. None, rb_app = 0\<rparr> =
     (d', [Err (ErrInboxDatabase ''commit''), Ok InboxDuplicate]) \<and> rb_app d' = 1"
  using order_slot
  by (simp add: retry_calls_def quiet_inbox_def order_delivery_def count_handler_def WithInbox_def prepareInbox_def
      InboxTable_name_def runInbox_def finish_inbox_def record_key_def)

theorem inbox_exactly_once_witness:
  "\<exists>dls. handle_all count_handler dls 0 = Some 1 \<and> distinct (map inbox_slot dls)"
proof -
  obtain d' where d': "inbox_calls example_externals count_handler retry_calls \<lparr>rb_inbox = \<lambda>_ _. None, rb_app = 0\<rparr> =
     (d', [Err (ErrInboxDatabase ''commit''), Ok InboxDuplicate])" "rb_app d' = 1" using example_retry by blast
  from inbox_exactly_once [OF d'(1)] d'(2) show ?thesis by auto
qed

theorem InboxTable_name_safe_witness:
  "\<exists>name. InboxTable_name \<lparr>ix_Schema = [], ix_Table = []\<rparr> = Inr name \<and>
     (\<exists>schema tbl. inboxIdentifier schema \<and> inboxIdentifier tbl \<and>
        name = CHR 0x22 # schema @ [CHR 0x22, CHR ''.'', CHR 0x22] @ tbl @ [CHR 0x22])"
proof -
  obtain name where "InboxTable_name \<lparr>ix_Schema = [], ix_Table = []\<rparr> = Inr name"
    using order_slot by (simp add: InboxTable_name_def)
  with InboxTable_name_safe [OF this] show ?thesis by blast
qed

end
