(* ===== verification/Disk_Probe.thy ===== *)
theory Disk_Probe
  imports Disk_Guard
begin

text \<open>
  The measurement of free space, \<open>internal/diskspace/statfs_unix.go\<close>: the product of two counts of
  the file system, computed at 64 bits.
\<close>

section \<open>The probe\<close>

text \<open>\<open>availableBytes\<close> of \<open>internal/diskspace/statfs_unix.go\<close>, from the counts that \<open>statfs\<close> reports. A
  failed call is a probe without a result.\<close>

definition availableBytes :: "64 word \<Rightarrow> int \<Rightarrow> string + 64 word" where
  "availableBytes blocks blockSize =
     (if blockSize \<le> 0 \<or> blocks > - 1 div word_of_int blockSize then Inl ''invalid filesystem space measurement''
      else Inr (blocks * word_of_int blockSize))"

definition AvailableBytes :: "(string \<Rightarrow> string + 64 word \<times> int) \<Rightarrow> string \<Rightarrow> string + 64 word" where
  "AvailableBytes statfs path =
     (case statfs path of Inl err \<Rightarrow> Inl err | Inr (blocks, blockSize) \<Rightarrow> availableBytes blocks blockSize)"

lemma int_div_less: "0 < b \<Longrightarrow> a div b < c \<longleftrightarrow> a < c * b" for a b c :: int
proof -
  assume b: "0 < b"
  then have "(a + - c * b) div b = a div b - c" by (subst div_mult_self1) auto
  with pos_imp_zdiv_neg_iff [OF b, of "a + - c * b"] show ?thesis by auto
qed

text \<open>(C40) The measured space is exact: a result is the product of the two counts without wrap-around,
  and a product that does not fit in 64 bits, or a block size that is not positive, is refused.\<close>

theorem availableBytes_exact:
  assumes "blockSize \<le> max_int64"
  shows "case availableBytes blocks blockSize of
      Inr v \<Rightarrow> 0 < blockSize \<and> uint v = uint blocks * blockSize
    | Inl _ \<Rightarrow> blockSize \<le> 0 \<or> 2 ^ 64 \<le> uint blocks * blockSize"
proof (cases "0 < blockSize")
  case False
  then show ?thesis by (simp add: availableBytes_def)
next
  case True
  let ?b = "word_of_int blockSize :: 64 word"
  have b: "uint ?b = blockSize" using True assms by (simp add: uint_word_of_int max_int64_def)
  have "blocks > - 1 div ?b \<longleftrightarrow> (2 ^ 64 - 1) div blockSize < uint blocks"
    by (simp add: word_less_def uint_div b) (simp add: unsigned_minus_1_eq_mask mask_eq_exp_minus_1)
  also have "\<dots> \<longleftrightarrow> 2 ^ 64 \<le> uint blocks * blockSize"
  proof -
    have "(2 ^ 64 - 1) div blockSize < uint blocks \<longleftrightarrow> 2 ^ 64 - 1 < uint blocks * blockSize"
      by (rule int_div_less) (rule True)
    then show ?thesis by linarith
  qed
  finally have big: "blocks > - 1 div ?b \<longleftrightarrow> 2 ^ 64 \<le> uint blocks * blockSize" .
  have "uint (blocks * ?b) = uint blocks * blockSize" if "uint blocks * blockSize < 2 ^ 64"
    using that True by (simp add: uint_word_ariths b)
  then show ?thesis using True big by (auto simp: availableBytes_def not_le not_less)
qed

theorem availableBytes_exact_witness: "availableBytes 2 4096 = Inr 8192 \<and> uint (8192 :: 64 word) = uint (2 :: 64 word) * 4096"
proof -
  have "availableBytes 2 4096 = Inr 8192" by (simp add: availableBytes_def)
  with availableBytes_exact [of 4096 2] show ?thesis by (simp add: max_int64_def)
qed

end
