(* ===== verification/Delivery_Store.thy ===== *)
theory Delivery_Store
  imports Store_Delivery
begin

text \<open>
  The interface \<open>Store\<close> of \<open>internal/delivery/delivery.go\<close> as the worker uses it: the
  operations as a record, the laws a provider promises as a locale over the delivery rows by
  key, and the proof that the SQLite store is a provider.
\<close>

section \<open>The operations\<close>

record 's delivery_ops =
  st_NextDueDelivery :: "bool \<Rightarrow> time \<Rightarrow> 's \<Rightarrow> store_error + Delivery option"
  st_MarkDelivered :: "exec_fault \<Rightarrow> Delivery \<Rightarrow> int \<Rightarrow> int \<Rightarrow> time \<Rightarrow> 's \<Rightarrow> 's \<times> store_error option"
  st_MarkFailed :: "exec_fault \<Rightarrow> Delivery \<Rightarrow> int \<Rightarrow> bool \<Rightarrow> time \<Rightarrow> string \<Rightarrow> int \<Rightarrow> time \<Rightarrow> 's \<Rightarrow>
    's \<times> store_error option"

definition sqlite_ops :: "db delivery_ops" where
  "sqlite_ops = \<lparr>st_NextDueDelivery = NextDueDelivery, st_MarkDelivered = MarkDelivered,
     st_MarkFailed = MarkFailed\<rparr>"

section \<open>The contract\<close>

type_synonym row_map = "int \<times> int \<Rightarrow> delivery_row option"

text \<open>The item is a due head of line: nothing older of the same sink waits.\<close>

definition due_item :: "row_map \<Rightarrow> time \<Rightarrow> Delivery \<Rightarrow> bool" where
  "due_item rs now item \<longleftrightarrow> (\<exists>w. rs (item_key item) = Some w \<and> attempted item w \<and> dl_next_attempt_at w \<le> now) \<and>
     (\<forall>q v. rs (q, dv_SinkID item) = Some v \<and> waiting v \<longrightarrow> dv_EventSequence item \<le> q)"

text \<open>The row of the item is rewritten by \<open>f\<close>, and no other row.\<close>

definition rewritten :: "row_map \<Rightarrow> Delivery \<Rightarrow> (delivery_row \<Rightarrow> delivery_row) \<Rightarrow> row_map \<Rightarrow> bool" where
  "rewritten rs item f rs' \<longleftrightarrow>
     (\<exists>w. rs (item_key item) = Some w \<and> attempted item w \<and> rs' = rs(item_key item \<mapsto> f w))"

locale delivery_store =
  fixes ops :: "'s delivery_ops"
    and rows :: "'s \<Rightarrow> row_map"
    and active :: "'s \<Rightarrow> string set"
    and good :: "'s \<Rightarrow> bool"
  assumes rows_finite: "good s \<Longrightarrow> finite (dom (rows s))"
    and next_due: "good s \<Longrightarrow> st_NextDueDelivery ops f now s = Inr (Some item) \<Longrightarrow> due_item (rows s) now item"
    and next_active: "good s \<Longrightarrow> st_NextDueDelivery ops f now s = Inr (Some item) \<Longrightarrow> dv_SinkName item \<in> active s"
    and next_none: "good s \<Longrightarrow> st_NextDueDelivery ops f now s = Inr None \<Longrightarrow> rows s k = Some w \<Longrightarrow> waiting w \<Longrightarrow>
      \<exists>q v. rows s (q, snd k) = Some v \<and> waiting v \<and> q \<le> fst k \<and> now < dl_next_attempt_at v"
    and next_total: "\<exists>r. st_NextDueDelivery ops False now s = Inr r"
    and delivered_good: "good s \<Longrightarrow> good (fst (st_MarkDelivered ops fault item a st now s))"
    and delivered_active: "active (fst (st_MarkDelivered ops fault item a st now s)) = active s"
    and delivered_effect: "good s \<Longrightarrow> st_MarkDelivered ops fault item a st now s = (s', err) \<Longrightarrow>
      rewritten (rows s) item (delivered_row a st now) (rows s') \<or> err \<noteq> None \<and> rows s' = rows s"
    and delivered_total: "good s \<Longrightarrow> due_item (rows s) t item \<Longrightarrow> 0 \<le> a \<Longrightarrow>
      snd (st_MarkDelivered ops ExecOk item a st now s) = None"
    and failed_good: "good s \<Longrightarrow> good (fst (st_MarkFailed ops fault item a pm ra fl st now s))"
    and failed_active: "active (fst (st_MarkFailed ops fault item a pm ra fl st now s)) = active s"
    and failed_effect: "good s \<Longrightarrow> st_MarkFailed ops fault item a pm ra fl st now s = (s', err) \<Longrightarrow>
      rewritten (rows s) item (failed_row a pm ra fl st now) (rows s') \<or> err \<noteq> None \<and> rows s' = rows s"
    and failed_total: "good s \<Longrightarrow> due_item (rows s) t item \<Longrightarrow> 0 \<le> a \<Longrightarrow>
      snd (st_MarkFailed ops ExecOk item a pm ra fl st now s) = None"

section \<open>The SQLite store is a provider\<close>

lemma NextDueDelivery_due:
  assumes inv: "db_inv x d" and r: "NextDueDelivery f now d = Inr (Some item)"
  shows "due_item (row_at d) now item" "dv_SinkName item \<in> active_names d"
proof -
  have core: "core_inv x d" using inv by blast
  obtain s w r where item: "item = delivery_item (s, w, r)" and t: "(s, w, r) \<in> set (due_heads now d)"
    using r by (rule NextDueDelivery_Some)
  note rows = t [unfolded set_due_heads]
  note head = due_head_waiting [OF core t]
  have "row_at d (item_key item) = Some w" "attempted item w" "dl_next_attempt_at w \<le> now"
    using rows head(1) by (simp_all add: item delivery_item_def row_at_iff [OF core] attempted_def)
  moreover have "dv_EventSequence item \<le> q" if "row_at d (q, dv_SinkID item) = Some v" "waiting v" for q v
    using that head(2) rows by (auto simp: item delivery_item_def row_at_iff [OF core])
  ultimately show "due_item (row_at d) now item" unfolding due_item_def by blast
  show "dv_SinkName item \<in> active_names d"
    using rows by (auto simp: item delivery_item_def active_names_def)
qed

lemma update_deliveries_sinks:
  "update_deliveries p f d = Some (d', n) \<Longrightarrow> active_names d' = active_names d"
  using update_deliveries_Some(1) [of p f d d' n] by (simp add: active_names_def)

lemma expectOne_active:
  "active_names (fst (expectOneDeliveryUpdate fault operation (update_deliveries p f d) d)) = active_names d"
  by (auto simp: expectOneDeliveryUpdate_def split: exec_fault.splits option.splits dest: update_deliveries_sinks)

lemma finite_row_at: "core_inv x d \<Longrightarrow> finite (dom (row_at d))"
  by (rule finite_subset [of _ "delivery_key ` set (db_deliveries d)"]) (auto simp: row_at_iff)

lemma due_item_attempted: "due_item rs now item \<Longrightarrow> \<exists>w. rs (item_key item) = Some w \<and> attempted item w"
  unfolding due_item_def by blast

lemma mark_rewritten:
  assumes "db_inv x d" and "\<And>w. delivery_key (f w) = delivery_key w"
    and "\<And>w. 0 \<le> dl_attempts (f w) \<Longrightarrow> delivery_ok (f w)"
    and "expectOneDeliveryUpdate fault operation (update_deliveries (attempted item) f d) d = (d', err)"
  shows "rewritten (row_at d) item f (row_at d') \<or> err \<noteq> None \<and> row_at d' = row_at d"
  using mark_effect [OF assms] unfolding rewritten_def by blast

interpretation sqlite_store: delivery_store sqlite_ops row_at active_names "db_inv x" for x
proof (unfold_locales, simp_all only: sqlite_ops_def delivery_ops.simps)
  fix s f now item k w fault a st s' err t pm ra fl
  assume inv: "db_inv x s"
  then have core: "core_inv x s" by blast
  show "finite (dom (row_at s))" by (rule finite_row_at [OF core])
  show "NextDueDelivery f now s = Inr (Some item) \<Longrightarrow> due_item (row_at s) now item"
    "NextDueDelivery f now s = Inr (Some item) \<Longrightarrow> dv_SinkName item \<in> active_names s"
    using NextDueDelivery_due [OF inv] by auto
  show "\<exists>q v. row_at s (q, snd k) = Some v \<and> waiting v \<and> q \<le> fst k \<and> now < dl_next_attempt_at v"
    if r: "NextDueDelivery f now s = Inr None" and k: "row_at s k = Some w" and wt: "waiting w"
  proof -
    have none: "due_heads now s = []" using r by (simp add: NextDueDelivery_def split: if_splits)
    have w: "w \<in> set (db_deliveries s)" "delivery_key w = k" using k by (simp_all add: row_at_iff [OF core])
    obtain v where "v \<in> set (db_deliveries s)" "dl_sink v = dl_sink w" "waiting v" "dl_event v \<le> dl_event w"
      "now < dl_next_attempt_at v"
      using waiting_blocked [OF inv none w(1) wt] by blast
    then show ?thesis
      using w(2) by (intro exI [of _ "dl_event v"] exI [of _ v]) (auto simp: row_at_iff [OF core])
  qed
  show "db_inv x (fst (MarkDelivered fault item a st now s))" by (rule MarkDelivered_inv [OF inv])
  show "db_inv x (fst (MarkFailed fault item a pm ra fl st now s))" by (rule MarkFailed_inv [OF inv])
  show "MarkDelivered fault item a st now s = (s', err) \<Longrightarrow>
      rewritten (row_at s) item (delivered_row a st now) (row_at s') \<or> err \<noteq> None \<and> row_at s' = row_at s"
    unfolding MarkDelivered_def by (rule mark_rewritten [OF inv]) (simp_all add: delivery_ok_rows)
  show "MarkFailed fault item a pm ra fl st now s = (s', err) \<Longrightarrow>
      rewritten (row_at s) item (failed_row a pm ra fl st now) (row_at s') \<or> err \<noteq> None \<and> row_at s' = row_at s"
    unfolding MarkFailed_def by (rule mark_rewritten [OF inv]) (simp_all add: delivery_ok_rows)
  show "snd (MarkDelivered ExecOk item a st now s) = None" if due: "due_item (row_at s) t item" and a: "0 \<le> a"
  proof -
    obtain w where w: "row_at s (item_key item) = Some w" "attempted item w"
      using due_item_attempted [OF due] by blast
    have "\<exists>d'. MarkDelivered ExecOk item a st now s = (d', None)"
      unfolding MarkDelivered_def
      by (rule mark_succeeds [OF inv w]) (use a in \<open>simp_all add: delivery_ok_rows\<close>)
    then show ?thesis by auto
  qed
  show "snd (MarkFailed ExecOk item a pm ra fl st now s) = None" if due: "due_item (row_at s) t item" and a: "0 \<le> a"
  proof -
    obtain w where w: "row_at s (item_key item) = Some w" "attempted item w"
      using due_item_attempted [OF due] by blast
    have "\<exists>d'. MarkFailed ExecOk item a pm ra fl st now s = (d', None)"
      unfolding MarkFailed_def
      by (rule mark_succeeds [OF inv w]) (use a in \<open>simp_all add: delivery_ok_rows\<close>)
    then show ?thesis by auto
  qed
next
  fix now s fault item a st pm ra fl
  show "\<exists>r. NextDueDelivery False now s = Inr r" by (simp add: NextDueDelivery_def)
  show "active_names (fst (MarkDelivered fault item a st now s)) = active_names s"
    by (simp add: MarkDelivered_def expectOne_active)
  show "active_names (fst (MarkFailed fault item a pm ra fl st now s)) = active_names s"
    by (simp add: MarkFailed_def expectOne_active)
qed

end
