(* ===== verification/Delivery_Worker.thy ===== *)
theory Delivery_Worker
  imports Delivery_Store
begin

text \<open>
  The delivery worker of \<open>internal/delivery/delivery.go\<close>. It is generic in the store: the lemmas
  are proved once from the contract \<open>delivery_store\<close> and reach the SQLite store through its
  interpretation. A sink is what its \<open>Send\<close> returns for an item at that moment, \<open>None\<close> when the
  process dies during the request. \<open>ProcessOne\<close> also returns the item it handed to a sink, the
  only effect outside the store.
\<close>

section \<open>Definitions\<close>

definition maxStoredErrorBytes :: nat where
  "maxStoredErrorBytes = 2048"

record Worker =
  wk_pollInterval :: duration
  wk_initialDelay :: duration
  wk_maxDelay :: duration
  wk_maxAttempts :: int
  wk_hooks :: Hooks

definition NewWorkerWithHooks :: "duration \<Rightarrow> duration \<Rightarrow> duration \<Rightarrow> int \<Rightarrow> Hooks \<Rightarrow> Worker" where
  "NewWorkerWithHooks pollInterval initialDelay maxDelay maxAttempts hooks =
     \<lparr>wk_pollInterval = pollInterval, wk_initialDelay = initialDelay, wk_maxDelay = maxDelay,
      wk_maxAttempts = maxAttempts, wk_hooks = hooks\<rparr>"

definition NewWorker :: "duration \<Rightarrow> duration \<Rightarrow> duration \<Rightarrow> int \<Rightarrow> Worker" where
  "NewWorker pollInterval initialDelay maxDelay maxAttempts =
     NewWorkerWithHooks pollInterval initialDelay maxDelay maxAttempts no_hooks"

text \<open>The loop of \<open>retryDelay\<close>, by the iterations its counter has left.\<close>

fun retry_loop :: "duration \<Rightarrow> duration \<Rightarrow> nat \<Rightarrow> duration" where
  "retry_loop maxDelay delay 0 = (if delay > maxDelay then maxDelay else delay)"
| "retry_loop maxDelay delay (Suc n) =
     (if delay < maxDelay
      then if delay > go_div maxDelay 2 then maxDelay else retry_loop maxDelay (i64 (delay * 2)) n
      else if delay > maxDelay then maxDelay else delay)"

definition retryDelay :: "Worker \<Rightarrow> int \<Rightarrow> duration" where
  "retryDelay w previousAttempts = retry_loop (wk_maxDelay w) (wk_initialDelay w) (nat previousAttempts)"

definition truncate_bytes :: "string \<Rightarrow> nat \<Rightarrow> string" where
  "truncate_bytes s limit = (if length s \<le> limit then s else take limit s)"

type_synonym sink = "Delivery \<Rightarrow> AttemptResult option"

record attempt_env =
  ae_load_fails :: bool
  ae_load_at :: time
  ae_cancelled :: bool
  ae_record_at :: time
  ae_mark :: exec_fault

datatype worker_error =
    LoadNextDelivery store_error
  | NoSinkConfigured string
  | RecordSuccessfulDelivery store_error
  | RecordFailedDelivery store_error

text \<open>The wait before the next attempt: the larger of the backoff and what the sink asked for,
  never more than \<open>maxDelay\<close> for the latter.\<close>

definition attempt_delay :: "Worker \<Rightarrow> Delivery \<Rightarrow> AttemptResult \<Rightarrow> duration" where
  "attempt_delay w item result =
     (let delay = retryDelay w (dv_Attempts item) in
      if ar_RetryAfter result > delay
      then (if ar_RetryAfter result > wk_maxDelay w then wk_maxDelay w else ar_RetryAfter result)
      else delay)"

definition next_attempt :: "Delivery \<Rightarrow> int" where
  "next_attempt item = i64 (dv_Attempts item + 1)"

definition permanent_failure :: "Worker \<Rightarrow> Delivery \<Rightarrow> AttemptResult \<Rightarrow> bool" where
  "permanent_failure w item result \<longleftrightarrow> \<not> ar_Retryable result \<or> next_attempt item \<ge> wk_maxAttempts w"

definition retry_at :: "Worker \<Rightarrow> Delivery \<Rightarrow> AttemptResult \<Rightarrow> time \<Rightarrow> time" where
  "retry_at w item result now =
     (if permanent_failure w item result then now else now + attempt_delay w item result)"

definition record_attempt ::
    "'s delivery_ops \<Rightarrow> Worker \<Rightarrow> attempt_env \<Rightarrow> Delivery \<Rightarrow> AttemptResult \<Rightarrow> 's \<Rightarrow>
     's \<times> (worker_error, bool) outcome" where
  "record_attempt store w e item result s =
     (let now = ae_record_at e; attempt = next_attempt item in
      if ar_Success result then
        if CallAfterSinkSuccess (wk_hooks w) then (s, Halted)
        else (case st_MarkDelivered store (ae_mark e) item attempt (ar_StatusCode result) now s of
                (s', Some err) \<Rightarrow> (s', Err (RecordSuccessfulDelivery err))
              | (s', None) \<Rightarrow> (s', Ok True))
      else
        (case st_MarkFailed store (ae_mark e) item attempt (permanent_failure w item result)
                (retry_at w item result now) (truncate_bytes (ar_Failure result) maxStoredErrorBytes)
                (ar_StatusCode result) now s of
           (s', Some err) \<Rightarrow> (s', Err (RecordFailedDelivery err))
         | (s', None) \<Rightarrow> (s', Ok True)))"

definition ProcessOne ::
    "'s delivery_ops \<Rightarrow> Worker \<Rightarrow> (string \<Rightarrow> sink option) \<Rightarrow> attempt_env \<Rightarrow> 's \<Rightarrow>
     's \<times> Delivery option \<times> (worker_error, bool) outcome" where
  "ProcessOne store w sinks e s =
     (case st_NextDueDelivery store (ae_load_fails e) (ae_load_at e) s of
        Inl err \<Rightarrow> (s, None, Err (LoadNextDelivery err))
      | Inr None \<Rightarrow> (s, None, Ok False)
      | Inr (Some item) \<Rightarrow>
          (case sinks (dv_SinkName item) of
             None \<Rightarrow> (s, None, Err (NoSinkConfigured (dv_SinkName item)))
           | Some send \<Rightarrow>
               (case send item of
                  None \<Rightarrow> (s, Some item, Halted)
                | Some result \<Rightarrow>
                    if ae_cancelled e \<and> \<not> ar_Success result then (s, Some item, Ok False)
                    else (case record_attempt store w e item result s of
                            (s', out) \<Rightarrow> (s', Some item, out)))))"

text \<open>
  \<open>Run\<close> is a loop over the firings of its timer. What happens at each is given by a list: whether
  the select sees the context done, the environment of the call, and whether the context is done
  when an error is examined. The result has the items sent, the delays the timer was reset to and
  how the loop ended, \<open>Polling\<close> when the list ran out.
\<close>

record tick =
  tk_done :: bool
  tk_sinks :: "string \<Rightarrow> sink option"
  tk_env :: attempt_env
  tk_done_after :: bool

datatype run_end = Polling | Returned "worker_error option" | Killed

fun Run :: "'s delivery_ops \<Rightarrow> Worker \<Rightarrow> tick list \<Rightarrow> 's \<Rightarrow> 's \<times> Delivery list \<times> duration list \<times> run_end" where
  "Run store w [] s = (s, [], [], Polling)"
| "Run store w (t # ts) s =
     (if tk_done t then (s, [], [], Returned None)
      else (case ProcessOne store w (tk_sinks t) (tk_env t) s of
              (s', sent, Halted) \<Rightarrow> (s', (case sent of None \<Rightarrow> [] | Some i \<Rightarrow> [i]), [], Killed)
            | (s', sent, Err err) \<Rightarrow>
                (s', (case sent of None \<Rightarrow> [] | Some i \<Rightarrow> [i]), [],
                 Returned (if tk_done_after t then None else Some err))
            | (s', sent, Ok processed) \<Rightarrow>
                (case Run store w ts s' of
                   (s'', items, delays, r) \<Rightarrow>
                     (s'', (case sent of None \<Rightarrow> [] | Some i \<Rightarrow> [i]) @ items,
                      (if processed then 0 else wk_pollInterval w) # delays, r))))"

section \<open>The backoff\<close>

lemma retry_loop_eq:
  assumes "0 \<le> delay" and "0 \<le> m" and "m \<le> max_int64"
  shows "retry_loop m delay n = min (delay * 2 ^ n) m"
  using assms(1)
proof (induction n arbitrary: delay)
  case 0
  then show ?case by (simp add: min_def)
next
  case (Suc n)
  have big: "b \<le> b * 2 ^ k" if "0 \<le> b" for b :: int and k
    using that mult_left_mono [of 1 "2 ^ k" b] by simp
  consider "m \<le> delay" | "delay < m" "m div 2 < delay" | "delay < m" "delay \<le> m div 2" by linarith
  then show ?case
  proof cases
    case 1
    then show ?thesis using big [OF Suc.prems, of "Suc n"] by (auto simp: min_def)
  next
    case 2
    then have "m \<le> delay * 2 * 2 ^ n" using big [of "delay * 2" n] Suc.prems by linarith
    then show ?thesis using 2 assms(2) by (simp add: min_def go_div_2 mult.assoc)
  next
    case 3
    then have "delay * 2 \<le> m" by linarith
    then have "i64 (delay * 2) = delay * 2"
      using Suc.prems assms(3) by (intro i64_in_range) (simp_all add: min_int64_def)
    then show ?thesis using 3 Suc assms(2) by (simp add: go_div_2 mult.assoc)
  qed
qed

lemma retry_loop_le: "retry_loop m delay n \<le> m"
  by (induction m delay n rule: retry_loop.induct) auto

lemma attempt_delay_le: "attempt_delay w item result \<le> wk_maxDelay w"
  by (simp add: attempt_delay_def Let_def retryDelay_def retry_loop_le)

text \<open>(C36) The backoff is exponential with a cap and never overflows: after n attempts it is the
  initial delay times 2 to the n, or the maximal delay when that is smaller.\<close>

theorem retryDelay_exponential:
  assumes "0 \<le> wk_initialDelay w" and "0 \<le> wk_maxDelay w" and "wk_maxDelay w \<le> max_int64"
  shows "retryDelay w n = min (wk_initialDelay w * 2 ^ nat n) (wk_maxDelay w)"
  unfolding retryDelay_def by (rule retry_loop_eq [OF assms])

theorem retryDelay_exponential_witness:
  "retryDelay (NewWorker Second Second (5 * Minute) 10) 20 = 5 * Minute"
  using retryDelay_exponential [of "NewWorker Second Second (5 * Minute) 10" 20]
  by (simp add: NewWorker_def NewWorkerWithHooks_def duration_defs max_int64_def)
section \<open>One iteration over any store that keeps the contract\<close>

text \<open>The row an attempt leaves, a function of the result the sink reported.\<close>

definition attempt_row :: "Worker \<Rightarrow> time \<Rightarrow> Delivery \<Rightarrow> AttemptResult \<Rightarrow> delivery_row \<Rightarrow> delivery_row" where
  "attempt_row w now item result =
     (if ar_Success result then delivered_row (next_attempt item) (ar_StatusCode result) now
      else failed_row (next_attempt item) (permanent_failure w item result) (retry_at w item result now)
             (truncate_bytes (ar_Failure result) maxStoredErrorBytes) (ar_StatusCode result) now)"

text \<open>A waiting row weighs the attempts it has left, at least one.\<close>

definition weight :: "Worker \<Rightarrow> delivery_row \<Rightarrow> nat" where
  "weight w r = (if waiting r then nat (max 1 (wk_maxAttempts w - dl_attempts r)) else 0)"

definition work :: "Worker \<Rightarrow> row_map \<Rightarrow> nat" where
  "work w rs = (\<Sum>k \<in> dom rs. weight w (the (rs k)))"

definition attempts_ok :: "row_map \<Rightarrow> bool" where
  "attempts_ok rs \<longleftrightarrow> (\<forall>k r. rs k = Some r \<and> waiting r \<longrightarrow> 0 \<le> dl_attempts r \<and> dl_attempts r < max_int64)"

lemma attempt_row_key [simp]:
  "dl_event (attempt_row w now item result r) = dl_event r" "dl_sink (attempt_row w now item result r) = dl_sink r"
  by (simp_all add: attempt_row_def)

lemma next_attempt_eq: "0 \<le> dv_Attempts item \<Longrightarrow> dv_Attempts item < max_int64 \<Longrightarrow> next_attempt item = dv_Attempts item + 1"
  unfolding next_attempt_def by (rule i64_in_range) (simp_all add: min_int64_def)

lemma attempt_row_state:
  "dl_state (attempt_row w now item result r) =
     (if ar_Success result then Delivered else if permanent_failure w item result then DeadLetter else RetryWait)"
  "dl_attempts (attempt_row w now item result r) = next_attempt item"
  by (simp_all add: attempt_row_def)

lemma attempt_row_weight:
  assumes "attempted item r" and "0 \<le> dl_attempts r" and "dl_attempts r < max_int64"
  shows "weight w (attempt_row w now item result r) < weight w r"
proof -
  have a: "dv_Attempts item = dl_attempts r" "waiting r" using assms(1) by (simp_all add: attempted_def)
  then have n: "next_attempt item = dl_attempts r + 1" using next_attempt_eq [of item] assms by simp
  show ?thesis
    using a(2) n by (auto simp: weight_def attempt_row_state permanent_failure_def)
qed

lemma attempts_ok_rewritten:
  assumes "attempts_ok rs" and "rewritten rs item (attempt_row w now item result) rs'"
    and "wk_maxAttempts w \<le> max_int64"
  shows "attempts_ok rs'"
proof -
  obtain r where r: "rs (item_key item) = Some r" "attempted item r"
    and rs': "rs' = rs(item_key item \<mapsto> attempt_row w now item result r)"
    using assms(2) unfolding rewritten_def by blast
  have a: "dv_Attempts item = dl_attempts r" "waiting r" using r(2) by (simp_all add: attempted_def)
  then have b: "0 \<le> dl_attempts r" "dl_attempts r < max_int64" using assms(1) r(1) unfolding attempts_ok_def by blast+
  then have n: "next_attempt item = dl_attempts r + 1" using next_attempt_eq [of item] a by simp
  have "0 \<le> dl_attempts v \<and> dl_attempts v < max_int64" if v: "rs' k = Some v" "waiting v" for k v
  proof (cases "k = item_key item")
    case True
    then have "v = attempt_row w now item result r" using v(1) rs' by simp
    then show ?thesis
      using v(2) b n assms(3) by (auto simp: attempt_row_state permanent_failure_def split: if_splits)
  next
    case False
    then have "rs k = Some v" using v(1) rs' by simp
    with v(2) assms(1) show ?thesis unfolding attempts_ok_def by blast
  qed
  then show ?thesis unfolding attempts_ok_def by blast
qed

lemma work_rewritten:
  assumes "finite (dom rs)" and "attempts_ok rs" and "rewritten rs item (attempt_row w now item result) rs'"
  shows "work w rs' < work w rs"
proof -
  obtain r where r: "rs (item_key item) = Some r" "attempted item r"
    and rs': "rs' = rs(item_key item \<mapsto> attempt_row w now item result r)"
    using assms(3) unfolding rewritten_def by blast
  have "0 \<le> dl_attempts r" "dl_attempts r < max_int64"
    using assms(2) r attempted_def unfolding attempts_ok_def by blast+
  then have less: "weight w (attempt_row w now item result r) < weight w r"
    by (rule attempt_row_weight [OF r(2)])
  have dom: "dom rs' = dom rs" using r(1) by (auto simp: rs')
  show ?thesis
    unfolding work_def dom
    by (rule sum_strict_mono_ex1 [OF assms(1)]) (use less r(1) in \<open>auto simp: rs'\<close>)
qed

lemma work_0:
  assumes "finite (dom rs)" and "work w rs = 0"
  shows "rs k = Some r \<Longrightarrow> \<not> waiting r"
  using assms by (force simp: work_def weight_def sum_eq_0_iff)

context delivery_store
begin

lemma record_attempt_good: "good s \<Longrightarrow> good (fst (record_attempt ops w e item result s))"
  using delivered_good failed_good
  by (auto simp: record_attempt_def Let_def split: prod.splits option.splits) (metis fst_conv)+

lemma record_attempt_active: "active (fst (record_attempt ops w e item result s)) = active s"
  using delivered_active failed_active
  by (auto simp: record_attempt_def Let_def split: prod.splits option.splits) (metis fst_conv)+

lemma record_attempt_effect:
  assumes "good s" and "record_attempt ops w e item result s = (s', out)"
  shows "rewritten (rows s) item (attempt_row w (ae_record_at e) item result) (rows s') \<or>
         out \<noteq> Ok True \<and> rows s' = rows s"
proof (cases "ar_Success result")
  case True
  then show ?thesis
    using assms delivered_effect [OF assms(1), of "ae_mark e" item "next_attempt item" "ar_StatusCode result" "ae_record_at e" s']
    by (auto simp: record_attempt_def attempt_row_def Let_def split: prod.splits option.splits if_splits)
next
  case False
  then show ?thesis
    using assms failed_effect [OF assms(1), of "ae_mark e" item "next_attempt item" "permanent_failure w item result"
        "retry_at w item result (ae_record_at e)" "truncate_bytes (ar_Failure result) maxStoredErrorBytes"
        "ar_StatusCode result" "ae_record_at e" s']
    by (auto simp: record_attempt_def attempt_row_def Let_def split: prod.splits option.splits)
qed

lemma record_attempt_total:
  assumes "good s" and "due_item (rows s) t item" and "0 \<le> next_attempt item"
    and "ae_mark e = ExecOk" and "\<not> CallAfterSinkSuccess (wk_hooks w)"
  shows "snd (record_attempt ops w e item result s) = Ok True"
  using delivered_total [OF assms(1-3)] failed_total [OF assms(1-3)] assms(4,5)
  by (auto simp: record_attempt_def Let_def split: prod.splits option.splits) (metis snd_conv option.distinct(1))+

end
text \<open>The keys that wait, and what makes an iteration undisturbed.\<close>

definition waits :: "row_map \<Rightarrow> (int \<times> int) set" where
  "waits rs = {k. \<exists>r. rs k = Some r \<and> waiting r}"

definition answering :: "string set \<Rightarrow> (string \<Rightarrow> sink option) \<Rightarrow> bool" where
  "answering names sinks \<longleftrightarrow> (\<forall>n \<in> names. \<exists>send. sinks n = Some send \<and> (\<forall>item. send item \<noteq> None))"

definition undisturbed :: "attempt_env \<Rightarrow> bool" where
  "undisturbed e \<longleftrightarrow> \<not> ae_load_fails e \<and> \<not> ae_cancelled e \<and> ae_mark e = ExecOk"

lemma attempted_waits: "rs (item_key item) = Some r \<Longrightarrow> attempted item r \<Longrightarrow> item_key item \<in> waits rs"
  unfolding waits_def attempted_def by blast

lemma due_item_waits: "due_item rs now item \<Longrightarrow> item_key item \<in> waits rs"
  unfolding due_item_def using attempted_waits by blast

lemma due_item_least: "due_item rs now item \<Longrightarrow> (q, dv_SinkID item) \<in> waits rs \<Longrightarrow> dv_EventSequence item \<le> q"
  unfolding due_item_def waits_def by blast

lemma rewritten_waits:
  assumes "rewritten rs item f rs'"
  shows "waits rs' \<subseteq> waits rs"
proof -
  obtain r where r: "rs (item_key item) = Some r" "attempted item r" and rs': "rs' = rs(item_key item \<mapsto> f r)"
    using assms unfolding rewritten_def by blast
  show ?thesis
  proof
    fix k assume "k \<in> waits rs'"
    then show "k \<in> waits rs"
      using attempted_waits [of rs item, OF r] by (cases "k = item_key item") (simp_all add: waits_def rs')
  qed
qed

context delivery_store
begin

lemma ProcessOne_good: "good s \<Longrightarrow> good (fst (ProcessOne ops w sinks e s))"
  using record_attempt_good [of s w e]
  by (simp add: ProcessOne_def split: sum.splits option.splits prod.splits) (metis fst_conv)

lemma ProcessOne_active: "active (fst (ProcessOne ops w sinks e s)) = active s"
  using record_attempt_active [of w e]
  by (simp add: ProcessOne_def split: sum.splits option.splits prod.splits) (metis fst_conv)

lemma ProcessOne_sends:
  assumes "good s" and "ProcessOne ops w sinks e s = (s', Some item, out)"
  shows "due_item (rows s) (ae_load_at e) item"
  using assms next_due [OF assms(1)]
  by (auto simp: ProcessOne_def split: sum.splits option.splits prod.splits if_splits)

lemma ProcessOne_effect:
  assumes "good s" and "ProcessOne ops w sinks e s = (s', sent, out)"
  shows "(\<exists>item send result. sent = Some item \<and> due_item (rows s) (ae_load_at e) item \<and>
            sinks (dv_SinkName item) = Some send \<and> send item = Some result \<and>
            rewritten (rows s) item (attempt_row w (ae_record_at e) item result) (rows s')) \<or>
         out \<noteq> Ok True \<and> rows s' = rows s"
proof (cases "\<exists>item send result. st_NextDueDelivery ops (ae_load_fails e) (ae_load_at e) s = Inr (Some item) \<and>
    sinks (dv_SinkName item) = Some send \<and> send item = Some result \<and> \<not> (ae_cancelled e \<and> \<not> ar_Success result)")
  case True
  then obtain item send result where
    item: "st_NextDueDelivery ops (ae_load_fails e) (ae_load_at e) s = Inr (Some item)"
    "sinks (dv_SinkName item) = Some send" "send item = Some result" "\<not> (ae_cancelled e \<and> \<not> ar_Success result)"
    by blast
  then have "sent = Some item" "record_attempt ops w e item result s = (s', out)"
    using assms(2) by (auto simp: ProcessOne_def split: prod.splits)
  with record_attempt_effect [OF assms(1)] next_due [OF assms(1) item(1)] item show ?thesis by blast
next
  case False
  then have "out \<noteq> Ok True \<and> s' = s"
    using assms(2) by (auto simp: ProcessOne_def split: sum.splits option.splits if_splits)
  then show ?thesis by simp
qed

lemma ProcessOne_waits:
  assumes "good s" and "ProcessOne ops w sinks e s = (s', sent, out)"
  shows "waits (rows s') \<subseteq> waits (rows s)"
  using ProcessOne_effect [OF assms] rewritten_waits by (elim disjE) (blast, simp)

lemma ProcessOne_attempts_ok:
  assumes "good s" and "ProcessOne ops w sinks e s = (s', sent, out)" and "attempts_ok (rows s)"
    and "wk_maxAttempts w \<le> max_int64"
  shows "attempts_ok (rows s')"
  using ProcessOne_effect [OF assms(1,2)] attempts_ok_rewritten [OF assms(3) _ assms(4)] assms(3)
  by (elim disjE) (blast, simp)

lemma ProcessOne_progress:
  assumes "good s" and "ProcessOne ops w sinks e s = (s', sent, Ok True)" and "attempts_ok (rows s)"
  shows "work w (rows s') < work w (rows s)"
  using ProcessOne_effect [OF assms(1,2)] work_rewritten [OF rows_finite [OF assms(1)] assms(3)] by blast

lemma ProcessOne_undisturbed:
  assumes "good s" and "undisturbed e" and "answering (active s) sinks" and "attempts_ok (rows s)"
    and "\<not> CallAfterSinkSuccess (wk_hooks w)"
  shows "snd (snd (ProcessOne ops w sinks e s)) = Ok True \<or>
         snd (snd (ProcessOne ops w sinks e s)) = Ok False \<and> st_NextDueDelivery ops False (ae_load_at e) s = Inr None"
proof -
  obtain r where r: "st_NextDueDelivery ops False (ae_load_at e) s = Inr r" using next_total by blast
  have env: "ae_load_fails e = False" "ae_cancelled e = False" "ae_mark e = ExecOk"
    using assms(2) by (simp_all add: undisturbed_def)
  show ?thesis
  proof (cases r)
    case None
    with r env show ?thesis by (simp add: ProcessOne_def)
  next
    case (Some item)
    note next_item = r [unfolded Some]
    have due: "due_item (rows s) (ae_load_at e) item" by (rule next_due [OF assms(1) next_item])
    then obtain q where "rows s (item_key item) = Some q" "attempted item q" using due_item_attempted by blast
    then have "0 \<le> dv_Attempts item" "dv_Attempts item < max_int64"
      using assms(4) unfolding attempts_ok_def attempted_def by metis+
    then have pos: "0 \<le> next_attempt item" by (simp add: next_attempt_eq)
    obtain send result where sink: "sinks (dv_SinkName item) = Some send" "send item = Some result"
      using assms(3) next_active [OF assms(1) next_item] unfolding answering_def by blast
    have "snd (record_attempt ops w e item result s) = Ok True"
      by (rule record_attempt_total [OF assms(1) due pos env(3) assms(5)])
    then show ?thesis
      using next_item env sink by (cases "record_attempt ops w e item result s") (simp add: ProcessOne_def)
  qed
qed

end
section \<open>The loop\<close>

definition sink_log :: "int \<Rightarrow> Delivery list \<Rightarrow> int list" where
  "sink_log k items = map dv_EventSequence (filter (\<lambda>i. dv_SinkID i = k) items)"

text \<open>Ticks that leave enough time between an attempt and the next selection for every retry to
  be due.\<close>

fun spaced :: "Worker \<Rightarrow> time \<Rightarrow> tick list \<Rightarrow> bool" where
  "spaced w t [] \<longleftrightarrow> True"
| "spaced w t (k # ks) \<longleftrightarrow> t \<le> ae_load_at (tk_env k) \<and>
     spaced w (max (ae_load_at (tk_env k)) (ae_record_at (tk_env k) + wk_maxDelay w)) ks"

definition due_by :: "row_map \<Rightarrow> time \<Rightarrow> bool" where
  "due_by rs t \<longleftrightarrow> (\<forall>k r. rs k = Some r \<and> waiting r \<longrightarrow> dl_next_attempt_at r \<le> t)"

lemma due_by_mono: "due_by rs t \<Longrightarrow> t \<le> u \<Longrightarrow> due_by rs u"
  unfolding due_by_def by (meson order_trans)

lemma due_by_rewritten:
  assumes "due_by rs t" and "rewritten rs item (attempt_row w now item result) rs'"
  shows "due_by rs' (max t (now + wk_maxDelay w))"
proof -
  obtain r where rs': "rs' = rs(item_key item \<mapsto> attempt_row w now item result r)"
    using assms(2) unfolding rewritten_def by blast
  have "dl_next_attempt_at v \<le> max t (now + wk_maxDelay w)" if "rs' k = Some v" "waiting v" for k v
  proof (cases "k = item_key item")
    case True
    then have v: "v = attempt_row w now item result r" using that(1) rs' by simp
    then have "\<not> ar_Success result" "\<not> permanent_failure w item result"
      using that(2) by (auto simp: attempt_row_state split: if_splits)
    then have "dl_next_attempt_at v = now + attempt_delay w item result"
      by (simp add: v attempt_row_def retry_at_def)
    then show ?thesis using attempt_delay_le [of w item result] by simp
  next
    case False
    then have "rs k = Some v" using that(1) rs' by simp
    with assms(1) that(2) have "dl_next_attempt_at v \<le> t" unfolding due_by_def by blast
    then show ?thesis by simp
  qed
  then show ?thesis unfolding due_by_def by blast
qed

lemma sink_log_simps [simp]:
  "sink_log k [] = []"
  "sink_log k (i # is) = (if dv_SinkID i = k then dv_EventSequence i # sink_log k is else sink_log k is)"
  by (simp_all add: sink_log_def)

lemma Run_Cons_cases:
  assumes "Run store w (t # ts) s = (s', items, delays, r)"
  obtains "items = []" "s' = s"
  | s1 sent out items' where "ProcessOne store w (tk_sinks t) (tk_env t) s = (s1, sent, out)"
      "items = (case sent of None \<Rightarrow> [] | Some i \<Rightarrow> [i]) @ items'"
      "items' = [] \<and> s' = s1 \<or> (\<exists>ds. Run store w ts s1 = (s', items', ds, r))"
proof -
  have "(items = [] \<and> s' = s) \<or> (\<exists>s1 sent out items'. ProcessOne store w (tk_sinks t) (tk_env t) s = (s1, sent, out) \<and>
      items = (case sent of None \<Rightarrow> [] | Some i \<Rightarrow> [i]) @ items' \<and>
      (items' = [] \<and> s' = s1 \<or> (\<exists>ds. Run store w ts s1 = (s', items', ds, r))))"
    using assms by (fastforce split: if_splits prod.splits outcome.splits)
  with that show ?thesis by metis
qed

context delivery_store
begin

lemma Run_good: "good s \<Longrightarrow> good (fst (Run ops w ts s))"
proof (induction ts arbitrary: s)
  case (Cons t ts)
  obtain s1 sent out where p: "ProcessOne ops w (tk_sinks t) (tk_env t) s = (s1, sent, out)"
    using prod_cases3 by blast
  then have "good s1" using ProcessOne_good [OF Cons.prems, of w "tk_sinks t" "tk_env t"] by simp
  with Cons.IH [of s1] Cons.prems p show ?case
    by (auto split: prod.splits outcome.splits)
qed simp

lemma Run_sends:
  assumes "good s" and "Run ops w ts s = (s', items, delays, r)"
  shows "(\<forall>i \<in> set items. item_key i \<in> waits (rows s)) \<and> sorted (sink_log k items)"
  using assms
proof (induction ts arbitrary: s s' items delays r)
  case (Cons t ts)
  show ?case
  proof (cases rule: Run_Cons_cases [OF Cons.prems(2)])
    case (2 s1 sent out items')
    have good1: "good s1"
      using ProcessOne_good [OF Cons.prems(1), of w "tk_sinks t" "tk_env t"] 2(1) by simp
    have sub: "waits (rows s1) \<subseteq> waits (rows s)" by (rule ProcessOne_waits [OF Cons.prems(1) 2(1)])
    have rest: "(\<forall>i \<in> set items'. item_key i \<in> waits (rows s1)) \<and> sorted (sink_log k items')"
      using 2(3) Cons.IH [OF good1] by (elim disjE exE) auto
    show ?thesis
    proof (cases sent)
      case None
      with 2(2) rest sub show ?thesis by auto
    next
      case (Some item)
      have due: "due_item (rows s) (ae_load_at (tk_env t)) item"
        by (rule ProcessOne_sends [OF Cons.prems(1) 2(1) [unfolded Some]])
      have "dv_EventSequence item \<le> q" if "q \<in> set (sink_log k items')" "dv_SinkID item = k" for q
        using that rest sub due_item_least [OF due, of q] by (auto simp: sink_log_def)
      with 2(2) Some rest sub due_item_waits [OF due] show ?thesis by auto
    qed
  qed simp
qed simp

lemma drain_step:
  assumes "good s" and "attempts_ok (rows s)" and "wk_maxAttempts w \<le> max_int64"
    and "\<not> CallAfterSinkSuccess (wk_hooks w)" and "undisturbed e" and "answering (active s) sinks"
    and "due_by (rows s) (ae_load_at e)"
  obtains s1 sent b where "ProcessOne ops w sinks e s = (s1, sent, Ok b)" "good s1" "active s1 = active s"
    "attempts_ok (rows s1)" "due_by (rows s1) (max (ae_load_at e) (ae_record_at e + wk_maxDelay w))"
    "work w (rows s1) < work w (rows s) \<or> work w (rows s1) = 0"
proof -
  obtain s1 sent out where p: "ProcessOne ops w sinks e s = (s1, sent, out)" using prod_cases3 by blast
  have g: "good s1" "active s1 = active s"
    using ProcessOne_good [OF assms(1), of w sinks e] ProcessOne_active [of w sinks e s] p by simp_all
  have a: "attempts_ok (rows s1)" by (rule ProcessOne_attempts_ok [OF assms(1) p assms(2,3)])
  have d: "due_by (rows s1) (max (ae_load_at e) (ae_record_at e + wk_maxDelay w))"
    using ProcessOne_effect [OF assms(1) p] due_by_rewritten [OF assms(7)] due_by_mono [OF assms(7)]
    by (elim disjE) (blast, simp)
  from ProcessOne_undisturbed [OF assms(1,5,6,2,4)] p
  consider "out = Ok True" | "out = Ok False" "st_NextDueDelivery ops False (ae_load_at e) s = Inr None" by auto
  then show ?thesis
  proof cases
    case 1
    then show ?thesis using that [OF p [unfolded 1] g a d] ProcessOne_progress [OF assms(1) p [unfolded 1] assms(2)] by blast
  next
    case 2
    have "\<not> waiting v" if "rows s k = Some v" for k v
      using next_none [OF assms(1) 2(2) that] assms(7) unfolding due_by_def by (meson leD)
    then have "work w (rows s) = 0" by (force simp: work_def weight_def intro: sum.neutral)
    moreover have "rows s1 = rows s" using ProcessOne_effect [OF assms(1) p] 2(1) p assms(5)
      by (auto simp: ProcessOne_def undisturbed_def 2(2))
    ultimately show ?thesis using that [OF p [unfolded 2(1)] g a d] by simp
  qed
qed

lemma Run_drains:
  assumes "good s" and "attempts_ok (rows s)" and "wk_maxAttempts w \<le> max_int64"
    and "\<not> CallAfterSinkSuccess (wk_hooks w)" and "due_by (rows s) t" and "spaced w t ts"
    and "\<forall>k \<in> set ts. \<not> tk_done k \<and> undisturbed (tk_env k) \<and> answering (active s) (tk_sinks k)"
    and "work w (rows s) \<le> length ts"
  shows "\<exists>s' items delays. Run ops w ts s = (s', items, delays, Polling) \<and> good s' \<and> work w (rows s') = 0"
  using assms(1,2,5-8)
proof (induction ts arbitrary: s t)
  case (Cons k ks)
  let ?e = "tk_env k"
  have k: "\<not> tk_done k" "undisturbed ?e" "answering (active s) (tk_sinks k)" using Cons.prems(5) by simp_all
  have due: "due_by (rows s) (ae_load_at ?e)" using Cons.prems(3,4) due_by_mono by simp
  obtain s1 sent b where s1: "ProcessOne ops w (tk_sinks k) ?e s = (s1, sent, Ok b)" "good s1" "active s1 = active s"
    "attempts_ok (rows s1)" "due_by (rows s1) (max (ae_load_at ?e) (ae_record_at ?e + wk_maxDelay w))"
    "work w (rows s1) < work w (rows s) \<or> work w (rows s1) = 0"
    by (rule drain_step [OF Cons.prems(1,2) assms(3,4) k(2,3) due])
  have "\<exists>s' items delays. Run ops w ks s1 = (s', items, delays, Polling) \<and> good s' \<and> work w (rows s') = 0"
    by (rule Cons.IH [OF s1(2,4,5)]) (use Cons.prems(4,5,6) s1(3,6) in auto)
  then show ?case using k(1) s1(1) by auto
qed simp

end
context delivery_store
begin

lemma ProcessOne_sink_found:
  assumes "good s" and "active s \<subseteq> dom sinks"
  shows "snd (snd (ProcessOne ops w sinks e s)) \<noteq> Err (NoSinkConfigured n)"
proof -
  have "sinks (dv_SinkName item) \<noteq> None"
    if "st_NextDueDelivery ops (ae_load_fails e) (ae_load_at e) s = Inr (Some item)" for item
    using next_active [OF assms(1) that] assms(2) by auto
  then show ?thesis
    by (auto simp: ProcessOne_def record_attempt_def Let_def split: sum.splits option.splits prod.splits)
qed

end

section \<open>The worker on the SQLite spool\<close>

text \<open>(C18) Whatever fails, an iteration of the worker either leaves every delivery row as it was
  or rewrites exactly one: the due head of line it sent, to the row that the result reported by
  the sink of that item determines. An iteration that reports progress did the latter.\<close>

theorem worker_attempt:
  assumes "db_inv x d" and "ProcessOne sqlite_ops w sinks e d = (d', sent, out)"
  shows "out \<noteq> Ok True \<and> row_at d' = row_at d \<or>
    (\<exists>item send result r. sent = Some item \<and> due_item (row_at d) (ae_load_at e) item \<and>
       sinks (dv_SinkName item) = Some send \<and> send item = Some result \<and>
       row_at d (item_key item) = Some r \<and> attempted item r \<and>
       row_at d' = (row_at d)(item_key item \<mapsto> attempt_row w (ae_record_at e) item result r))"
  using sqlite_store.ProcessOne_effect [OF assms] unfolding rewritten_def by blast

text \<open>The row an attempt leaves counts the attempt. It is delivered exactly when the sink
  reported success, a dead letter exactly when the failure is not retryable or the attempts are
  used up, and otherwise waits for the backoff or longer, at most the maximal delay.\<close>

theorem attempt_policy:
  assumes "attempted item r" and "0 \<le> dl_attempts r" and "dl_attempts r < max_int64"
    and "v = attempt_row w now item result r"
  shows "dl_attempts v = dl_attempts r + 1 \<and>
    (dl_state v = Delivered \<longleftrightarrow> ar_Success result) \<and>
    (dl_state v = DeadLetter \<longleftrightarrow> \<not> ar_Success result \<and>
       (\<not> ar_Retryable result \<or> wk_maxAttempts w \<le> dl_attempts r + 1)) \<and>
    (dl_state v = RetryWait \<longrightarrow> now + retryDelay w (dl_attempts r) \<le> dl_next_attempt_at v \<and>
       dl_next_attempt_at v \<le> now + wk_maxDelay w)"
proof -
  have a: "dv_Attempts item = dl_attempts r" using assms(1) by (simp add: attempted_def)
  then have n: "next_attempt item = dl_attempts r + 1" using next_attempt_eq [of item] assms(2,3) by simp
  have low: "retryDelay w (dl_attempts r) \<le> attempt_delay w item result"
    using retry_loop_le by (simp add: attempt_delay_def Let_def a retryDelay_def)
  show ?thesis
    using n low attempt_delay_le [of w item result]
    by (auto simp: assms(4) attempt_row_def retry_at_def permanent_failure_def)
qed



section \<open>A concrete run\<close>

definition example_worker :: Worker where
  "example_worker = NewWorker Second Second (5 * Minute) 3"

definition accepted :: AttemptResult where
  "accepted = \<lparr>ar_Success = True, ar_Retryable = False, ar_RetryAfter = 0, ar_StatusCode = 200, ar_Failure = []\<rparr>"

definition example_tick_at :: "time \<Rightarrow> tick" where
  "example_tick_at t = \<lparr>tk_done = False, tk_sinks = (\<lambda>_. Some (\<lambda>_. Some accepted)),
     tk_env = \<lparr>ae_load_fails = False, ae_load_at = t, ae_cancelled = False, ae_record_at = t + 10, ae_mark = ExecOk\<rparr>,
     tk_done_after = False\<rparr>"

definition example_tick :: tick where
  "example_tick = example_tick_at 10"

definition example_ticks :: "tick list" where
  "example_ticks = map example_tick_at [10, 6 * Minute, 12 * Minute]"

lemmas worker_defs = example_worker_def accepted_def example_tick_at_def example_tick_def example_ticks_def NewWorker_def NewWorkerWithHooks_def
  ProcessOne_def record_attempt_def sqlite_ops_def

lemma row_at_captured_db: "row_at captured_db k = (if k = (1, 1) then Some (new_delivery 1 1 10) else None)"
  by (cases k) (auto simp: row_at_def captured_db_def new_delivery_def)

definition delivered_db :: db where
  "delivered_db = captured_db\<lparr>db_deliveries := [delivered_row 1 200 20 (new_delivery 1 1 10)]\<rparr>"

lemma example_marked: "MarkDelivered ExecOk example_item 1 200 20 captured_db = (delivered_db, None)"
  by (simp add: MarkDelivered_def delivered_db_def delivery_defs example_defs)

lemma example_process:
  "ProcessOne sqlite_ops example_worker (tk_sinks example_tick) (tk_env example_tick) captured_db =
     (delivered_db, Some example_item, Ok True)"
proof -
  have "next_attempt example_item = 1" by (simp add: next_attempt_def example_item_def i64_def)
  then show ?thesis by (simp add: worker_defs example_next example_marked)
qed

theorem worker_attempt_witness:
  "\<exists>r. row_at captured_db (item_key example_item) = Some r \<and> attempted example_item r"
  using worker_attempt [OF captured_db_inv example_process] by auto

theorem attempt_policy_witness:
  "dl_state (attempt_row example_worker 20 example_item accepted (new_delivery 1 1 10)) = Delivered"
  using attempt_policy [of example_item "new_delivery 1 1 10", OF _ _ _ refl, of example_worker 20 accepted]
  by (simp add: attempted_def example_item_def new_delivery_def accepted_def max_int64_def)

lemma example_run:
  "Run sqlite_ops example_worker [example_tick] captured_db = (delivered_db, [example_item], [0], Polling)"
  using example_process by (simp add: example_tick_def example_tick_at_def)



end
