(* ===== verification/Delivery_Sinks.thy ===== *)
theory Delivery_Sinks
  imports Relay_Config Spool_Types Delivery_Types Failure_Hooks
begin

text \<open>
  The sinks of \<open>internal/delivery/webhook.go\<close> and \<open>internal/delivery/stdout.go\<close>. The request a
  webhook sends is a value; what the network answers is an argument. HMAC-SHA256 and the
  HTTP date parser are parameters.
\<close>

section \<open>Webhook\<close>

record WebhookSender =
  wh_endpoint :: string
  wh_authorization :: string
  wh_signingSecret :: bytes
  wh_timeout :: duration
  wh_hooks :: Hooks

definition NUL :: char where
  "NUL = CHR 0x00"

definition optionalSecret :: "(string \<Rightarrow> string option) \<Rightarrow> string \<Rightarrow> string + string" where
  "optionalSecret env name =
     (if name = [] then Inr []
      else (case env name of
              None \<Rightarrow> Inl (''environment variable '' @ name @ '' is not set'')
            | Some v \<Rightarrow> if v = [] then Inl (''environment variable '' @ name @ '' is not set'') else Inr v))"

definition NewWebhookSenderWithHooks ::
    "externals \<Rightarrow> (string \<Rightarrow> string option) \<Rightarrow> SinkConfig \<Rightarrow> duration \<Rightarrow> Hooks \<Rightarrow>
     string + WebhookSender \<times> SinkRegistration" where
  "NewWebhookSenderWithHooks x env sink timeout hooks =
     (case optionalSecret env (sc_AuthorizationEnv sink) of
        Inl err \<Rightarrow> Inl err
      | Inr authorization \<Rightarrow>
          if CHR 0x0D \<in> set authorization \<or> CHR 0x0A \<in> set authorization then
            Inl (''environment variable '' @ sc_AuthorizationEnv sink @
                 '' contains an invalid authorization header value'')
          else (case optionalSecret env (sc_SigningSecretEnv sink) of
                  Inl err \<Rightarrow> Inl err
                | Inr signingSecret \<Rightarrow>
                    Inr (\<lparr>wh_endpoint = sc_URL sink, wh_authorization = authorization,
                          wh_signingSecret = signingSecret, wh_timeout = timeout, wh_hooks = hooks\<rparr>,
                         \<lparr>sr_Name = sc_Name sink, sr_Type = sc_Type sink,
                          sr_ConfigSHA256 = Sum256 x (sc_Type sink @ [NUL] @ sc_URL sink)\<rparr>)))"

definition NewWebhookSender ::
    "externals \<Rightarrow> (string \<Rightarrow> string option) \<Rightarrow> SinkConfig \<Rightarrow> duration \<Rightarrow> string + WebhookSender \<times> SinkRegistration" where
  "NewWebhookSender x env sink timeout = NewWebhookSenderWithHooks x env sink timeout no_hooks"

definition deliveryKey :: "externals \<Rightarrow> Delivery \<Rightarrow> string" where
  "deliveryKey x item =
     EncodeToString (Sum256 x (dv_SinkName item @ [NUL] @ dv_Source item @ [NUL] @ dv_ID item))"

record http_request =
  rq_method :: string
  rq_url :: string
  rq_headers :: "(string \<times> string) list"
  rq_body :: bytes

text \<open>The request that \<open>Send\<close> builds, at a given Unix time.\<close>

definition webhook_request :: "externals \<Rightarrow> (bytes \<Rightarrow> bytes \<Rightarrow> digest) \<Rightarrow> WebhookSender \<Rightarrow> int \<Rightarrow> Delivery \<Rightarrow> http_request" where
  "webhook_request x hmac s unix item =
     \<lparr>rq_method = ''POST'', rq_url = wh_endpoint s,
      rq_headers =
        [(''Content-Type'', ''application/cloudevents+json''), (''User-Agent'', ''WriteRelay/1''),
         (''Idempotency-Key'', deliveryKey x item), (''X-WriteRelay-Attempt'', Itoa (i64 (dv_Attempts item + 1)))] @
        (if wh_authorization s \<noteq> [] then [(''Authorization'', wh_authorization s)] else []) @
        (if wh_signingSecret s \<noteq> []
         then [(''X-WriteRelay-Timestamp'', Itoa unix),
               (''X-WriteRelay-Signature'', ''v1='' @
                  EncodeToString (hmac (wh_signingSecret s) (Itoa unix @ ''.'' @ dv_Payload item)))]
         else []),
      rq_body = dv_Payload item\<rparr>"

definition parseRetryAfter :: "(string \<Rightarrow> time option) \<Rightarrow> time \<Rightarrow> string \<Rightarrow> duration" where
  "parseRetryAfter parseTime now v =
     (if v = [] then 0
      else (case ParseInt v of
              Some seconds \<Rightarrow>
                if seconds > 0 then
                  (if seconds > go_div max_int64 Second then max_int64 else i64 (seconds * Second))
                else 0
            | None \<Rightarrow>
                (case parseTime v of
                   None \<Rightarrow> 0
                 | Some at \<Rightarrow> (let delay = time_sub at now in if delay < 0 then 0 else delay))))"

datatype http_reply = NetworkError | Response int string

record http_env =
  he_construct_fails :: bool
  he_unix :: int
  he_reply :: "http_request \<Rightarrow> http_reply"
  he_expired :: bool
  he_parseTime :: "string \<Rightarrow> time option"
  he_now :: time

definition no_result :: AttemptResult where
  "no_result = \<lparr>ar_Success = False, ar_Retryable = False, ar_RetryAfter = 0, ar_StatusCode = 0, ar_Failure = []\<rparr>"

definition retryable_status :: "int \<Rightarrow> bool" where
  "retryable_status status \<longleftrightarrow> status = 408 \<or> status = 425 \<or> status = 429 \<or> status \<ge> 500"

definition webhook_result :: "http_env \<Rightarrow> http_reply \<Rightarrow> AttemptResult" where
  "webhook_result h reply =
     (case reply of
        NetworkError \<Rightarrow>
          no_result\<lparr>ar_Retryable := True,
            ar_Failure := (if he_expired h then ''webhook request timed out'' else ''webhook network request failed'')\<rparr>
      | Response status retryAfter \<Rightarrow>
          if status \<ge> 200 \<and> status < 300 then no_result\<lparr>ar_Success := True, ar_StatusCode := status\<rparr>
          else no_result\<lparr>ar_Retryable := retryable_status status,
                 ar_RetryAfter := parseRetryAfter (he_parseTime h) (he_now h) retryAfter,
                 ar_StatusCode := status, ar_Failure := ''webhook returned HTTP '' @ Itoa status\<rparr>)"

definition WebhookSender_Send ::
    "externals \<Rightarrow> (bytes \<Rightarrow> bytes \<Rightarrow> digest) \<Rightarrow> WebhookSender \<Rightarrow> http_env \<Rightarrow> Delivery \<Rightarrow>
     http_request option \<times> AttemptResult option" where
  "WebhookSender_Send x hmac s h item =
     (if he_construct_fails h then (None, Some (no_result\<lparr>ar_Failure := ''construct webhook request''\<rparr>))
      else if CallBeforeSinkRequest (wh_hooks s) then (None, None)
      else (let request = webhook_request x hmac s (he_unix h) item in
            (Some request, Some (webhook_result h (he_reply h request)))))"

section \<open>Standard output\<close>

definition NewStdoutSink :: "externals \<Rightarrow> string \<Rightarrow> SinkRegistration" where
  "NewStdoutSink x name = \<lparr>sr_Name = name, sr_Type = ''stdout'', sr_ConfigSHA256 = Sum256 x ''stdout''\<rparr>"

definition StdoutSink_Send :: "(bytes \<Rightarrow> bool) \<Rightarrow> Delivery \<Rightarrow> bytes \<times> AttemptResult" where
  "StdoutSink_Send write_fails item =
     (let line = dv_Payload item @ [CHR 0x0A] in
      (line, if write_fails line then no_result\<lparr>ar_Retryable := True, ar_Failure := ''write stdout delivery failed''\<rparr>
             else no_result\<lparr>ar_Success := True\<rparr>))"

section \<open>Properties\<close>

text \<open>A numeric \<open>Retry-After\<close> header of n seconds asks for exactly n seconds, at least 0, and
  saturates at the largest duration instead of overflowing. Whatever the header holds, the
  delay is a duration that is not negative.\<close>

theorem parseRetryAfter_saturates:
  "parseRetryAfter parseTime now v \<in> {0..max_int64} \<and>
   (\<forall>n. ParseInt v = Some n \<longrightarrow>
      parseRetryAfter parseTime now v = (if max 0 n > max_int64 div Second then max_int64 else max 0 n * Second))"
proof -
  have q: "go_div 9223372036854775807 1000000000 = 9223372036"
    by (simp add: go_div_def)
  have nonempty: "ParseInt v = Some n \<Longrightarrow> v \<noteq> []" for n
    by (auto simp: ParseInt_def ParseUint_def)
  have m: "i64 (n * Second) = n * Second" if "0 \<le> n" "n \<le> max_int64 div Second" for n
    using that by (intro i64_in_range) (auto simp: min_int64_def max_int64_def duration_defs)
  have "ParseInt v = Some n \<Longrightarrow>
      parseRetryAfter parseTime now v = (if max 0 n > max_int64 div Second then max_int64 else max 0 n * Second)" for n
    using m [of n] nonempty [of n] by (auto simp: parseRetryAfter_def q max_int64_def duration_defs)
  moreover have "parseRetryAfter parseTime now v \<in> {0..max_int64}"
    using m by (auto simp: parseRetryAfter_def q Let_def time_sub_def max_int64_def min_int64_def duration_defs
        split: option.splits)
  ultimately show ?thesis by blast
qed

text \<open>What \<open>Send\<close> reports is a total function of the reply: success for a status in 200..299;
  otherwise a failure, which is retryable for network errors, 408, 425, 429 and every status
  from 500 on, and permanent for all other statuses, redirects included.\<close>

theorem webhook_classification:
  "(ar_Success (webhook_result h reply) \<longleftrightarrow> (\<exists>status retryAfter. reply = Response status retryAfter \<and> status div 100 = 2)) \<and>
   (ar_Retryable (webhook_result h reply) \<longleftrightarrow>
      (case reply of NetworkError \<Rightarrow> True
       | Response status _ \<Rightarrow> status \<in> {408, 425, 429} \<or> status div 100 \<ge> 5)) \<and>
   0 \<le> ar_RetryAfter (webhook_result h reply)"
proof -
  have two: "(200 \<le> s \<and> s < 300) = (s div 100 = 2)" "(500 \<le> s) = (5 \<le> s div 100)" for s :: int by auto
  have "0 \<le> parseRetryAfter p n v" for p n v
    by (auto simp: parseRetryAfter_def Let_def i64_def go_div_def max_int64_def duration_defs split: option.splits)
  then show ?thesis
    by (cases reply) (auto simp: webhook_result_def no_result_def retryable_status_def two)
qed
theorem parseRetryAfter_saturates_witness: "parseRetryAfter (\<lambda>_. None) 0 ''120'' = 120 * Second"
proof -
  have "ParseInt ''120'' = Some 120" by (simp add: ParseInt_def ParseUint_def char_digit_def)
  then show ?thesis
    using parseRetryAfter_saturates [of "\<lambda>_. None" 0 "''120''"] by (simp add: max_int64_def duration_defs)
qed

lemma split_at_NUL:
  assumes "xs @ NUL # zs = ys @ NUL # us" and "NUL \<notin> set xs" and "NUL \<notin> set ys"
  shows "xs = ys \<and> zs = us"
  using assms
proof (induction xs arbitrary: ys)
  case Nil
  then show ?case by (cases ys) auto
next
  case (Cons x xs)
  then show ?case by (cases ys) auto
qed

abbreviation delivery_identity :: "Delivery \<Rightarrow> string \<times> string \<times> string" where
  "delivery_identity item \<equiv> (dv_SinkName item, dv_Source item, dv_ID item)"

definition key_input :: "Delivery \<Rightarrow> bytes" where
  "key_input item = dv_SinkName item @ [NUL] @ dv_Source item @ [NUL] @ dv_ID item"

text \<open>The idempotency key names the delivery: it is the same for every attempt of a delivery,
  and two deliveries have the same key only when sink, source and event id agree, provided that
  the names contain no NUL byte and SHA-256 does not collide on the two inputs. It is always 64
  lower-case hexadecimal digits.\<close>

theorem deliveryKey_identifies:
  assumes "\<forall>item \<in> {a, b}. NUL \<notin> set (dv_SinkName item) \<and> NUL \<notin> set (dv_Source item)"
    and "Sum256 x (key_input a) = Sum256 x (key_input b) \<longrightarrow> key_input a = key_input b"
  shows "(deliveryKey x a = deliveryKey x b \<longleftrightarrow> delivery_identity a = delivery_identity b) \<and>
    length (deliveryKey x a) = 64 \<and> list_all is_hex (deliveryKey x a)"
proof -
  have id: "delivery_identity a = delivery_identity b" if e: "key_input a = key_input b"
  proof -
    have 1: "dv_SinkName a = dv_SinkName b \<and> dv_Source a @ NUL # dv_ID a = dv_Source b @ NUL # dv_ID b"
      by (rule split_at_NUL) (use e assms(1) in \<open>simp_all add: key_input_def\<close>)
    have "dv_Source a = dv_Source b \<and> dv_ID a = dv_ID b"
      by (rule split_at_NUL) (use 1 assms(1) in simp_all)
    with 1 show ?thesis by simp
  qed
  have key: "deliveryKey x i = EncodeToString (Sum256 x (key_input i))" for i
    by (simp add: deliveryKey_def key_input_def)
  have "key_input a = key_input b" if "delivery_identity a = delivery_identity b"
    using that by (simp add: key_input_def)
  then have "deliveryKey x a = deliveryKey x b \<longleftrightarrow> delivery_identity a = delivery_identity b"
    using id assms(2) unfolding key EncodeToString_inj by metis
  then show ?thesis unfolding key using EncodeToString_shape by simp
qed

text \<open>The request for a delivery carries its payload unchanged, a key that does not depend on the
  attempt, and, when a secret is set, a signature over timestamp and body.\<close>

lemma webhook_request_content:
  "rq_body (webhook_request x hmac s unix item) = dv_Payload item"
  "map_of (rq_headers (webhook_request x hmac s unix item)) ''Idempotency-Key'' = Some (deliveryKey x item)"
  "wh_signingSecret s \<noteq> [] \<Longrightarrow>
     map_of (rq_headers (webhook_request x hmac s unix item)) ''X-WriteRelay-Signature'' =
       Some (''v1='' @ EncodeToString (hmac (wh_signingSecret s) (Itoa unix @ ''.'' @ dv_Payload item)))"
  by (simp_all add: webhook_request_def)

text \<open>A webhook as a sink of the worker.\<close>

definition webhook_sink ::
    "externals \<Rightarrow> (bytes \<Rightarrow> bytes \<Rightarrow> digest) \<Rightarrow> http_env \<Rightarrow> WebhookSender \<Rightarrow> Delivery \<Rightarrow> AttemptResult option" where
  "webhook_sink x hmac h s item = snd (WebhookSender_Send x hmac s h item)"

lemma webhook_sink_success:
  assumes "webhook_sink x hmac h s item = Some result" and "ar_Success result"
  shows "\<exists>request status retryAfter. WebhookSender_Send x hmac s h item = (Some request, Some result) \<and>
    request = webhook_request x hmac s (he_unix h) item \<and> he_reply h request = Response status retryAfter \<and>
    200 \<le> status \<and> status < 300"
  using assms
  by (auto simp: webhook_sink_def WebhookSender_Send_def webhook_result_def no_result_def Let_def
      split: if_splits http_reply.splits)

text \<open>A sender is built only when its secrets can be read and its authorization value cannot
  inject a header; the registration's fingerprint depends on type and URL only, so that rotating
  secrets keeps the sink and changing the target does not.\<close>

theorem NewWebhookSender_registration:
  assumes "NewWebhookSenderWithHooks x env sink timeout hooks = Inr (s, reg)"
  shows "CHR 0x0D \<notin> set (wh_authorization s) \<and> CHR 0x0A \<notin> set (wh_authorization s) \<and>
    (sc_SigningSecretEnv sink \<noteq> [] \<longrightarrow> wh_signingSecret s \<noteq> [] \<and> env (sc_SigningSecretEnv sink) = Some (wh_signingSecret s)) \<and>
    (sc_AuthorizationEnv sink \<noteq> [] \<longrightarrow> wh_authorization s \<noteq> []) \<and>
    wh_endpoint s = sc_URL sink \<and>
    reg = \<lparr>sr_Name = sc_Name sink, sr_Type = sc_Type sink,
           sr_ConfigSHA256 = Sum256 x (sc_Type sink @ [NUL] @ sc_URL sink)\<rparr>"
  using assms
  by (auto simp: NewWebhookSenderWithHooks_def optionalSecret_def split: sum.splits if_splits option.splits)

section \<open>Examples\<close>

definition example_delivery :: "string \<Rightarrow> Delivery" where
  "example_delivery i = \<lparr>dv_EventSequence = 1, dv_SinkID = 1, dv_SinkName = ''orders'', dv_SinkType = ''webhook'',
     dv_Source = ''urn:billing'', dv_ID = i, dv_Type = ''order.paid'', dv_Subject = ''order-1'',
     dv_Payload = ''{}'', dv_Attempts = 0\<rparr>"

theorem deliveryKey_identifies_witness:
  "deliveryKey (example_externals\<lparr>Sum256 := \<lambda>b. of_nat (length b)\<rparr>) (example_delivery ''1'') \<noteq>
   deliveryKey (example_externals\<lparr>Sum256 := \<lambda>b. of_nat (length b)\<rparr>) (example_delivery ''22'')"
  using deliveryKey_identifies [of "example_delivery ''1''" "example_delivery ''22''" "example_externals\<lparr>Sum256 := \<lambda>b. of_nat (length b)\<rparr>"]
  by (simp add: example_delivery_def key_input_def NUL_def)

theorem NewWebhookSender_registration_witness:
  "\<exists>s reg. NewWebhookSenderWithHooks example_externals (\<lambda>_. Some ''secret'') orders_config Second no_hooks = Inr (s, reg) \<and>
     wh_signingSecret s = ''secret''"
proof -
  obtain s reg where r: "NewWebhookSenderWithHooks example_externals (\<lambda>_. Some ''secret'') orders_config Second no_hooks = Inr (s, reg)"
    by (simp add: NewWebhookSenderWithHooks_def optionalSecret_def orders_config_def)
  from NewWebhookSender_registration [OF r] have "wh_signingSecret s = ''secret''" by (simp add: orders_config_def)
  with r show ?thesis by blast
qed

end
