(* ===== verification/Go_Time.thy ===== *)
theory Go_Time
  imports Go_Strconv "HOL-Library.Code_Target_Nat" "HOL-Library.Monad_Syntax"
begin

text \<open>
  Timestamps as text. Go's \<open>time.Format\<close> prints an instant in the proleptic Gregorian calendar;
  the spool stores two layouts, \<open>timestampFormat\<close> with nine digits of fraction and
  \<open>time.RFC3339Nano\<close>, which drops trailing zeros. SQLite compares such columns byte by byte, so
  whether the order of the texts is the order of the instants matters.
\<close>

section \<open>The calendar\<close>

definition leap_year :: "nat \<Rightarrow> bool" where
  "leap_year y \<longleftrightarrow> y mod 4 = 0 \<and> (y mod 100 \<noteq> 0 \<or> y mod 400 = 0)"

definition month_lengths :: "nat \<Rightarrow> nat list" where
  "month_lengths y = [31, if leap_year y then 29 else 28, 31, 30, 31, 30, 31, 31, 30, 31, 30, 31]"

definition year_days :: "nat \<Rightarrow> nat" where
  "year_days y = (if leap_year y then 366 else 365)"

text \<open>Year and day of the year, counted from a first of January; then month and day, from 0.\<close>

function civil_year :: "nat \<Rightarrow> nat \<Rightarrow> nat \<times> nat" where
  "civil_year y n = (if n < year_days y then (y, n) else civil_year (Suc y) (n - year_days y))"
  by pat_completeness auto

termination
  by (relation "measure snd") (auto simp: year_days_def)

declare civil_year.simps [simp del]

fun split_days :: "nat list \<Rightarrow> nat \<Rightarrow> nat \<times> nat" where
  "split_days [] n = (0, n)"
| "split_days (l # ls) n = (if n < l then (0, n) else (case split_days ls (n - l) of (i, r) \<Rightarrow> (Suc i, r)))"

text \<open>The calendar repeats after 400 years, which have 146097 days.\<close>

definition cycle_days :: nat where
  "cycle_days = 146097"

definition year_and_day :: "nat \<Rightarrow> nat \<times> nat" where
  "year_and_day n = civil_year (400 * (n div cycle_days)) (n mod cycle_days)"

definition civil_date :: "nat \<Rightarrow> nat \<times> nat \<times> nat" where
  "civil_date n = (case year_and_day n of (y, r) \<Rightarrow> (y, split_days (month_lengths y) r))"

text \<open>Nanoseconds since the first of January of the year 0.\<close>

definition year_zero :: time where
  "year_zero = - 62167219200000000000"

definition since_year_zero :: "time \<Rightarrow> nat" where
  "since_year_zero t = nat (t - year_zero)"

text \<open>Date, hour, minute and second of a number of seconds.\<close>

definition second_fields :: "nat \<Rightarrow> (nat \<times> nat \<times> nat) \<times> nat \<times> nat \<times> nat" where
  "second_fields s = (civil_date (s div 86400), s mod 86400 div 3600, s mod 86400 mod 3600 div 60, s mod 86400 mod 3600 mod 60)"

definition whole_seconds :: "time \<Rightarrow> nat" where
  "whole_seconds t = since_year_zero t div 1000000000"

definition fraction :: "time \<Rightarrow> nat" where
  "fraction t = since_year_zero t mod 1000000000"

section \<open>Layouts\<close>

fun pad :: "nat \<Rightarrow> nat \<Rightarrow> string" where
  "pad 0 n = []"
| "pad (Suc k) n = pad k (n div 10) @ [digit_char (n mod 10)]"

definition date_time :: "time \<Rightarrow> string" where
  "date_time t =
     (case second_fields (whole_seconds t) of ((y, m, d), h, mi, s) \<Rightarrow>
        pad 4 y @ ''-'' @ pad 2 (m + 1) @ ''-'' @ pad 2 (d + 1) @ ''T'' @ pad 2 h @ '':'' @ pad 2 mi @ '':'' @ pad 2 s)"

definition formatTimestamp :: "time \<Rightarrow> string" where
  "formatTimestamp t = date_time t @ ''.'' @ pad 9 (fraction t) @ ''Z''"

definition trim_zeros :: "string \<Rightarrow> string" where
  "trim_zeros s = rev (dropWhile (\<lambda>c. c = CHR ''0'') (rev s))"

definition format_RFC3339Nano :: "time \<Rightarrow> string" where
  "format_RFC3339Nano t =
     date_time t @ (let f = trim_zeros (pad 9 (fraction t)) in if f = [] then [] else ''.'' @ f) @ ''Z''"

text \<open>How SQLite compares text columns.\<close>

fun text_less :: "string \<Rightarrow> string \<Rightarrow> bool" where
  "text_less [] ys = (ys \<noteq> [])"
| "text_less (x # xs) [] = False"
| "text_less (x # xs) (y # ys) =
     ((of_char x :: nat) < of_char y \<or> x = y \<and> text_less xs ys)"

section \<open>Parsing\<close>

text \<open>
  \<open>time.Parse\<close> with the layout \<open>time.RFC3339Nano\<close>: first the parser for well-formed RFC 3339, which
  checks every field against its range, takes at most nine digits of a fraction and reads \<open>Z\<close> or
  a numeric offset; what it does not accept goes to the general parser, the argument \<open>general\<close>.
\<close>

definition parse_field :: "nat \<Rightarrow> nat \<Rightarrow> nat \<Rightarrow> nat \<Rightarrow> string \<Rightarrow> nat option" where
  "parse_field i k lo hi s =
     (case parse_decimal (take k (drop i s)) 0 of
        None \<Rightarrow> None
      | Some n \<Rightarrow> if n < lo \<or> hi < n then None else Some n)"

definition civil_days :: "nat \<Rightarrow> nat \<Rightarrow> nat \<Rightarrow> nat" where
  "civil_days y m d = (\<Sum>i<y. year_days i) + sum_list (take m (month_lengths y)) + d"

definition parse_date_time :: "string \<Rightarrow> nat option" where
  "parse_date_time s =
     (if length s < 19 then None
      else do {
        y \<leftarrow> parse_field 0 4 0 9999 s;
        m \<leftarrow> parse_field 5 2 1 12 s;
        d \<leftarrow> parse_field 8 2 1 (month_lengths y ! (m - 1)) s;
        h \<leftarrow> parse_field 11 2 0 23 s;
        mi \<leftarrow> parse_field 14 2 0 59 s;
        sec \<leftarrow> parse_field 17 2 0 59 s;
        (if s ! 4 = CHR ''-'' \<and> s ! 7 = CHR ''-'' \<and> s ! 10 = CHR ''T'' \<and> s ! 13 = CHR '':'' \<and> s ! 16 = CHR '':''
         then Some (civil_days y (m - 1) (d - 1) * 86400 + h * 3600 + mi * 60 + sec) else None)
      })"

definition parse_nanoseconds :: "string \<Rightarrow> nat" where
  "parse_nanoseconds ds = the (parse_decimal (take 9 (ds @ replicate 9 CHR ''0'')) 0)"

definition parse_fraction :: "string \<Rightarrow> nat \<times> string" where
  "parse_fraction s =
     (let ds = takeWhile (\<lambda>c. char_digit c \<noteq> None) (tl s) in
      if s \<noteq> [] \<and> hd s = CHR ''.'' \<and> ds \<noteq> [] then (parse_nanoseconds ds, drop (length ds) (tl s)) else (0, s))"

definition parse_zone :: "string \<Rightarrow> int option" where
  "parse_zone s =
     (if s = ''Z'' then Some 0
      else if length s \<noteq> 6 then None
      else do {
        h \<leftarrow> parse_field 1 2 0 23 s;
        m \<leftarrow> parse_field 4 2 0 59 s;
        (if (s ! 0 = CHR ''-'' \<or> s ! 0 = CHR ''+'') \<and> s ! 3 = CHR '':''
         then Some ((if s ! 0 = CHR ''-'' then - 1 else 1) * int ((h * 60 + m) * 60)) else None)
      })"

definition parseRFC3339 :: "string \<Rightarrow> time option" where
  "parseRFC3339 s = do {
     seconds \<leftarrow> parse_date_time s;
     (case parse_fraction (drop 19 s) of (nsec, rest) \<Rightarrow> do {
        offset \<leftarrow> parse_zone rest;
        Some ((int seconds - offset) * Second + int nsec + year_zero)
      })
   }"

definition time_Parse :: "(string \<Rightarrow> time option) \<Rightarrow> string \<Rightarrow> time option" where
  "time_Parse general s = (case parseRFC3339 s of Some t \<Rightarrow> Some t | None \<Rightarrow> general s)"

text \<open>A text column that may be \<open>NULL\<close>.\<close>

definition nullableTime :: "(string \<Rightarrow> time option) \<Rightarrow> string option \<Rightarrow> string + time option" where
  "nullableTime general value =
     (case value of
        None \<Rightarrow> Inr None
      | Some s \<Rightarrow> (case time_Parse general s of None \<Rightarrow> Inl ''parse time'' | Some t \<Rightarrow> Inr (Some t)))"

section \<open>Order of fields\<close>

lemma divmod_mono: "(a :: nat) < b \<Longrightarrow> (a div k, a mod k) < (b div k, b mod k)"
proof -
  assume "a < b"
  then have "a div k < b div k \<or> a div k = b div k \<and> a mod k < b mod k"
    by (metis div_le_mono div_mult_mod_eq le_neq_implies_less less_imp_le nat_add_left_cancel_less)
  then show ?thesis by (simp add: less_prod_def')
qed

lemma civil_year_bounds: "civil_year y n = (y', r) \<Longrightarrow> r < year_days y' \<and> y \<le> y'"
proof (induction y n rule: civil_year.induct)
  case (1 y n)
  then show ?case by (subst (asm) (2) civil_year.simps) (fastforce split: if_splits)
qed

lemma civil_year_mono: "n < m \<Longrightarrow> civil_year y n < civil_year y m"
proof (induction y n arbitrary: m rule: civil_year.induct)
  case (1 y n)
  show ?case
  proof (cases "n < year_days y")
    case True
    have "y < fst (civil_year (Suc y) (m - year_days y))"
      using civil_year_bounds [of "Suc y" "m - year_days y"] by (metis Suc_le_lessD prod.collapse)
    then show ?thesis
      using True 1(2) by (subst (1 2) civil_year.simps) (auto simp: less_prod_def' split: prod.splits)
  next
    case False
    then show ?thesis
      using 1(1) [OF False, of "m - year_days y"] 1(2) by (subst (1 2) civil_year.simps) auto
  qed
qed

lemma civil_year_less: "n < (\<Sum>i<k. year_days (y + i)) \<Longrightarrow> fst (civil_year y n) < y + k"
proof (induction k arbitrary: y n)
  case (Suc k)
  have "(\<Sum>i<Suc k. year_days (y + i)) = year_days y + (\<Sum>i<k. year_days (Suc y + i))"
    by (subst sum.lessThan_Suc_shift) simp
  then show ?case using Suc.IH [of "n - year_days y" "Suc y"] Suc.prems by (subst civil_year.simps) auto
qed simp

lemma cycle_sum: "(\<Sum>i<400. year_days (400 * q + i)) = cycle_days"
proof -
  have "year_days (400 * q + i) = year_days i" for i
  proof -
    have "(400 * q + i) mod 4 = i mod 4" "(400 * q + i) mod 100 = i mod 100" "(400 * q + i) mod 400 = i mod 400"
      using mod_mult_self2 [of i 4 "100 * q"] mod_mult_self2 [of i 100 "4 * q"] by (simp_all add: add.commute)
    then show ?thesis by (simp add: year_days_def leap_year_def)
  qed
  moreover have "(\<Sum>i<400. year_days i) = cycle_days" by code_simp
  ultimately show ?thesis by simp
qed

lemma year_and_day_mono:
  assumes "n < m"
  shows "year_and_day n < year_and_day m"
proof -
  consider "n div cycle_days < m div cycle_days"
    | "n div cycle_days = m div cycle_days" "n mod cycle_days < m mod cycle_days"
    using divmod_mono [OF assms, of cycle_days] by (auto simp: less_prod_def')
  then show ?thesis
  proof cases
    case 1
    have "fst (year_and_day n) < 400 * (n div cycle_days) + 400"
      unfolding year_and_day_def by (rule civil_year_less) (simp add: cycle_sum, simp add: cycle_days_def)
    also have "\<dots> \<le> 400 * (m div cycle_days)" using 1 by simp
    also have "\<dots> \<le> fst (year_and_day m)"
      unfolding year_and_day_def using civil_year_bounds by (metis prod.collapse)
    finally show ?thesis by (simp add: less_prod_def')
  next
    case 2
    then show ?thesis using civil_year_mono by (simp add: year_and_day_def)
  qed
qed

lemma split_days_mono: "n < m \<Longrightarrow> split_days ls n < split_days ls m"
proof (induction ls arbitrary: n m)
  case (Cons l ls)
  show ?case
  proof (cases "n < l")
    case True
    then show ?thesis using Cons.prems by (auto simp: less_prod_def' split: prod.splits)
  next
    case False
    then have "split_days ls (n - l) < split_days ls (m - l)" using Cons.IH Cons.prems by simp
    then show ?thesis using False Cons.prems by (auto simp: less_prod_def' split: prod.splits)
  qed
qed (simp add: less_prod_def')

lemma split_days_bounds: "n < sum_list ls \<Longrightarrow> fst (split_days ls n) < length ls \<and> snd (split_days ls n) < Max (set ls)"
proof (induction ls arbitrary: n)
  case (Cons l ls)
  show ?case
  proof (cases "n < l")
    case True
    then show ?thesis by (cases "ls = []") (auto simp: less_max_iff_disj)
  next
    case False
    then have "n - l < sum_list ls" using Cons.prems by simp
    with Cons.IH [OF this] False show ?thesis
      by (cases "ls = []") (auto simp: less_max_iff_disj split: prod.splits)
  qed
qed simp

lemma civil_date_mono: "n < m \<Longrightarrow> civil_date n < civil_date m"
proof -
  assume "n < m"
  obtain y r y' r' where c: "year_and_day n = (y, r)" "year_and_day m = (y', r')" by fastforce
  then have "y < y' \<or> y = y' \<and> r < r'" using year_and_day_mono [OF \<open>n < m\<close>] by (simp add: less_prod_def')
  then show ?thesis
    using c split_days_mono [of r r' "month_lengths y"] by (auto simp: civil_date_def less_prod_simp)
qed

lemma civil_date_bounds:
  assumes "civil_date n = (y, mo, d)"
  shows "mo < 12" "d < 31"
proof -
  obtain r where r: "year_and_day n = (y, r)" "split_days (month_lengths y) r = (mo, d)"
    using assms by (auto simp: civil_date_def split: prod.splits)
  have "sum_list (month_lengths y) = year_days y" "length (month_lengths y) = 12" "Max (set (month_lengths y)) = 31"
    by (simp_all add: month_lengths_def year_days_def)
  then show "mo < 12" "d < 31"
    using split_days_bounds [of r "month_lengths y"] civil_year_bounds [OF r(1) [unfolded year_and_day_def]] r(2) by auto
qed

section \<open>Order of texts\<close>

lemma text_less_append:
  "length a = length b \<Longrightarrow> text_less (a @ c) (b @ d) \<longleftrightarrow> text_less a b \<or> a = b \<and> text_less c d"
  by (induction a b rule: list_induct2) auto

lemma text_less_irrefl [simp]: "\<not> text_less a a"
  by (induction a) auto

lemma text_less_Nil [simp]: "\<not> text_less a []"
  by (cases a) auto

lemma text_less_asym: "text_less a b \<Longrightarrow> \<not> text_less b a"
  by (induction a b rule: text_less.induct) auto

lemma length_pad [simp]: "length (pad k n) = k"
  by (induction k arbitrary: n) auto

lemma digit_char_less:
  "a < 10 \<Longrightarrow> b < 10 \<Longrightarrow> (of_char (digit_char a) :: nat) < of_char (digit_char b) \<longleftrightarrow> a < b"
  by (simp add: digit_char_def)

lemma pad_less: "n < 10 ^ k \<Longrightarrow> m < 10 ^ k \<Longrightarrow> n < m \<Longrightarrow> text_less (pad k n) (pad k m)"
proof (induction k arbitrary: n m)
  case (Suc k)
  have "n div 10 < 10 ^ k" "m div 10 < 10 ^ k" using Suc.prems by (auto simp: div_less_iff_less_mult mult.commute)
  moreover have "n div 10 < m div 10 \<or> n div 10 = m div 10 \<and> n mod 10 < m mod 10"
    using divmod_mono [OF Suc.prems(3), of 10] by (simp add: less_prod_def')
  ultimately show ?case
    using Suc.IH [of "n div 10" "m div 10"] by (auto simp: text_less_append digit_char_less)
qed simp

text \<open>Comparing a record of fixed-width fields.\<close>

lemma field_less:
  "n < 10 ^ k \<Longrightarrow> m < 10 ^ k \<Longrightarrow> n < m \<or> n = m \<and> text_less a b \<Longrightarrow> text_less (pad k n @ a) (pad k m @ b)"
  by (auto simp: text_less_append pad_less)

lemma text_less_Cons_same [simp]: "text_less (c # a) (c # b) \<longleftrightarrow> text_less a b"
  by simp

text \<open>The instants that the layouts can print: the years 0 to 9999.\<close>

definition year_of :: "time \<Rightarrow> nat" where
  "year_of t = fst (fst (second_fields (whole_seconds t)))"

definition printable :: "time \<Rightarrow> bool" where
  "printable t \<longleftrightarrow> year_zero \<le> t \<and> year_of t < 10000"

lemma second_fields_mono:
  assumes "s < u"
  shows "second_fields s < second_fields u"
proof -
  consider "s div 86400 < u div 86400" | "s div 86400 = u div 86400" "s mod 86400 < u mod 86400"
    using divmod_mono [OF assms, of 86400] by (auto simp: less_prod_def')
  then show ?thesis
  proof cases
    case 1
    then show ?thesis using civil_date_mono by (simp add: second_fields_def less_prod_simp)
  next
    case 2
    then show ?thesis
      using divmod_mono [OF 2(2), of 3600] divmod_mono [of "s mod 86400 mod 3600" "u mod 86400 mod 3600" 60]
      by (auto simp: second_fields_def less_prod_simp)
  qed
qed

lemma second_fields_bounds:
  assumes "second_fields n = ((y, mo, d), h, mi, s)"
  shows "mo < 99" "d < 99" "h < 100" "mi < 100" "s < 100"
proof -
  have "civil_date (n div 86400) = (y, mo, d)"
    and rest: "h = n mod 86400 div 3600" "mi = n mod 86400 mod 3600 div 60" "s = n mod 86400 mod 3600 mod 60"
    using assms by (auto simp: second_fields_def)
  then show "mo < 99" "d < 99" using civil_date_bounds by fastforce+
  have "n mod 86400 < 86400" "n mod 86400 mod 3600 < 3600" "s < 60" using rest by simp_all
  then show "h < 100" "mi < 100" "s < 100" unfolding rest(1,2) by (simp_all add: div_less_iff_less_mult)
qed

lemma date_time_mono:
  assumes "printable t" and "printable u" and "whole_seconds t < whole_seconds u"
  shows "text_less (date_time t) (date_time u)"
proof -
  obtain y mo d h mi s where t: "second_fields (whole_seconds t) = ((y, mo, d), h, mi, s)" by (metis prod.collapse)
  obtain y' mo' d' h' mi' s' where u: "second_fields (whole_seconds u) = ((y', mo', d'), h', mi', s')" by (metis prod.collapse)
  have less: "((y, mo, d), h, mi, s) < ((y', mo', d'), h', mi', s')"
    using second_fields_mono [OF assms(3)] t u by simp
  have y: "y < 10000" "y' < 10000" using assms(1,2) t u by (simp_all add: printable_def year_of_def)
  have last: "n < m \<Longrightarrow> n < 100 \<Longrightarrow> m < 100 \<Longrightarrow> text_less (pad 2 n) (pad 2 m)" for n m
    using pad_less [of n 2 m] by simp
  show ?thesis
    unfolding date_time_def t u prod.case append_assoc
    using less y second_fields_bounds [OF t] second_fields_bounds [OF u]
    by (auto simp: less_prod_simp intro!: field_less last simp del: pad.simps)
qed

lemma length_date_time [simp]: "length (date_time t) = 19"
  by (simp add: date_time_def split: prod.split)

lemma time_split: "year_zero \<le> t \<Longrightarrow> t = int (whole_seconds t) * 1000000000 + int (fraction t) + year_zero"
  by (simp add: whole_seconds_def fraction_def since_year_zero_def zdiv_int zmod_int)

lemma date_time_eq: "whole_seconds t = whole_seconds u \<Longrightarrow> date_time t = date_time u"
  by (simp add: date_time_def)

lemma formatTimestamp_mono:
  assumes "printable t" and "printable u" and "t < u"
  shows "text_less (formatTimestamp t) (formatTimestamp u)"
proof -
  have "whole_seconds t < whole_seconds u \<or> whole_seconds t = whole_seconds u \<and> fraction t < fraction u"
    using divmod_mono [of "since_year_zero t" "since_year_zero u" 1000000000] assms
    by (simp add: whole_seconds_def fraction_def since_year_zero_def printable_def less_prod_def')
  moreover have "fraction t < 10 ^ 9" "fraction u < 10 ^ 9" by (simp_all add: fraction_def)
  ultimately show ?thesis
    using date_time_mono [OF assms(1,2)] date_time_eq [of t u]
    by (auto simp: formatTimestamp_def text_less_append intro!: field_less pad_less simp del: pad.simps)
qed

section \<open>Properties\<close>

text \<open>The fixed-width layout sorts like time: for all instants of the years 0 to 9999 SQLite's
  comparison of two stored timestamps is the comparison of the instants, and different instants
  have different texts. So the due, backoff and retention conditions, which compare texts, mean
  what they say.\<close>

theorem formatTimestamp_order:
  assumes "printable t" and "printable u"
  shows "(text_less (formatTimestamp t) (formatTimestamp u) \<longleftrightarrow> t < u) \<and>
    (formatTimestamp t = formatTimestamp u \<longleftrightarrow> t = u)"
proof -
  have "text_less (formatTimestamp t) (formatTimestamp u)" if "t < u" using formatTimestamp_mono assms that by blast
  moreover have "text_less (formatTimestamp u) (formatTimestamp t)" if "u < t" using formatTimestamp_mono assms that by blast
  ultimately show ?thesis using text_less_asym text_less_irrefl by (metis linorder_less_linear)
qed

text \<open>With the other layout the order of texts is the order of time only up to a second: a text
  that is not greater belongs to an instant of the same or an earlier second.\<close>

lemma RFC3339Nano_order:
  assumes "printable t" and "printable u" and "\<not> text_less (format_RFC3339Nano u) (format_RFC3339Nano t)"
  shows "whole_seconds t \<le> whole_seconds u"
proof (rule ccontr)
  assume "\<not> whole_seconds t \<le> whole_seconds u"
  then have "text_less (date_time u) (date_time t)" using date_time_mono assms(1,2) by simp
  then show False using assms(3) by (simp add: format_RFC3339Nano_def text_less_append)
qed

lemma same_second: "year_zero \<le> t \<Longrightarrow> year_zero \<le> u \<Longrightarrow> whole_seconds t \<le> whole_seconds u \<Longrightarrow> t < u + Second"
  using time_split [of t] time_split [of u] by (simp add: duration_defs fraction_def)

definition example_instant :: time where
  "example_instant = 1792058645 * Second"

lemma example_printable: "printable example_instant" "printable (example_instant + 500000000)"
  by (simp_all add: printable_def year_of_def year_zero_def whole_seconds_def since_year_zero_def example_instant_def duration_defs
    second_fields_def civil_date_def year_and_day_def cycle_days_def civil_year.simps year_days_def leap_year_def)

theorem formatTimestamp_order_witness:
  "text_less (formatTimestamp example_instant) (formatTimestamp (example_instant + 500000000))"
  using formatTimestamp_order [OF example_printable] by simp

text \<open>Within a second the other layout misorders: any fraction sorts before the full second.\<close>

lemma pad_zeros: "(\<forall>c \<in> set (pad k n). c = CHR ''0'') \<longleftrightarrow> n mod 10 ^ k = 0"
proof (induction k arbitrary: n)
  case (Suc k)
  have "digit_char (n mod 10) = CHR ''0'' \<longleftrightarrow> of_char (digit_char (n mod 10)) = (of_char (CHR ''0'') :: nat)"
    by (simp only: of_char_eq_iff)
  then have "digit_char (n mod 10) = CHR ''0'' \<longleftrightarrow> n mod 10 = 0"
    by (simp add: digit_char_def)
  then show ?case using Suc.IH [of "n div 10"] by (simp add: mod_mult2_eq conj_commute)
qed simp

lemma trim_zeros_Nil: "trim_zeros s = [] \<longleftrightarrow> (\<forall>c \<in> set s. c = CHR ''0'')"
  by (simp add: trim_zeros_def)

lemma RFC3339Nano_misorders:
  assumes "whole_seconds u = whole_seconds t" and "fraction t = 0" and "fraction u \<noteq> 0"
  shows "text_less (format_RFC3339Nano u) (format_RFC3339Nano t)"
proof -
  have "fraction u mod 10 ^ 9 \<noteq> 0" using assms(3) by (simp add: fraction_def)
  then have "trim_zeros (pad 9 (fraction u)) \<noteq> []" unfolding trim_zeros_Nil pad_zeros .
  moreover have "trim_zeros (pad 9 (fraction t)) = []" unfolding trim_zeros_Nil pad_zeros assms(2) by simp
  moreover have "date_time u = date_time t" using assms(1) by (rule date_time_eq)
  ultimately show ?thesis by (simp add: format_RFC3339Nano_def text_less_append Let_def)
qed

lemma example_misordered:
  "text_less (format_RFC3339Nano (example_instant + 500000000)) (format_RFC3339Nano example_instant)"
  by (rule RFC3339Nano_misorders)
    (simp_all add: whole_seconds_def fraction_def since_year_zero_def example_instant_def year_zero_def duration_defs)

section \<open>Reading back\<close>

lemma parse_decimal_pad: "parse_decimal (pad k n @ s) acc = parse_decimal s (acc * 10 ^ k + n mod 10 ^ k)"
proof (induction k arbitrary: n s acc)
  case (Suc k)
  have "n mod (10 * 10 ^ k) = 10 * (n div 10 mod 10 ^ k) + n mod 10" by (rule mod_mult2_eq)
  then show ?case using Suc [of "n div 10" "digit_char (n mod 10) # s"] by (simp add: algebra_simps)
qed simp

lemma parse_pad: "n < 10 ^ k \<Longrightarrow> parse_decimal (pad k n) 0 = Some n"
  using parse_decimal_pad [of k n "[]" 0] by simp

lemma parse_field_pad:
  "n < 10 ^ k \<Longrightarrow> lo \<le> n \<Longrightarrow> n \<le> hi \<Longrightarrow> take k (drop i s) = pad k n \<Longrightarrow> parse_field i k lo hi s = Some n"
  by (simp add: parse_field_def parse_pad)

lemma civil_year_inverse: "civil_year y n = (y', r) \<Longrightarrow> (\<Sum>i<y'. year_days i) + r = (\<Sum>i<y. year_days i) + n"
proof (induction y n rule: civil_year.induct)
  case (1 y n)
  show ?case
  proof (cases "n < year_days y")
    case True
    then show ?thesis using 1(2) by (subst (asm) civil_year.simps) simp
  next
    case False
    then have "civil_year (Suc y) (n - year_days y) = (y', r)" using 1(2) by (subst (asm) civil_year.simps) simp
    from 1(1) [OF False this] show ?thesis using False by simp
  qed
qed

lemma cycle_years: "(\<Sum>i<400 * q. year_days i) = cycle_days * q"
proof (induction q)
  case (Suc q)
  have "(\<Sum>i<a + b. year_days i) = (\<Sum>i<a. year_days i) + (\<Sum>i<b. year_days (a + i))" for a b
    by (induction b) simp_all
  from this [of "400 * q" 400] show ?case using Suc cycle_sum [of q] by (simp add: algebra_simps)
qed simp

lemma split_days_inverse: "split_days ls n = (m, d) \<Longrightarrow> sum_list (take m ls) + d = n"
  by (induction ls n arbitrary: m d rule: split_days.induct) (fastforce split: if_splits prod.splits)+

lemma split_days_nth: "n < sum_list ls \<Longrightarrow> split_days ls n = (m, d) \<Longrightarrow> m < length ls \<and> d < ls ! m"
  by (induction ls n arbitrary: m d rule: split_days.induct) (fastforce split: if_splits prod.splits)+

lemma civil_date_inverse:
  assumes "civil_date n = (y, m, d)"
  shows "civil_days y m d = n" "d < month_lengths y ! m"
proof -
  obtain r where r: "civil_year (400 * (n div cycle_days)) (n mod cycle_days) = (y, r)" "split_days (month_lengths y) r = (m, d)"
    using assms by (auto simp: civil_date_def year_and_day_def split: prod.splits)
  have "(\<Sum>i<y. year_days i) + r = n" using civil_year_inverse [OF r(1)] cycle_years by simp
  then show "civil_days y m d = n" using split_days_inverse [OF r(2)] by (simp add: civil_days_def)
  have "sum_list (month_lengths y) = year_days y" by (simp add: month_lengths_def year_days_def)
  then show "d < month_lengths y ! m" using split_days_nth [OF _ r(2)] civil_year_bounds [OF r(1)] by simp
qed

lemma second_fields_inverse:
  assumes "second_fields n = ((y, m, d), h, mi, s)"
  shows "civil_days y m d * 86400 + h * 3600 + mi * 60 + s = n" "h \<le> 23" "mi \<le> 59" "s \<le> 59"
    "m < 12" "d < month_lengths y ! m" "d < 31"
proof -
  have date: "civil_date (n div 86400) = (y, m, d)"
    and rest: "h = n mod 86400 div 3600" "mi = n mod 86400 mod 3600 div 60" "s = n mod 86400 mod 3600 mod 60"
    using assms by (auto simp: second_fields_def)
  have "h * 3600 + mi * 60 + s = n mod 86400"
    using div_mult_mod_eq [of "n mod 86400" 3600] div_mult_mod_eq [of "n mod 86400 mod 3600" 60] unfolding rest by linarith
  then show "civil_days y m d * 86400 + h * 3600 + mi * 60 + s = n"
    using civil_date_inverse(1) [OF date] div_mult_mod_eq [of n 86400] by linarith
  have "n mod 86400 < 24 * 3600" "n mod 86400 mod 3600 < 60 * 60" by simp_all
  then have "h < 24" "mi < 60" "s < 60" unfolding rest by (simp_all only: div_less_iff_less_mult zero_less_numeral mod_less_divisor)
  then show "h \<le> 23" "mi \<le> 59" "s \<le> 59" by simp_all
  show "m < 12" "d < month_lengths y ! m" "d < 31"
    using civil_date_inverse(2) [OF date] civil_date_bounds [OF date] by simp_all
qed

lemma layout_parts:
  assumes "length Y = 4" "length M = 2" "length D = 2" "length H = 2" "length I = 2" "length S = 2"
    and "s = Y @ ''-'' @ M @ ''-'' @ D @ ''T'' @ H @ '':'' @ I @ '':'' @ S @ rest"
  shows "take 4 (drop 0 s) = Y" "take 2 (drop 5 s) = M" "take 2 (drop 8 s) = D"
    "take 2 (drop 11 s) = H" "take 2 (drop 14 s) = I" "take 2 (drop 17 s) = S" "drop 19 s = rest"
    "s ! 4 = CHR ''-''" "s ! 7 = CHR ''-''" "s ! 10 = CHR ''T''" "s ! 13 = CHR '':''" "s ! 16 = CHR '':''"
  using assms by (simp_all add: nth_append nth_Cons')

lemma parse_date_time_date_time:
  assumes "printable t"
  shows "parse_date_time (date_time t @ rest) = Some (whole_seconds t)"
proof -
  obtain y m d h mi s where f: "second_fields (whole_seconds t) = ((y, m, d), h, mi, s)" by (metis prod.collapse)
  note b = second_fields_inverse [OF f]
  have y: "y < 10000" using assms f by (simp add: printable_def year_of_def)
  let ?s = "date_time t @ rest"
  have s: "?s = pad 4 y @ ''-'' @ pad 2 (m + 1) @ ''-'' @ pad 2 (d + 1) @ ''T'' @ pad 2 h @ '':'' @ pad 2 mi @ '':'' @ pad 2 s @ rest"
    by (simp add: date_time_def f del: pad.simps)
  note parts = layout_parts [OF length_pad length_pad length_pad length_pad length_pad length_pad s]
  have "parse_field 0 4 0 9999 ?s = Some y" by (rule parse_field_pad) (use y parts(1) in simp_all)
  moreover have "parse_field 5 2 1 12 ?s = Some (m + 1)" by (rule parse_field_pad) (use b(5) parts(2) in simp_all)
  moreover have "parse_field 8 2 1 (month_lengths y ! m) ?s = Some (d + 1)"
    by (rule parse_field_pad) (use b(6,7) parts(3) in simp_all)
  moreover have "parse_field 11 2 0 23 ?s = Some h" by (rule parse_field_pad) (use b(2) parts(4) in simp_all)
  moreover have "parse_field 14 2 0 59 ?s = Some mi" by (rule parse_field_pad) (use b(3) parts(5) in simp_all)
  moreover have "parse_field 17 2 0 59 ?s = Some s" by (rule parse_field_pad) (use b(4) parts(6) in simp_all)
  ultimately show ?thesis
    using b(1) parts(8-12) unfolding parse_date_time_def by (simp del: One_nat_def)
qed

lemma pad_digits: "\<forall>c \<in> set (pad k n). char_digit c \<noteq> None"
  by (induction k arbitrary: n) auto

lemma trim_zeros_append: "\<exists>j. s = trim_zeros s @ replicate j CHR ''0''"
proof -
  have "rev s = takeWhile (\<lambda>c. c = CHR ''0'') (rev s) @ dropWhile (\<lambda>c. c = CHR ''0'') (rev s)" by simp
  then have "s = trim_zeros s @ rev (takeWhile (\<lambda>c. c = CHR ''0'') (rev s))"
    unfolding trim_zeros_def by (metis rev_append rev_rev_ident)
  moreover have "takeWhile (\<lambda>c. c = CHR ''0'') (rev s) = replicate (length (takeWhile (\<lambda>c. c = CHR ''0'') (rev s))) CHR ''0''"
    by (rule replicate_eqI) (auto dest: set_takeWhileD)
  ultimately show ?thesis by (metis rev_replicate)
qed

lemma parse_nanoseconds_pad:
  assumes "n < 10 ^ 9" and "pad 9 n = ds @ replicate j CHR ''0''"
  shows "parse_nanoseconds ds = n"
proof -
  have j: "length ds + j = 9" using arg_cong [OF assms(2), of length] by simp
  then have "take 9 (ds @ replicate 9 CHR ''0'') = ds @ replicate j CHR ''0''" by (simp add: min_def)
  then show ?thesis using parse_pad [OF assms(1)] assms(2) by (simp add: parse_nanoseconds_def)
qed

lemma parse_fraction_digits:
  assumes "ds \<noteq> []" and "\<forall>c \<in> set ds. char_digit c \<noteq> None"
  shows "parse_fraction (CHR ''.'' # ds @ ''Z'') = (parse_nanoseconds ds, ''Z'')"
proof -
  have "takeWhile (\<lambda>c. char_digit c \<noteq> None) (ds @ ''Z'') = ds"
    using assms(2) by (simp add: takeWhile_append2 char_digit_def)
  then show ?thesis using assms(1) by (simp add: parse_fraction_def)
qed

lemma parseRFC3339_layout:
  assumes "printable t" and "pad 9 (fraction t) = ds @ replicate j CHR ''0''"
  shows "parseRFC3339 (date_time t @ (if ds = [] then [] else ''.'' @ ds) @ ''Z'') = Some t"
proof -
  have f: "fraction t < 10 ^ 9" by (simp add: fraction_def)
  have digits: "\<forall>c \<in> set ds. char_digit c \<noteq> None" using pad_digits [of 9 "fraction t"] unfolding assms(2) by auto
  have "parse_fraction ((if ds = [] then [] else ''.'' @ ds) @ ''Z'') = (fraction t, ''Z'')"
  proof (cases "ds = []")
    case True
    have "parse_nanoseconds [] = fraction t" using parse_nanoseconds_pad [OF f] assms(2) True by blast
    moreover have "parse_nanoseconds [] = 0" by (simp add: parse_nanoseconds_def char_digit_def numeral_eq_Suc)
    ultimately show ?thesis using True by (simp add: parse_fraction_def)
  next
    case False
    then show ?thesis using parse_fraction_digits [OF False digits] parse_nanoseconds_pad [OF f assms(2)] by simp
  qed
  moreover have "parse_zone ''Z'' = Some 0" by (simp add: parse_zone_def)
  moreover have "t = int (whole_seconds t) * Second + int (fraction t) + year_zero"
    using time_split [of t] assms(1) by (simp add: printable_def duration_defs)
  ultimately show ?thesis
    using parse_date_time_date_time [OF assms(1)] by (simp add: parseRFC3339_def)
qed

text \<open>What the spool writes it reads back: for every instant of the years 0 to 9999, parsing
  the text of either stored layout gives the instant, to the nanosecond.\<close>

theorem timestamps_roundtrip:
  assumes "printable t"
  shows "nullableTime general (Some (formatTimestamp t)) = Inr (Some t) \<and>
    nullableTime general (Some (format_RFC3339Nano t)) = Inr (Some t)"
proof -
  obtain j where j: "pad 9 (fraction t) = trim_zeros (pad 9 (fraction t)) @ replicate j CHR ''0''"
    using trim_zeros_append by blast
  have ne: "pad 9 (fraction t) \<noteq> []" using length_pad [of 9 "fraction t"] by (metis list.size(3) zero_neq_numeral)
  have "parseRFC3339 (formatTimestamp t) = Some t"
    using parseRFC3339_layout [OF assms, of "pad 9 (fraction t)" 0] ne by (simp add: formatTimestamp_def)
  moreover have "parseRFC3339 (format_RFC3339Nano t) = Some t"
    using parseRFC3339_layout [OF assms j] by (simp add: format_RFC3339Nano_def Let_def)
  ultimately show ?thesis by (simp add: nullableTime_def time_Parse_def)
qed

theorem timestamps_roundtrip_witness:
  "nullableTime (\<lambda>_. None) (Some (formatTimestamp (example_instant + 500000000))) = Inr (Some (example_instant + 500000000))"
  using timestamps_roundtrip [OF example_printable(2)] by blast

end
