(* ===== verification/Store_Stats.thy ===== *)
theory Store_Stats
  imports Store_Prune Go_Time "HOL-Library.List_Lexorder" "HOL-Library.Char_ord"
begin

text \<open>
  The statistics snapshot of \<open>internal/spool/sqlite/stats.go\<close>: one read-only transaction that counts
  events and deliveries, per sink and in total, and finds the oldest waiting capture, followed by
  the sizes of the spool's files. Text columns are compared byte by byte, so the \<open>ORDER BY\<close> and the
  \<open>MIN\<close> of the query are the lexicographic ones. Counts are numbers of table rows. A failing
  call also returns what it has filled in so far, as the code does.
\<close>

section \<open>Definitions\<close>

record DeliveryCounts =
  ct_Total :: nat
  ct_Pending :: nat
  ct_RetryWait :: nat
  ct_Delivered :: nat
  ct_DeadLetter :: nat

record WaitingStats =
  wt_CapturedAt :: time
  wt_AgeSeconds :: int

record SinkStats =
  ss_Name :: string
  ss_Type :: string
  ss_Active :: bool
  ss_Deliveries :: DeliveryCounts
  ss_OldestWaiting :: "WaitingStats option"

record FileSizes =
  fs_DatabaseBytes :: int
  fs_WALBytes :: int
  fs_SHMBytes :: int
  fs_TotalBytes :: int

record Stats =
  sn_SampledAt :: time
  sn_EventCount :: nat
  sn_PrunedPayloads :: nat
  sn_LastDurableLSN :: string
  sn_Deliveries :: DeliveryCounts
  sn_OldestWaiting :: "WaitingStats option"
  sn_Storage :: FileSizes
  sn_Sinks :: "SinkStats list"

datatype stats_point =
    StatsAbsPath
  | StatsOpen
  | StatsBegin
  | StatsReadSchema
  | StatsCountEvents
  | StatsReadCheckpoint
  | StatsQuery
  | StatsScan nat
  | StatsRowsErr
  | StatsRowsClose
  | StatsCommit

text \<open>What \<open>os.Stat\<close> reports of a file: an error, or whether it is a regular file, with its size.\<close>

datatype file_stat = StatMissing | StatFailed | StatIrregular | StatRegular int

record stats_env =
  sz_now :: time
  sz_file :: file_kind
  sz_fails :: "stats_point \<Rightarrow> bool"
  sz_abs :: "string \<Rightarrow> string"
  sz_stat :: "string \<Rightarrow> file_stat"

definition no_counts :: DeliveryCounts where
  "no_counts = \<lparr>ct_Total = 0, ct_Pending = 0, ct_RetryWait = 0, ct_Delivered = 0, ct_DeadLetter = 0\<rparr>"

definition no_sizes :: FileSizes where
  "no_sizes = \<lparr>fs_DatabaseBytes = 0, fs_WALBytes = 0, fs_SHMBytes = 0, fs_TotalBytes = 0\<rparr>"

definition no_stats :: Stats where
  "no_stats = \<lparr>sn_SampledAt = zero_time, sn_EventCount = 0, sn_PrunedPayloads = 0, sn_LastDurableLSN = [],
     sn_Deliveries = no_counts, sn_OldestWaiting = None, sn_Storage = no_sizes, sn_Sinks = []\<rparr>"

text \<open>One row of the grouped query. A capture time is compared as the text it is stored as.\<close>

definition count_deliveries :: "delivery_row list \<Rightarrow> DeliveryCounts" where
  "count_deliveries ws =
     \<lparr>ct_Total = length ws, ct_Pending = count_where (\<lambda>w. dl_state w = Pending) ws,
      ct_RetryWait = count_where (\<lambda>w. dl_state w = RetryWait) ws,
      ct_Delivered = count_where (\<lambda>w. dl_state w = Delivered) ws,
      ct_DeadLetter = count_where (\<lambda>w. dl_state w = DeadLetter) ws\<rparr>"

definition captured_at :: "db \<Rightarrow> delivery_row \<Rightarrow> time option" where
  "captured_at d w = map_option ev_captured_at (List.find (\<lambda>r. ev_sequence r = dl_event w) (db_events d))"

definition waiting_captures :: "db \<Rightarrow> delivery_row list \<Rightarrow> time list" where
  "waiting_captures d ws = List.map_filter (captured_at d) (filter waiting ws)"

definition sink_deliveries :: "db \<Rightarrow> sink_row \<Rightarrow> delivery_row list" where
  "sink_deliveries d s = filter (\<lambda>w. dl_sink w = sk_id s) (db_deliveries d)"

definition waiting_stats :: "time \<Rightarrow> time \<Rightarrow> WaitingStats" where
  "waiting_stats sampled capturedAt =
     \<lparr>wt_CapturedAt = capturedAt, wt_AgeSeconds = max 0 (go_div (time_sub sampled capturedAt) Second)\<rparr>"

definition sink_stats :: "time \<Rightarrow> db \<Rightarrow> sink_row \<Rightarrow> SinkStats" where
  "sink_stats sampled d s =
     \<lparr>ss_Name = sk_name s, ss_Type = sk_type s, ss_Active = sk_active s,
      ss_Deliveries = count_deliveries (sink_deliveries d s),
      ss_OldestWaiting = map_option (waiting_stats sampled)
        (first_by format_RFC3339Nano (waiting_captures d (sink_deliveries d s)))\<rparr>"

definition add_counts :: "DeliveryCounts \<Rightarrow> DeliveryCounts \<Rightarrow> DeliveryCounts" where
  "add_counts a b =
     \<lparr>ct_Total = ct_Total a + ct_Total b, ct_Pending = ct_Pending a + ct_Pending b,
      ct_RetryWait = ct_RetryWait a + ct_RetryWait b, ct_Delivered = ct_Delivered a + ct_Delivered b,
      ct_DeadLetter = ct_DeadLetter a + ct_DeadLetter b\<rparr>"

definition older_waiting :: "WaitingStats option \<Rightarrow> WaitingStats option \<Rightarrow> WaitingStats option" where
  "older_waiting best next =
     (case next of None \<Rightarrow> best
      | Some w \<Rightarrow> (case best of None \<Rightarrow> Some w
                   | Some b \<Rightarrow> if wt_CapturedAt w < wt_CapturedAt b then Some w else Some b))"

definition add_sink :: "SinkStats \<Rightarrow> Stats \<Rightarrow> Stats" where
  "add_sink sink result =
     result\<lparr>sn_Deliveries := add_counts (sn_Deliveries result) (ss_Deliveries sink),
       sn_OldestWaiting := older_waiting (sn_OldestWaiting result) (ss_OldestWaiting sink),
       sn_Sinks := sn_Sinks result @ [sink]\<rparr>"

fun scan_sinks :: "stats_env \<Rightarrow> nat \<Rightarrow> SinkStats list \<Rightarrow> Stats \<Rightarrow> Stats \<times> string option" where
  "scan_sinks e i [] result = (result, None)"
| "scan_sinks e i (sink # sinks) result =
     (if sz_fails e (StatsScan i) then (result, Some ''scan per-sink stats'')
      else scan_sinks e (Suc i) sinks (add_sink sink result))"

definition sink_rows :: "time \<Rightarrow> db \<Rightarrow> SinkStats list" where
  "sink_rows sampled d = map (sink_stats sampled d) (sort_key sk_name (db_sinks d))"

definition readStatsSnapshot :: "externals \<Rightarrow> stats_env \<Rightarrow> db \<Rightarrow> Stats \<times> string option" where
  "readStatsSnapshot x e d =
     (if sz_fails e StatsBegin then (no_stats, Some ''begin spool stats snapshot'')
      else if sz_fails e StatsReadSchema then (no_stats, Some ''read spool stats schema'')
      else
        (let sampled = no_stats\<lparr>sn_SampledAt := sz_now e\<rparr> in
         if schema_version d \<noteq> currentSchemaVersion then (sampled, Some ''spool stats requires the current schema version'')
         else if sz_fails e StatsCountEvents then (sampled, Some ''count captured events'')
         else
           (let counted = sampled\<lparr>sn_EventCount := length (db_events d),
                  sn_PrunedPayloads := count_where (\<lambda>r. \<not> retained r) (db_events d)\<rparr> in
            case (if sz_fails e StatsReadCheckpoint then None else lastDurableLSNTx x d) of
              None \<Rightarrow> (counted, Some ''read spool stats checkpoint'')
            | Some lsn \<Rightarrow>
                (let located = counted\<lparr>sn_LastDurableLSN := LSN_String x lsn\<rparr> in
                 if sz_fails e StatsQuery then (located, Some ''read per-sink stats'')
                 else (case scan_sinks e 0 (sink_rows (sz_now e) d) located of
                         (result, Some err) \<Rightarrow> (result, Some err)
                       | (result, None) \<Rightarrow>
                           (result,
                            if sz_fails e StatsRowsErr then Some ''iterate per-sink stats''
                            else if sz_fails e StatsRowsClose then Some ''close per-sink stats''
                            else if sz_fails e StatsCommit then Some ''finish spool stats snapshot''
                            else None))))))"

fun measure_files :: "stats_env \<Rightarrow> string \<Rightarrow> (string \<times> (int \<Rightarrow> FileSizes \<Rightarrow> FileSizes)) list \<Rightarrow> FileSizes \<Rightarrow>
    FileSizes \<times> string option" where
  "measure_files e path [] result = (result, None)"
| "measure_files e path ((suffix, put) # files) result =
     (case sz_stat e (path @ suffix) of
        StatMissing \<Rightarrow> if suffix \<noteq> [] then measure_files e path files result else (result, Some ''measure spool file'')
      | StatFailed \<Rightarrow> (result, Some ''measure spool file'')
      | StatIrregular \<Rightarrow> (result, Some ''spool file is not a regular file'')
      | StatRegular n \<Rightarrow>
          measure_files e path files ((put n result)\<lparr>fs_TotalBytes := fs_TotalBytes result + n\<rparr>))"

definition spoolFileSizes :: "stats_env \<Rightarrow> string \<Rightarrow> FileSizes \<times> string option" where
  "spoolFileSizes e path =
     measure_files e path
       [([], \<lambda>n r. r\<lparr>fs_DatabaseBytes := n\<rparr>), (''-wal'', \<lambda>n r. r\<lparr>fs_WALBytes := n\<rparr>), (''-shm'', \<lambda>n r. r\<lparr>fs_SHMBytes := n\<rparr>)]
       no_sizes"

definition ReadStats :: "externals \<Rightarrow> stats_env \<Rightarrow> string \<Rightarrow> db \<Rightarrow> Stats \<times> string option" where
  "ReadStats x e path d =
     (if path = [] then (no_stats, Some ''spool path is required'')
      else (case sz_file e of
              FileMissing \<Rightarrow> (no_stats, Some ''inspect existing spool'')
            | FileIrregular \<Rightarrow> (no_stats, Some ''spool path must be a regular file, not a symbolic link or directory'')
            | FileRegular \<Rightarrow>
                if sz_fails e StatsAbsPath then (no_stats, Some ''resolve spool path'')
                else if sz_fails e StatsOpen then (no_stats, Some ''open spool for stats'')
                else (case readStatsSnapshot x e d of
                        (result, Some err) \<Rightarrow> (result, Some err)
                      | (result, None) \<Rightarrow>
                          (case spoolFileSizes e (sz_abs e path) of
                             (sizes, err) \<Rightarrow> (result\<lparr>sn_Storage := sizes\<rparr>, err)))))"

section \<open>The scan\<close>

lemma text_less_lex: "text_less s t \<longleftrightarrow> s < t"
proof (induction s t rule: text_less.induct)
  case (1 ys)
  then show ?case by (cases ys) simp_all
qed (simp_all add: less_char_def)

lemma scan_sinks_ok: "scan_sinks e i sinks r = (r', None) \<Longrightarrow> r' = fold add_sink sinks r"
  by (induction e i sinks r rule: scan_sinks.induct) (auto split: if_splits)

lemma fold_add_sink:
  "sn_Sinks (fold add_sink sinks r) = sn_Sinks r @ sinks"
  "sn_Deliveries (fold add_sink sinks r) = fold (\<lambda>s c. add_counts c (ss_Deliveries s)) sinks (sn_Deliveries r)"
  "sn_OldestWaiting (fold add_sink sinks r) = fold (\<lambda>s b. older_waiting b (ss_OldestWaiting s)) sinks (sn_OldestWaiting r)"
  "sn_SampledAt (fold add_sink sinks r) = sn_SampledAt r" "sn_EventCount (fold add_sink sinks r) = sn_EventCount r"
  "sn_PrunedPayloads (fold add_sink sinks r) = sn_PrunedPayloads r"
  "sn_LastDurableLSN (fold add_sink sinks r) = sn_LastDurableLSN r"
  by (induction sinks arbitrary: r) (simp_all add: add_sink_def)

lemma readStatsSnapshot_ok:
  assumes "readStatsSnapshot x e d = (r, None)"
  obtains lsn where "lastDurableLSNTx x d = Some lsn" "schema_version d = currentSchemaVersion"
    "r = fold add_sink (sink_rows (sz_now e) d)
       (no_stats\<lparr>sn_SampledAt := sz_now e, sn_EventCount := length (db_events d),
          sn_PrunedPayloads := count_where (\<lambda>r. \<not> retained r) (db_events d), sn_LastDurableLSN := LSN_String x lsn\<rparr>)"
proof -
  obtain lsn where "lastDurableLSNTx x d = Some lsn" "schema_version d = currentSchemaVersion"
    "scan_sinks e 0 (sink_rows (sz_now e) d)
       (no_stats\<lparr>sn_SampledAt := sz_now e, sn_EventCount := length (db_events d),
          sn_PrunedPayloads := count_where (\<lambda>r. \<not> retained r) (db_events d), sn_LastDurableLSN := LSN_String x lsn\<rparr>) = (r, None)"
    using assms
    by (auto simp: readStatsSnapshot_def Let_def split: if_splits option.splits prod.splits)
  then show ?thesis using that scan_sinks_ok by blast
qed

lemma ReadStats_ok:
  assumes "ReadStats x e path d = (s, None)"
  obtains r sizes where "readStatsSnapshot x e d = (r, None)" "s = r\<lparr>sn_Storage := sizes\<rparr>"
    "spoolFileSizes e (sz_abs e path) = (sizes, None)"
proof -
  have "\<exists>r sizes. readStatsSnapshot x e d = (r, None) \<and> s = r\<lparr>sn_Storage := sizes\<rparr> \<and>
      spoolFileSizes e (sz_abs e path) = (sizes, None)"
    using assms by (auto simp: ReadStats_def split: if_splits file_kind.splits prod.splits option.splits)
  then show ?thesis using that by blast
qed

section \<open>Counts\<close>

lemma count_deliveries_split:
  "(\<And>w. \<not> (p w \<and> q w)) \<Longrightarrow>
     count_deliveries (filter (\<lambda>w. p w \<or> q w) ws) = add_counts (count_deliveries (filter p ws)) (count_deliveries (filter q ws))"
  by (induction ws) (auto simp: count_deliveries_def count_where_def add_counts_def)

lemma add_counts_assoc: "add_counts (add_counts a b) c = add_counts a (add_counts b c)"
  by (simp add: add_counts_def)

lemma add_no_counts [simp]: "add_counts no_counts c = c" "add_counts c no_counts = c"
  by (simp_all add: add_counts_def no_counts_def)

lemma fold_counts:
  "distinct (map sk_id ss) \<Longrightarrow>
     fold (\<lambda>s c. add_counts c (ss_Deliveries s)) (map (sink_stats now d) ss) c =
     add_counts c (count_deliveries (filter (\<lambda>w. dl_sink w \<in> sk_id ` set ss) (db_deliveries d)))"
proof (induction ss arbitrary: c)
  case Nil
  show ?case by (simp add: count_deliveries_def count_where_def flip: no_counts_def)
next
  case (Cons s ss)
  have "count_deliveries (filter (\<lambda>w. dl_sink w \<in> sk_id ` set (s # ss)) (db_deliveries d)) =
      add_counts (count_deliveries (sink_deliveries d s))
        (count_deliveries (filter (\<lambda>w. dl_sink w \<in> sk_id ` set ss) (db_deliveries d)))"
    using count_deliveries_split [of "\<lambda>w. dl_sink w = sk_id s" "\<lambda>w. dl_sink w \<in> sk_id ` set ss"] Cons.prems
    by (simp add: sink_deliveries_def)
  then show ?case using Cons by (simp add: sink_stats_def add_counts_assoc)
qed

lemma distinct_sorted_sinks: "keys_ok d \<Longrightarrow> distinct (map sk_id (sort_key sk_name (db_sinks d)))"
  by (auto simp: keys_ok_def distinct_map inj_on_def dest!: strict_sorted_distinct)

lemma counts_partition:
  "ct_Total (count_deliveries ws) = ct_Pending (count_deliveries ws) + ct_RetryWait (count_deliveries ws) +
     ct_Delivered (count_deliveries ws) + ct_DeadLetter (count_deliveries ws)"
proof (induction ws)
  case (Cons w ws)
  then show ?case by (cases "dl_state w") (simp_all add: count_deliveries_def count_where_def)
qed (simp add: count_deliveries_def count_where_def)

section \<open>The oldest waiting capture\<close>

lemma fold_older:
  "fold (\<lambda>s b. older_waiting b (ss_OldestWaiting s)) sinks b = None \<longleftrightarrow> b = None \<and> (\<forall>s \<in> set sinks. ss_OldestWaiting s = None)"
  "fold (\<lambda>s b. older_waiting b (ss_OldestWaiting s)) sinks b = Some w \<Longrightarrow>
     (b = Some w \<or> (\<exists>s \<in> set sinks. ss_OldestWaiting s = Some w)) \<and>
     (\<forall>v. b = Some v \<longrightarrow> wt_CapturedAt w \<le> wt_CapturedAt v) \<and>
     (\<forall>s \<in> set sinks. \<forall>v. ss_OldestWaiting s = Some v \<longrightarrow> wt_CapturedAt w \<le> wt_CapturedAt v)"
proof (induction sinks arbitrary: b)
  case (Cons s sinks)
  case 1
  then show ?case using Cons(1) by (auto simp: older_waiting_def split: option.splits if_splits)
next
  case (Cons s sinks)
  case 2
  then show ?case using Cons(2) [of "older_waiting b (ss_OldestWaiting s)"]
    by (fastforce simp: older_waiting_def split: option.splits if_splits)
qed auto

lemma captured_at_known:
  assumes "core_inv x d" and "w \<in> set (db_deliveries d)"
  shows "\<exists>r \<in> set (db_events d). ev_sequence r = dl_event w \<and> captured_at d w = Some (ev_captured_at r)"
proof -
  obtain r where r: "r \<in> set (db_events d)" "ev_sequence r = dl_event w"
    using assms by (auto simp: core_inv_def refs_ok_def)
  then obtain r' where "List.find (\<lambda>r. ev_sequence r = dl_event w) (db_events d) = Some r'"
    by (cases "List.find (\<lambda>r. ev_sequence r = dl_event w) (db_events d)") (auto simp: find_None_set)
  then show ?thesis using find_SomeD by (fastforce simp: captured_at_def)
qed

lemma set_waiting_captures:
  "set (waiting_captures d ws) = {t. \<exists>w \<in> set ws. waiting w \<and> captured_at d w = Some t}"
  by (fastforce simp: waiting_captures_def map_filter_def image_iff)

text \<open>A waiting delivery of the sink keeps its capture time within a second of the sink's oldest.\<close>

lemma sink_oldest:
  assumes inv: "core_inv x d" and dates: "\<forall>r \<in> set (db_events d). printable (ev_captured_at r)"
    and w: "w \<in> set (sink_deliveries d s)" "waiting w"
  shows "\<exists>o' t. ss_OldestWaiting (sink_stats now d s) = Some o' \<and> captured_at d w = Some t \<and> wt_CapturedAt o' < t + Second"
proof -
  have dlv: "set (sink_deliveries d s) \<subseteq> set (db_deliveries d)" by (auto simp: sink_deliveries_def)
  have pr: "printable t" if "v \<in> set (sink_deliveries d s)" "captured_at d v = Some t" for v t
    using captured_at_known [OF inv, of v] dates dlv that by fastforce
  obtain t where t: "captured_at d w = Some t" "t \<in> set (waiting_captures d (sink_deliveries d s))"
    using captured_at_known [OF inv, of w] w dlv by (fastforce simp: set_waiting_captures)
  then obtain u where u: "first_by format_RFC3339Nano (waiting_captures d (sink_deliveries d s)) = Some u"
    by (cases "first_by format_RFC3339Nano (waiting_captures d (sink_deliveries d s))") auto
  have le: "\<not> text_less (format_RFC3339Nano t) (format_RFC3339Nano u)"
    using first_by_Some(2) [OF u t(2)] by (simp add: text_less_lex)
  have pu: "printable u" using first_by_Some(1) [OF u] pr by (auto simp: set_waiting_captures)
  have "u < t + Second"
    using same_second RFC3339Nano_order [OF pu pr [OF w(1) t(1)] le] pu pr [OF w(1) t(1)] by (simp add: printable_def)
  then show ?thesis using u t(1) by (simp add: sink_stats_def waiting_stats_def)
qed

lemma sink_oldest_waiting:
  assumes "ss_OldestWaiting (sink_stats now d s) = Some o'"
  shows "\<exists>w \<in> set (sink_deliveries d s). waiting w \<and> captured_at d w = Some (wt_CapturedAt o')"
proof -
  obtain u where u: "first_by format_RFC3339Nano (waiting_captures d (sink_deliveries d s)) = Some u" "wt_CapturedAt o' = u"
    using assms by (auto simp: sink_stats_def waiting_stats_def)
  then show ?thesis using first_by_Some(1) [OF u(1)] by (auto simp: set_waiting_captures)
qed

lemma waiting_row:
  assumes inv: "core_inv x d" and dates: "\<forall>r \<in> set (db_events d). printable (ev_captured_at r)"
    and w: "w \<in> set (db_deliveries d)" "waiting w"
  shows "\<exists>k \<in> set (db_sinks d). \<exists>v t. ss_OldestWaiting (sink_stats now d k) = Some v \<and>
      captured_at d w = Some t \<and> wt_CapturedAt v < t + Second"
proof -
  obtain k where k: "k \<in> set (db_sinks d)" "sk_id k = dl_sink w"
    using inv w by (auto simp: core_inv_def refs_ok_def)
  then have "w \<in> set (sink_deliveries d k)" using w by (simp add: sink_deliveries_def)
  then show ?thesis using sink_oldest [OF inv dates] k w by blast
qed

lemma map_sort_key: "map f (sort_key f xs) = sort (map f xs)"
proof (induction xs)
  case (Cons x xs)
  have "map f (insort_key f x ys) = insort (f x) (map f ys)" for ys by (induction ys) simp_all
  then show ?case using Cons by simp
qed simp

lemma measure_total:
  assumes "spoolFileSizes e p = (z, None)"
  shows "fs_TotalBytes z = fs_DatabaseBytes z + fs_WALBytes z + fs_SHMBytes z"
  using assms by (auto simp: spoolFileSizes_def no_sizes_def split: file_stat.splits)

section \<open>Properties\<close>


text \<open>The oldest waiting capture: it is reported exactly when a delivery waits, it is the
  capture time of a waiting delivery, and no waiting delivery was captured a second or more
  before it.\<close>

theorem ReadStats_oldest:
  assumes inv: "db_inv x d" and dates: "\<forall>r \<in> set (db_events d). printable (ev_captured_at r)"
    and ok: "ReadStats x e path d = (s, None)"
  shows "(sn_OldestWaiting s = None \<longleftrightarrow> (\<forall>w \<in> set (db_deliveries d). \<not> waiting w)) \<and>
    (\<forall>o'. sn_OldestWaiting s = Some o' \<longrightarrow>
       (\<exists>w \<in> set (db_deliveries d). waiting w \<and> captured_at d w = Some (wt_CapturedAt o')) \<and>
       (\<forall>w \<in> set (db_deliveries d). waiting w \<longrightarrow>
          (\<exists>t. captured_at d w = Some t \<and> wt_CapturedAt o' < t + Second)))"
proof -
  obtain r z where r: "readStatsSnapshot x e d = (r, None)" and s: "s = r\<lparr>sn_Storage := z\<rparr>" using ReadStats_ok [OF ok] .
  have old: "sn_OldestWaiting s = fold (\<lambda>s b. older_waiting b (ss_OldestWaiting s)) (sink_rows (sz_now e) d) None"
    using readStatsSnapshot_ok [OF r] s by (fastforce simp: fold_add_sink no_stats_def)
  have rows: "set (sink_rows (sz_now e) d) = sink_stats (sz_now e) d ` set (db_sinks d)" by (simp add: sink_rows_def)
  have core: "core_inv x d" using inv by blast
  have sub: "set (sink_deliveries d k) \<subseteq> set (db_deliveries d)" for k by (auto simp: sink_deliveries_def)
  note row = waiting_row [OF core dates, of _ "sz_now e"]
  have none: "sn_OldestWaiting s = None \<longleftrightarrow> (\<forall>w \<in> set (db_deliveries d). \<not> waiting w)"
  proof
    assume "sn_OldestWaiting s = None"
    then have "\<forall>k \<in> set (db_sinks d). ss_OldestWaiting (sink_stats (sz_now e) d k) = None"
      using old fold_older(1) rows by (metis imageI)
    then show "\<forall>w \<in> set (db_deliveries d). \<not> waiting w" using row by fastforce
  next
    assume idle: "\<forall>w \<in> set (db_deliveries d). \<not> waiting w"
    have "ss_OldestWaiting (sink_stats (sz_now e) d k) = None" for k
      using sink_oldest_waiting [of "sz_now e" d k] sub idle by (cases "ss_OldestWaiting (sink_stats (sz_now e) d k)") blast+
    then show "sn_OldestWaiting s = None" using old rows by (auto simp: fold_older(1))
  qed
  have some: "(\<exists>w \<in> set (db_deliveries d). waiting w \<and> captured_at d w = Some (wt_CapturedAt o')) \<and>
       (\<forall>w \<in> set (db_deliveries d). waiting w \<longrightarrow> (\<exists>t. captured_at d w = Some t \<and> wt_CapturedAt o' < t + Second))"
    if "sn_OldestWaiting s = Some o'" for o'
  proof -
    note f = fold_older(2) [OF that [unfolded old]]
    then obtain k where "k \<in> set (db_sinks d)" "ss_OldestWaiting (sink_stats (sz_now e) d k) = Some o'"
      using rows by auto
    then have "\<exists>w \<in> set (db_deliveries d). waiting w \<and> captured_at d w = Some (wt_CapturedAt o')"
      using sink_oldest_waiting sub by blast
    moreover have "\<exists>t. captured_at d w = Some t \<and> wt_CapturedAt o' < t + Second"
      if "w \<in> set (db_deliveries d)" "waiting w" for w
      using row [OF that] f rows by fastforce
    ultimately show ?thesis by blast
  qed
  show ?thesis using none some by blast
qed

section \<open>A concrete snapshot\<close>

text \<open>Two deliveries wait, of events captured half a second apart.\<close>

definition stats_db :: db where
  "stats_db = example_db\<lparr>
     db_events := [captured_row example_externals example_event 1 example_instant,
       captured_row example_externals (example_event\<lparr>ce_ID := ''evt-2''\<rparr>) 2 (example_instant + 500000000)],
     db_events_seq := 2,
     db_deliveries := [new_delivery 1 1 example_instant, new_delivery 2 1 (example_instant + 500000000)]\<rparr>"

definition quiet_stats :: stats_env where
  "quiet_stats = \<lparr>sz_now = example_instant + 3 * Second, sz_file = FileRegular, sz_fails = (\<lambda>_. False), sz_abs = (\<lambda>p. p),
     sz_stat = (\<lambda>p. if p = ''spool.db-shm'' then StatMissing else StatRegular 4096)\<rparr>"

lemma stats_db_inv: "db_inv example_externals stats_db"
  by (auto simp: db_inv_defs stats_db_def example_defs captured_row_def new_delivery_def delivery_ok_def)

lemma stats_captures:
  "captured_at stats_db (new_delivery 1 1 t) = Some example_instant"
  "captured_at stats_db (new_delivery 2 1 t) = Some (example_instant + 500000000)"
  by (simp_all add: captured_at_def stats_db_def captured_row_def)

lemma stats_oldest: "first_by format_RFC3339Nano [example_instant, example_instant + 500000000] = Some (example_instant + 500000000)"
  by (rule first_by_eqI) (use example_misordered in \<open>auto simp: text_less_lex\<close>)

lemma stats_sink:
  "sink_stats now stats_db example_sink =
     \<lparr>ss_Name = ''orders'', ss_Type = ''webhook'', ss_Active = True,
      ss_Deliveries = \<lparr>ct_Total = 2, ct_Pending = 2, ct_RetryWait = 0, ct_Delivered = 0, ct_DeadLetter = 0\<rparr>,
      ss_OldestWaiting = Some (waiting_stats now (example_instant + 500000000))\<rparr>"
proof -
  have ws: "sink_deliveries stats_db example_sink =
      [new_delivery 1 1 example_instant, new_delivery 2 1 (example_instant + 500000000)]"
    by (simp add: sink_deliveries_def stats_db_def example_sink_def)
  have "waiting_captures stats_db (sink_deliveries stats_db example_sink) = [example_instant, example_instant + 500000000]"
    by (simp add: ws waiting_captures_def stats_captures map_filter_simps)
  then show ?thesis
    by (simp add: sink_stats_def ws stats_oldest count_deliveries_def count_where_def) (simp add: example_sink_def)
qed

lemma stats_read:
  "\<exists>s. ReadStats example_externals quiet_stats ''spool.db'' stats_db = (s, None) \<and>
     sn_OldestWaiting s = Some (waiting_stats (example_instant + 3 * Second) (example_instant + 500000000))"
proof -
  have "schema_version stats_db = currentSchemaVersion" "lastDurableLSNTx example_externals stats_db = Some 0"
    "db_sinks stats_db = [example_sink]"
    by (simp_all add: schema_version_def currentSchemaVersion_def stats_db_def lastDurableLSNTx_def example_db_def empty_db_def)
  then show ?thesis
    by (simp add: ReadStats_def readStatsSnapshot_def quiet_stats_def spoolFileSizes_def sink_rows_def stats_sink
        add_sink_def older_waiting_def no_stats_def)
qed

text \<open>The oldest waiting capture is not the earliest one: a capture at a full second is passed
  over for one half a second later, whose text sorts first.\<close>

lemma oldest_not_earliest:
  "\<exists>s o' w t. ReadStats example_externals quiet_stats ''spool.db'' stats_db = (s, None) \<and> sn_OldestWaiting s = Some o' \<and>
     w \<in> set (db_deliveries stats_db) \<and> waiting w \<and> captured_at stats_db w = Some t \<and> t < wt_CapturedAt o'"
proof -
  have "new_delivery 1 1 example_instant \<in> set (db_deliveries stats_db)" "waiting (new_delivery 1 1 example_instant)"
    by (simp_all add: stats_db_def)
  then show ?thesis using stats_read stats_captures(1) by (fastforce simp: waiting_stats_def)
qed


theorem ReadStats_oldest_witness:
  "\<exists>s o'. ReadStats example_externals quiet_stats ''spool.db'' stats_db = (s, None) \<and> sn_OldestWaiting s = Some o' \<and>
     (\<exists>w \<in> set (db_deliveries stats_db). waiting w \<and> captured_at stats_db w = Some (wt_CapturedAt o'))"
proof -
  obtain s o' where s: "ReadStats example_externals quiet_stats ''spool.db'' stats_db = (s, None)" "sn_OldestWaiting s = Some o'"
    using stats_read by blast
  have "\<forall>r \<in> set (db_events stats_db). printable (ev_captured_at r)"
    using example_printable by (simp add: stats_db_def captured_row_def)
  then show ?thesis using ReadStats_oldest [OF stats_db_inv _ s(1)] s by blast
qed

end
