(* ===== verification/Monitoring.thy ===== *)
theory Monitoring
  imports Store_Stats Replicator "HOL-Library.Sublist"
begin

text \<open>
  Monitoring, \<open>internal/monitoring\<close>: the sampler that reads the statistics periodically, the
  readiness it derives, and the text of the metrics endpoint. The reads, the clock and the
  cancellation of the process are arguments; a response is its status code and its body. The
  printing of a floating-point number of seconds (\<open>%g\<close>) is the parameter \<open>fmt_g\<close>.
\<close>

section \<open>The sampler\<close>

definition sampleTimeout :: duration where
  "sampleTimeout = 5 * Second"

record Server =
  mo_path :: string
  mo_interval :: duration
  mo_stats :: Stats
  mo_sampleOK :: bool

definition New :: "string \<Rightarrow> duration \<Rightarrow> Server" where
  "New path interval = \<lparr>mo_path = path, mo_interval = interval, mo_stats = no_stats, mo_sampleOK = False\<rparr>"

text \<open>One read of the spool: the surroundings of the read, the database at that moment, and whether
  the deadline of the sample or the process context had expired when it ended.\<close>

record sample_env =
  me_stats :: stats_env
  me_db :: db
  me_expired :: bool

definition sample :: "externals \<Rightarrow> sample_env \<Rightarrow> Server \<Rightarrow> Server \<times> bool" where
  "sample x e s =
     (case ReadStats x (me_stats e) (mo_path s) (me_db e) of
        (stats, err) \<Rightarrow>
          (let ok = (err = None \<and> \<not> me_expired e) in
           (if ok then s\<lparr>mo_sampleOK := True, mo_stats := stats\<rparr> else s\<lparr>mo_sampleOK := False\<rparr>, ok)))"

text \<open>The loop over the ticks of the timer; the result counts the warnings logged.\<close>

datatype sampler_tick = TickDone | TickSample sample_env bool

fun sampleLoop :: "externals \<Rightarrow> sampler_tick list \<Rightarrow> bool \<Rightarrow> Server \<Rightarrow> Server \<times> nat" where
  "sampleLoop x [] wasOK s = (s, 0)"
| "sampleLoop x (TickDone # ts) wasOK s = (s, 0)"
| "sampleLoop x (TickSample e cancelled # ts) wasOK s =
     (case sample x e s of
        (s1, ok) \<Rightarrow>
          (case sampleLoop x ts ok s1 of
             (s2, n) \<Rightarrow> (s2, (if \<not> ok \<and> wasOK \<and> \<not> cancelled then Suc n else n))))"

definition snapshot :: "time \<Rightarrow> Server \<Rightarrow> Stats \<times> bool" where
  "snapshot now s =
     (mo_stats s, mo_sampleOK s \<and> sn_SampledAt (mo_stats s) \<noteq> zero_time \<and>
        time_sub now (sn_SampledAt (mo_stats s)) \<le> i64 (mo_interval s + 2 * sampleTimeout))"

section \<open>The endpoints\<close>

record ready_body =
  rb_ready :: bool
  rb_capture_connected :: bool
  rb_spool_sample_fresh :: bool
  rb_capture_paused :: bool
  rb_capture_pause_reason :: string
  rb_disk_protection_enabled :: bool
  rb_disk_sample_fresh :: bool

definition writeHealth :: "bool \<Rightarrow> 'a \<Rightarrow> nat \<times> 'a" where
  "writeHealth ok body = (if ok then 200 else 503, body)"

definition healthz :: "bool \<Rightarrow> nat \<times> bool" where
  "healthz cancelled = writeHealth (\<not> cancelled) (\<not> cancelled)"

definition readyz :: "bool \<Rightarrow> time \<Rightarrow> CaptureStatus \<Rightarrow> Server \<Rightarrow> nat \<times> ready_body" where
  "readyz cancelled now capture s =
     (let fresh = snd (snapshot now s); disk = st_Disk capture;
          diskReady = (\<not> dk_Enabled disk \<or> dk_SampleFresh disk \<and> \<not> dk_Paused disk);
          ready = (\<not> cancelled \<and> st_Connected capture \<and> fresh \<and> diskReady) in
      writeHealth ready
        \<lparr>rb_ready = ready, rb_capture_connected = st_Connected capture, rb_spool_sample_fresh = fresh,
         rb_capture_paused = dk_Paused disk, rb_capture_pause_reason = dk_Reason disk,
         rb_disk_protection_enabled = dk_Enabled disk, rb_disk_sample_fresh = dk_SampleFresh disk\<rparr>)"

section \<open>The server\<close>

datatype serve_result = ErrServerClosed | ServeError string

text \<open>The listener fails, serving ends by itself, or the context ends and the server is shut down,
  after which \<open>Serve\<close> returns what it returns.\<close>

datatype serve_end = ServeEnds serve_result | ServeCancelled serve_result

definition Monitor_Run :: "bool \<Rightarrow> serve_end \<Rightarrow> string option" where
  "Monitor_Run listen_fails outcome =
     (if listen_fails then Some ''listen for monitoring''
      else (case (case outcome of ServeEnds r \<Rightarrow> r | ServeCancelled r \<Rightarrow> r) of
              ErrServerClosed \<Rightarrow> None
            | ServeError err \<Rightarrow> Some err))"

section \<open>Metrics\<close>

definition newline :: string where "newline = [CHR 0x0A]"

definition boolNumber :: "bool \<Rightarrow> int" where
  "boolNumber b = (if b then 1 else 0)"

text \<open>The replacer works from left to right on single characters.\<close>

fun escape_label :: "string \<Rightarrow> string" where
  "escape_label [] = []"
| "escape_label (c # cs) =
     (if c = CHR 0x5C then CHR 0x5C # CHR 0x5C # escape_label cs
      else if c = CHR 0x0A then CHR 0x5C # CHR ''n'' # escape_label cs
      else if c = CHR 0x22 then CHR 0x5C # CHR 0x22 # escape_label cs
      else c # escape_label cs)"

definition label :: "string \<Rightarrow> string" where
  "label value = CHR 0x22 # escape_label value @ [CHR 0x22]"

definition header :: "string \<Rightarrow> string \<Rightarrow> string \<Rightarrow> string" where
  "header name help kind =
     ''# HELP writerelay_'' @ name @ '' '' @ help @ newline @ ''# TYPE writerelay_'' @ name @ '' '' @ kind @ newline"

definition metric :: "string \<Rightarrow> string \<Rightarrow> string \<Rightarrow> string" where
  "metric name labels value = ''writerelay_'' @ name @ labels @ '' '' @ value @ newline"

definition gauge :: "string \<Rightarrow> string \<Rightarrow> int \<Rightarrow> string" where
  "gauge name help value = header name help ''gauge'' @ metric name [] (Itoa value)"

definition Unix :: "time \<Rightarrow> int" where
  "Unix t = t div Second"

definition unix_or_zero :: "time \<Rightarrow> int" where
  "unix_or_zero t = (if t = zero_time then 0 else Unix t)"

definition pause_metrics :: "disk_status \<Rightarrow> string" where
  "pause_metrics disk =
     gauge ''capture_paused'' ''Capture is paused by disk-space protection.'' (boolNumber (dk_Paused disk)) @
     header ''capture_pause'' ''Capture pause reason; fixed categories.'' ''gauge'' @
     concat (map (\<lambda>reason. metric ''capture_pause'' (''{reason='' @ label reason @ ''}'')
         (Itoa (boolNumber (dk_Paused disk \<and> dk_Reason disk = reason)))) [''low_disk'', ''disk_check_failed''])"

definition disk_metrics :: "disk_status \<Rightarrow> string" where
  "disk_metrics disk =
     gauge ''disk_protection_enabled'' ''Whether capture disk-space protection is enabled.'' (boolNumber (dk_Enabled disk)) @
     (if dk_Enabled disk then
        gauge ''disk_sample_fresh'' ''Latest disk-space probe succeeded and is fresh.'' (boolNumber (dk_SampleFresh disk)) @
        gauge ''disk_sample_timestamp_seconds'' ''Unix time of the latest disk-space probe attempt, or zero.''
          (unix_or_zero (dk_SampledAt disk)) @
        gauge ''disk_pause_below_bytes'' ''Capture pauses below this available-byte threshold.'' (dk_PauseBelowBytes disk) @
        gauge ''disk_resume_at_bytes'' ''Paused capture resumes at this available-byte threshold.'' (dk_ResumeAtBytes disk) @
        (if dk_SampleFresh disk then
           header ''disk_available_bytes'' ''Bytes available to this user on the spool filesystem; not reserved space.'' ''gauge'' @
           metric ''disk_available_bytes'' [] (Itoa (uint (dk_AvailableBytes disk)))
         else [])
      else [])"

definition capture_metrics :: "CaptureStatus \<Rightarrow> string" where
  "capture_metrics capture =
     gauge ''capture_connected'' ''Replication stream started and has not observed a disconnect.''
       (boolNumber (st_Connected capture)) @
     header ''capture_transactions_total''
       ''Transactions persisted and status updates sent by this process, including empty batches and replays.'' ''counter'' @
     metric ''capture_transactions_total'' [] (Itoa (uint (st_Transactions capture))) @
     gauge ''capture_last_success_timestamp_seconds''
       ''Unix time of last persisted batch and sent status update in this process, or zero.'' (st_LastCaptureUnix capture)"

definition sample_metrics :: "bool \<Rightarrow> time \<Rightarrow> string" where
  "sample_metrics fresh sampledAt =
     gauge ''spool_sample_fresh'' ''One when the latest spool sample succeeded and is within the freshness limit.''
       (boolNumber fresh) @
     gauge ''spool_sample_timestamp_seconds'' ''Unix time of the last successful spool snapshot, or zero.''
       (unix_or_zero sampledAt)"

definition spool_metrics :: "Stats \<Rightarrow> string" where
  "spool_metrics stats =
     gauge ''spool_events'' ''Retained event identities, including pruned payloads.'' (int (sn_EventCount stats)) @
     header ''spool_payloads'' ''Event payload counts by retention state.'' ''gauge'' @
     metric ''spool_payloads'' (''{state='' @ label ''retained'' @ ''}'')
       (Itoa (int (sn_EventCount stats) - int (sn_PrunedPayloads stats))) @
     metric ''spool_payloads'' (''{state='' @ label ''pruned'' @ ''}'') (Itoa (int (sn_PrunedPayloads stats))) @
     header ''spool_file_bytes'' ''Approximate SQLite file lengths; not allocated blocks or PostgreSQL WAL.'' ''gauge'' @
     concat (map (\<lambda>(file, n). metric ''spool_file_bytes'' (''{file='' @ label file @ ''}'') (Itoa n))
       [(''database'', fs_DatabaseBytes (sn_Storage stats)), (''wal'', fs_WALBytes (sn_Storage stats)),
        (''shm'', fs_SHMBytes (sn_Storage stats))])"

definition sink_label :: "SinkStats \<Rightarrow> string" where
  "sink_label sink = ''{sink='' @ label (ss_Name sink)"

definition delivery_metrics :: "SinkStats \<Rightarrow> string" where
  "delivery_metrics sink =
     (let counts = ss_Deliveries sink in
      concat (map (\<lambda>(state, n). metric ''deliveries'' (sink_label sink @ '',state='' @ label state @ ''}'') (Itoa (int n)))
        [(''pending'', ct_Pending counts), (''retry_wait'', ct_RetryWait counts), (''delivered'', ct_Delivered counts),
         (''dead_letter'', ct_DeadLetter counts)]))"

definition age_metric :: "(duration \<Rightarrow> string) \<Rightarrow> time \<Rightarrow> SinkStats \<Rightarrow> string" where
  "age_metric fmt_g now sink =
     metric ''oldest_waiting_age_seconds'' (sink_label sink @ ''}'')
       (fmt_g (case ss_OldestWaiting sink of None \<Rightarrow> 0 | Some w \<Rightarrow> max 0 (time_sub now (wt_CapturedAt w))))"

definition sink_metrics :: "(duration \<Rightarrow> string) \<Rightarrow> time \<Rightarrow> SinkStats list \<Rightarrow> string" where
  "sink_metrics fmt_g now sinks =
     header ''sink_active'' ''Whether the registered sink is currently configured.'' ''gauge'' @
     concat (map (\<lambda>sink. metric ''sink_active'' (sink_label sink @ ''}'') (Itoa (boolNumber (ss_Active sink)))) sinks) @
     header ''deliveries'' ''Durable delivery records by sink and state, including inactive sinks.'' ''gauge'' @
     concat (map delivery_metrics sinks) @
     header ''oldest_waiting_age_seconds''
       ''Age since original capture of the oldest pending or retry_wait event in the snapshot, or zero.'' ''gauge'' @
     concat (map (age_metric fmt_g now) sinks)"

definition writeMetrics ::
    "(duration \<Rightarrow> string) \<Rightarrow> CaptureStatus \<Rightarrow> Stats \<Rightarrow> bool \<Rightarrow> time \<Rightarrow> string" where
  "writeMetrics fmt_g capture stats fresh now =
     pause_metrics (st_Disk capture) @ disk_metrics (st_Disk capture) @ capture_metrics capture @
     sample_metrics fresh (sn_SampledAt stats) @
     (if \<not> fresh then [] else spool_metrics stats @ sink_metrics fmt_g now (sn_Sinks stats))"

definition metrics :: "(duration \<Rightarrow> string) \<Rightarrow> time \<Rightarrow> CaptureStatus \<Rightarrow> Server \<Rightarrow> string" where
  "metrics fmt_g now capture s =
     (case snapshot now s of (stats, fresh) \<Rightarrow> writeMetrics fmt_g capture stats fresh now)"

section \<open>What the sampler holds\<close>

text \<open>The samples that the loop takes before it is told to stop.\<close>

fun samples_taken :: "sampler_tick list \<Rightarrow> sample_env list" where
  "samples_taken [] = []"
| "samples_taken (TickDone # ts) = []"
| "samples_taken (TickSample e c # ts) = e # samples_taken ts"

definition sample_ok :: "externals \<Rightarrow> string \<Rightarrow> sample_env \<Rightarrow> bool" where
  "sample_ok x path e \<longleftrightarrow> snd (ReadStats x (me_stats e) path (me_db e)) = None \<and> \<not> me_expired e"

lemma sample_eq:
  "sample x e s = (s', ok) \<Longrightarrow> ok = sample_ok x (mo_path s) e \<and> mo_path s' = mo_path s \<and> mo_interval s' = mo_interval s \<and>
     mo_sampleOK s' = ok \<and> (ok \<longrightarrow> mo_stats s' = fst (ReadStats x (me_stats e) (mo_path s) (me_db e)))"
  by (auto simp: sample_def sample_ok_def Let_def split: prod.splits if_splits)

lemma sampleLoop_last:
  "sampleLoop x ts w s = (s', n) \<Longrightarrow>
     mo_path s' = mo_path s \<and> mo_interval s' = mo_interval s \<and>
     (if samples_taken ts = [] then s' = s
      else (let e = last (samples_taken ts) in
        mo_sampleOK s' = sample_ok x (mo_path s) e \<and>
        (mo_sampleOK s' \<longrightarrow> mo_stats s' = fst (ReadStats x (me_stats e) (mo_path s) (me_db e)))))"
proof (induction x ts w s arbitrary: s' n rule: sampleLoop.induct)
  case (3 x e c ts w s)
  obtain s1 ok where s1: "sample x e s = (s1, ok)" by fastforce
  obtain s2 m where s2: "sampleLoop x ts ok s1 = (s2, m)" by fastforce
  have "s' = s2" using 3(2) s1 s2 by simp
  with 3(1) [OF s1 [symmetric] s2] sample_eq [OF s1] show ?case by (auto simp: Let_def)
qed auto

lemma ReadStats_sampled_at:
  assumes "snd (ReadStats x e path d) = None"
  shows "sn_SampledAt (fst (ReadStats x e path d)) = sz_now e"
proof -
  obtain s where s: "ReadStats x e path d = (s, None)" using assms by (metis prod.collapse)
  obtain r z where r: "readStatsSnapshot x e d = (r, None)" "s = r\<lparr>sn_Storage := z\<rparr>" using ReadStats_ok [OF s] .
  show ?thesis using readStatsSnapshot_ok [OF r(1)] by (rule) (simp add: s r(2) fold_add_sink)
qed

lemma fresh_bound:
  assumes "0 \<le> i" and "i + 2 * sampleTimeout < max_int64"
  shows "time_sub now t \<le> i64 (i + 2 * sampleTimeout) \<longleftrightarrow> now - t \<le> i + 2 * sampleTimeout"
proof -
  have "i64 (i + 2 * sampleTimeout) = i + 2 * sampleTimeout"
    using assms by (intro i64_in_range) (simp_all add: sampleTimeout_def duration_defs min_int64_def)
  then show ?thesis using assms by (auto simp: time_sub_def min_def max_def sampleTimeout_def duration_defs min_int64_def)
qed

section \<open>Well-formed text\<close>

text \<open>Lines of the text format, each with a prefix of its own, so that no value can start a line.\<close>

definition exposition :: "string \<Rightarrow> bool" where
  "exposition text \<longleftrightarrow>
     (\<exists>ls. text = concat (map (\<lambda>l. l @ newline) ls) \<and>
        (\<forall>l \<in> set ls. CHR 0x0A \<notin> set l \<and> (prefix ''# '' l \<or> prefix ''writerelay_'' l)))"

lemma exposition_Nil [intro!]: "exposition []"
  unfolding exposition_def by (intro exI [of _ "[]"]) simp

lemma exposition_append [intro!]:
  assumes "exposition a" and "exposition b"
  shows "exposition (a @ b)"
proof -
  obtain ls ks where "a = concat (map (\<lambda>l. l @ newline) ls)" "b = concat (map (\<lambda>l. l @ newline) ks)"
    "\<forall>l \<in> set (ls @ ks). CHR 0x0A \<notin> set l \<and> (prefix ''# '' l \<or> prefix ''writerelay_'' l)"
    using assms unfolding exposition_def by auto
  then show ?thesis unfolding exposition_def by (intro exI [of _ "ls @ ks"]) simp
qed

lemma exposition_concat [intro!]: "(\<And>y. y \<in> set ys \<Longrightarrow> exposition (f y)) \<Longrightarrow> exposition (concat (map f ys))"
  by (induction ys) auto

lemma exposition_line:
  "CHR 0x0A \<notin> set l \<Longrightarrow> prefix ''# '' l \<or> prefix ''writerelay_'' l \<Longrightarrow> exposition (l @ newline)"
  unfolding exposition_def by (intro exI [of _ "[l]"]) simp

lemma exposition_metric [intro!]:
  "CHR 0x0A \<notin> set name \<Longrightarrow> CHR 0x0A \<notin> set labels \<Longrightarrow> CHR 0x0A \<notin> set value \<Longrightarrow> exposition (metric name labels value)"
  using exposition_line [of "''writerelay_'' @ name @ labels @ '' '' @ value"] by (simp add: metric_def)

lemma exposition_header [intro!]:
  assumes "CHR 0x0A \<notin> set name" "CHR 0x0A \<notin> set help" "CHR 0x0A \<notin> set kind"
  shows "exposition (header name help kind)"
  using exposition_append [OF exposition_line [of "''# HELP writerelay_'' @ name @ '' '' @ help"]
      exposition_line [of "''# TYPE writerelay_'' @ name @ '' '' @ kind"]] assms
  by (simp add: header_def)

lemma newline_digit: "n < 10 \<Longrightarrow> digit_char n \<noteq> CHR 0x0A"
  using char_digit_digit [of n] by (auto simp: char_digit_def)

lemma newline_nat_decimal: "CHR 0x0A \<notin> set (nat_decimal n)"
proof (induction n rule: nat_decimal.induct)
  case (1 n)
  then show ?case
    using newline_digit [of n] newline_digit [of "n mod 10"] by (subst nat_decimal.simps) (auto dest: sym)
qed

lemma newline_Itoa [simp]: "CHR 0x0A \<notin> set (Itoa n)"
  by (simp add: Itoa_def newline_nat_decimal)

lemma newline_label [simp]: "CHR 0x0A \<notin> set (label v)"
proof -
  have "CHR 0x0A \<notin> set (escape_label v)" by (induction v) simp_all
  then show ?thesis by (simp add: label_def)
qed

lemma exposition_gauge [intro!]:
  "CHR 0x0A \<notin> set name \<Longrightarrow> CHR 0x0A \<notin> set help \<Longrightarrow> exposition (gauge name help n)"
  unfolding gauge_def by (intro exposition_append exposition_header exposition_metric) simp_all

text \<open>Reading a quoted label value as the format prescribes.\<close>

fun read_label :: "string \<Rightarrow> (string \<times> string) option" where
  "read_label [] = None"
| "read_label (c # cs) =
     (if c = CHR 0x22 then Some ([], cs)
      else if c = CHR 0x0A then None
      else if c = CHR 0x5C then
        (case cs of
           [] \<Rightarrow> None
         | k # ks \<Rightarrow>
             (case read_label ks of
                None \<Rightarrow> None
              | Some (v, rest) \<Rightarrow>
                  if k = CHR ''n'' then Some (CHR 0x0A # v, rest)
                  else if k = CHR 0x5C \<or> k = CHR 0x22 then Some (k # v, rest)
                  else None))
      else map_option (\<lambda>(v, rest). (c # v, rest)) (read_label cs))"

lemma read_escape_label: "read_label (escape_label v @ CHR 0x22 # rest) = Some (v, rest)"
  by (induction v) simp_all

section \<open>Properties\<close>

text \<open>(C39) The readiness endpoint answers 200 exactly when the process is not stopping, the
  replication stream is connected, the disk guard (when enabled) has a fresh sample and does not
  pause capture, and the latest of all samples the loop has taken succeeded and is at most one
  interval and ten seconds old. Before the first sample, after a failed one and with a stuck
  sampler it answers 503.\<close>

theorem ready_iff_recent:
  assumes "sampleLoop x ts True (New path interval) = (s, warnings)"
    and "0 \<le> interval" and "interval + 2 * sampleTimeout < max_int64"
  shows "fst (readyz cancelled now capture s) = (if \<not> cancelled \<and> st_Connected capture \<and>
      (dk_Enabled (st_Disk capture) \<longrightarrow> dk_SampleFresh (st_Disk capture) \<and> \<not> dk_Paused (st_Disk capture)) \<and>
      samples_taken ts \<noteq> [] \<and>
      (let e = last (samples_taken ts); t = sz_now (me_stats e) in
       snd (ReadStats x (me_stats e) path (me_db e)) = None \<and> \<not> me_expired e \<and> t \<noteq> zero_time \<and>
       now - t \<le> interval + 10 * Second) then 200 else 503)"
proof -
  note last = sampleLoop_last [OF assms(1)]
  have interval: "mo_interval s = interval" using last by (simp add: New_def)
  have five: "2 * sampleTimeout = 10 * Second" by (simp add: sampleTimeout_def)
  have "snd (snapshot now s) \<longleftrightarrow> samples_taken ts \<noteq> [] \<and>
      (let e = last (samples_taken ts); t = sz_now (me_stats e) in
       snd (ReadStats x (me_stats e) path (me_db e)) = None \<and> \<not> me_expired e \<and> t \<noteq> zero_time \<and>
       now - t \<le> interval + 10 * Second)"
  proof (cases "samples_taken ts = []")
    case True
    then show ?thesis using last by (simp add: snapshot_def New_def)
  next
    case False
    then show ?thesis
      using last fresh_bound [OF assms(2,3)] ReadStats_sampled_at
      by (auto simp: snapshot_def New_def sample_ok_def Let_def interval five)
  qed
  then show ?thesis by (auto simp: readyz_def writeHealth_def Let_def)
qed

text \<open>The metrics text cannot be broken by the values it shows: whatever the sink names, every
  line is a comment or a \<open>writerelay_\<close> sample.\<close>

theorem metrics_exposition:
  assumes "\<forall>d. CHR 0x0A \<notin> set (fmt_g d)"
  shows "exposition (metrics fmt_g now capture s)"
proof -
  have sink: "CHR 0x0A \<notin> set (sink_label k)" for k by (simp add: sink_label_def)
  have "exposition (spool_metrics stats)" "exposition (sink_metrics fmt_g now sinks)" for stats sinks
    using assms sink
    by (auto simp: spool_metrics_def sink_metrics_def delivery_metrics_def age_metric_def Let_def)
  moreover have "exposition (pause_metrics k)" "exposition (disk_metrics k)" for k
    by (auto simp: pause_metrics_def disk_metrics_def)
  moreover have "exposition (capture_metrics capture)" "exposition (sample_metrics f t)" for f t
    by (auto simp: capture_metrics_def sample_metrics_def)
  ultimately show ?thesis by (auto simp: metrics_def writeMetrics_def split: prod.splits)
qed

text \<open>Label values survive: reading the text of a label, whatever follows it, gives the value back.\<close>

theorem label_roundtrip: "\<exists>text. label value = CHR 0x22 # text \<and> read_label (text @ rest) = Some (value, rest)"
  by (rule exI [of _ "escape_label value @ [CHR 0x22]"]) (simp add: label_def read_escape_label)

text \<open>A failed or old sample exports no counts: the text does not depend on them.\<close>

lemma stale_counts_hidden:
  "\<not> snd (snapshot now s) \<Longrightarrow> \<not> snd (snapshot now s') \<Longrightarrow> sn_SampledAt (mo_stats s) = sn_SampledAt (mo_stats s') \<Longrightarrow>
     metrics fmt_g now capture s = metrics fmt_g now capture s'"
  by (auto simp: metrics_def writeMetrics_def snapshot_def)

section \<open>A concrete run\<close>

definition example_sample :: sample_env where
  "example_sample = \<lparr>me_stats = quiet_stats, me_db = stats_db, me_expired = False\<rparr>"

definition ready_capture :: CaptureStatus where
  "ready_capture = \<lparr>st_Disk = \<lparr>dk_Enabled = False, dk_Paused = False, dk_Reason = [], dk_AvailableBytes = 0,
       dk_SampledAt = zero_time, dk_SampleFresh = False, dk_PauseBelowBytes = 0, dk_ResumeAtBytes = 0\<rparr>,
     st_Connected = True, st_Transactions = 1, st_LastCaptureUnix = 5\<rparr>"

theorem ready_iff_recent_witness:
  "fst (readyz False (example_instant + 20 * Second) ready_capture
     (fst (sampleLoop example_externals [TickSample example_sample False] True (New ''spool.db'' (10 * Second))))) = 200"
proof -
  have "snd (ReadStats example_externals quiet_stats ''spool.db'' stats_db) = None" using stats_read by fastforce
  then show ?thesis
    using ready_iff_recent [where x = example_externals and ts = "[TickSample example_sample False]" and path = "''spool.db''"
        and interval = "10 * Second" and cancelled = False and now = "example_instant + 20 * Second" and capture = ready_capture,
        OF surjective_pairing]
    by (simp add: example_sample_def ready_capture_def quiet_stats_def sampleTimeout_def duration_defs max_int64_def
        example_instant_def zero_time_def)
qed

theorem metrics_exposition_witness:
  "exposition (metrics (\<lambda>_. ''0'') 0 ready_capture (New ''spool.db'' (10 * Second)))"
  using metrics_exposition [of "\<lambda>_. ''0''"] by simp

end
