(* ===== verification/Store_Open.thy ===== *)
theory Store_Open
  imports Store_Prune Go_Strconv "HOL-Library.Sublist"
begin

text \<open>
  Opening a spool (\<open>Open\<close>, \<open>initialize\<close> and \<open>applyMigration\<close> of \<open>internal/spool/sqlite/sqlite.go\<close>) and
  the read-only listings of the same file. A spool file is the database it holds, its journal mode
  and whether its permissions are restricted to the owner; the settings that belong to a connection
  are part of the opened store. The embedded migration scripts are modelled by what they create.
\<close>

section \<open>Opening\<close>

record spool_file =
  sf_db :: db
  sf_wal :: bool
  sf_owner_only :: bool

text \<open>The settings of the single connection the store keeps.\<close>

record connection =
  cn_synchronous_full :: bool
  cn_foreign_keys :: bool
  cn_busy_timeout :: nat

record Store =
  so_path :: string
  so_connection :: connection
  so_hooks :: Hooks

datatype lstat = LstatMissing | LstatFailed | LstatSymlink | LstatOther

text \<open>
  What the surroundings do during one call: the path's directory and entry, the pragma and the
  migration steps that fail, and the text of an error that the driver reports for reading the
  schema version for another reason than a missing table; \<open>oz_no_table\<close> is its text for that one.
\<close>

record open_env =
  oz_mkdir_fails :: bool
  oz_lstat :: lstat
  oz_open_fails :: bool
  oz_pragma_fails :: "nat \<Rightarrow> bool"
  oz_version_error :: "string option"
  oz_no_table :: string
  oz_begin_fails :: "nat \<Rightarrow> bool"
  oz_exec_fails :: "nat \<Rightarrow> bool"
  oz_commit :: "nat \<Rightarrow> commit_fault"
  oz_chmod_fails :: bool

text \<open>The loop \<open>for i := 0; i+len(fragment) <= len(value); i++\<close>.\<close>

function contains_from :: "string \<Rightarrow> string \<Rightarrow> nat \<Rightarrow> bool" where
  "contains_from value fragment i =
     (if i + length fragment \<le> length value
      then (if take (length fragment) (drop i value) = fragment then True
            else contains_from value fragment (i + 1))
      else False)"
  by pat_completeness auto

termination
  by (relation "measure (\<lambda>(value, fragment, i). length value + 1 - i)") auto

declare contains_from.simps [simp del]

definition contains :: "string \<Rightarrow> string \<Rightarrow> bool" where
  "contains value fragment = contains_from value fragment 0"

definition stringsContainsNoTable :: "string \<Rightarrow> bool" where
  "stringsContainsNoTable err = (contains err ''no such table'' \<or> contains err ''does not exist'')"

text \<open>
  The three scripts. Each creates its tables, columns and triggers, which fails where they exist
  already, and records its version; a table starts empty and the column added by the third script
  is \<open>NULL\<close> in every row.
\<close>

definition migration_script :: "nat \<Rightarrow> db \<Rightarrow> db option" where
  "migration_script version d =
     (if version \<in> set (db_schema d) then None
      else if version = 1 then
        Some (d\<lparr>db_schema := db_schema d @ [1], db_metadata := Map.empty, db_events := [], db_events_seq := 0\<rparr>)
      else if 1 \<notin> set (db_schema d) then None
      else if version = 2 then
        Some (d\<lparr>db_schema := db_schema d @ [2], db_sinks := [], db_sinks_seq := 0, db_deliveries := []\<rparr>)
      else if version = 3 \<and> 2 \<in> set (db_schema d) then
        Some (d\<lparr>db_schema := db_schema d @ [3], db_events := map (\<lambda>r. r\<lparr>ev_pruned_at := None\<rparr>) (db_events d)\<rparr>)
      else None)"

text \<open>The versions whose scripts are embedded in the binary.\<close>

definition migrations :: "nat list" where
  "migrations = [1, 2, 3]"

definition applyMigration :: "open_env \<Rightarrow> nat \<Rightarrow> db \<Rightarrow> db \<times> store_error option" where
  "applyMigration e version d =
     (if version \<notin> set migrations then (d, Some (ErrStore ''embedded migration is missing''))
      else if oz_begin_fails e version then (d, Some (ErrDurability ''begin migration''))
      else (case (if oz_exec_fails e version then None else migration_script version d) of
              None \<Rightarrow> (d, Some (ErrDurability ''apply migration''))
            | Some d' \<Rightarrow>
                (case oz_commit e version of
                   CommitOk \<Rightarrow> (d', None)
                 | CommitLost \<Rightarrow> (d, Some (ErrDurability ''commit migration''))
                 | CommitLanded \<Rightarrow> (d', Some (ErrDurability ''commit migration'')))))"

text \<open>The loop \<open>for next := version + 1; next <= currentSchemaVersion; next++\<close>.\<close>

fun migrate_all :: "open_env \<Rightarrow> nat list \<Rightarrow> db \<Rightarrow> db \<times> store_error option" where
  "migrate_all e [] d = (d, None)"
| "migrate_all e (v # rest) d =
     (case applyMigration e v d of
        (d', None) \<Rightarrow> migrate_all e rest d'
      | (d', Some err) \<Rightarrow> (d', Some err))"

text \<open>Reading \<open>schema_migrations\<close>, which exists once the first script has run.\<close>

definition read_version :: "open_env \<Rightarrow> db \<Rightarrow> string + nat" where
  "read_version e d =
     (case oz_version_error e of
        Some err \<Rightarrow> Inl err
      | None \<Rightarrow> if 1 \<in> set (db_schema d) then Inr (schema_version d) else Inl (oz_no_table e))"

definition initialize_tables :: "open_env \<Rightarrow> db \<Rightarrow> db \<times> store_error option" where
  "initialize_tables e d =
     (case (case read_version e d of
              Inl err \<Rightarrow> if stringsContainsNoTable err then Some 0 else None
            | Inr version \<Rightarrow> Some version) of
        None \<Rightarrow> (d, Some (ErrStore ''read spool schema version''))
      | Some version \<Rightarrow>
          if version > currentSchemaVersion then (d, Some (ErrStore ''unsupported spool schema version''))
          else migrate_all e [version + 1..<currentSchemaVersion + 1] d)"

definition pragmas :: "(spool_file \<times> connection \<Rightarrow> spool_file \<times> connection) list" where
  "pragmas =
     [\<lambda>(f, c). (f\<lparr>sf_wal := True\<rparr>, c), \<lambda>(f, c). (f, c\<lparr>cn_synchronous_full := True\<rparr>),
      \<lambda>(f, c). (f, c\<lparr>cn_foreign_keys := True\<rparr>), \<lambda>(f, c). (f, c\<lparr>cn_busy_timeout := 5000\<rparr>)]"

fun apply_pragmas :: "open_env \<Rightarrow> nat \<Rightarrow> (spool_file \<times> connection \<Rightarrow> spool_file \<times> connection) list \<Rightarrow>
    spool_file \<times> connection \<Rightarrow> (spool_file \<times> connection) \<times> bool" where
  "apply_pragmas e i [] s = (s, True)"
| "apply_pragmas e i (p # ps) s =
     (if oz_pragma_fails e i then (s, False) else apply_pragmas e (Suc i) ps (p s))"

definition initialize :: "open_env \<Rightarrow> spool_file \<times> connection \<Rightarrow> (spool_file \<times> connection) \<times> store_error option" where
  "initialize e s =
     (case apply_pragmas e 0 pragmas s of
        (s', False) \<Rightarrow> (s', Some (ErrDurability ''apply pragma''))
      | ((f, c), True) \<Rightarrow>
          (case initialize_tables e (sf_db f) of (d, err) \<Rightarrow> ((f\<lparr>sf_db := d\<rparr>, c), err)))"

definition new_connection :: connection where
  "new_connection = \<lparr>cn_synchronous_full = False, cn_foreign_keys = False, cn_busy_timeout = 0\<rparr>"

definition OpenWithHooks :: "Hooks \<Rightarrow> open_env \<Rightarrow> string \<Rightarrow> spool_file \<Rightarrow> spool_file \<times> (store_error + Store)" where
  "OpenWithHooks hooks e path f =
     (if path = [] then (f, Inl (ErrStore ''spool path is required''))
      else if oz_mkdir_fails e then (f, Inl (ErrStore ''create spool directory''))
      else if oz_lstat e = LstatSymlink then (f, Inl (ErrStore ''spool path must not be a symbolic link''))
      else if oz_lstat e = LstatFailed then (f, Inl (ErrStore ''inspect spool path''))
      else if oz_open_fails e then (f, Inl (ErrStore ''open SQLite spool''))
      else (case initialize e (f, new_connection) of
              ((f', c), Some err) \<Rightarrow> (f', Inl err)
            | ((f', c), None) \<Rightarrow>
                if oz_chmod_fails e then (f', Inl (ErrStore ''restrict spool permissions''))
                else (f'\<lparr>sf_owner_only := True\<rparr>, Inr \<lparr>so_path = path, so_connection = c, so_hooks = hooks\<rparr>)))"

definition Open :: "open_env \<Rightarrow> string \<Rightarrow> spool_file \<Rightarrow> spool_file \<times> (store_error + Store)" where
  "Open e path f = OpenWithHooks no_hooks e path f"

section \<open>Substring search\<close>

lemma take_drop_sublist:
  "sublist f v \<longleftrightarrow> (\<exists>i. i + length f \<le> length v \<and> take (length f) (drop i v) = f)"
proof
  assume "sublist f v"
  then obtain p q where "v = p @ f @ q" by (auto simp: sublist_def)
  then show "\<exists>i. i + length f \<le> length v \<and> take (length f) (drop i v) = f" by (intro exI [of _ "length p"]) simp
next
  assume "\<exists>i. i + length f \<le> length v \<and> take (length f) (drop i v) = f"
  then obtain i where "take (length f) (drop i v) = f" by blast
  then have "v = take i v @ f @ drop (length f) (drop i v)" by (metis append_take_drop_id)
  then show "sublist f v" unfolding sublist_def by blast
qed

lemma contains_from_iff:
  "contains_from v f i \<longleftrightarrow> (\<exists>j \<ge> i. j + length f \<le> length v \<and> take (length f) (drop j v) = f)"
proof (induction v f i rule: contains_from.induct)
  case (1 v f i)
  show ?case
  proof (cases "i + length f \<le> length v \<and> take (length f) (drop i v) \<noteq> f")
    case True
    then have "contains_from v f i \<longleftrightarrow> (\<exists>j \<ge> i + 1. j + length f \<le> length v \<and> take (length f) (drop j v) = f)"
      using 1 by (subst contains_from.simps) simp
    then show ?thesis using True by (metis Suc_eq_plus1 Suc_leD le_antisym not_less_eq_eq)
  next
    case False
    then show ?thesis by (subst contains_from.simps) auto
  qed
qed

text \<open>The hand-written search finds exactly the substrings.\<close>

lemma contains_sublist: "contains v f \<longleftrightarrow> sublist f v"
  by (simp add: contains_def contains_from_iff take_drop_sublist)

section \<open>Migrations\<close>

text \<open>The states a spool file can be in: the first \<open>k\<close> scripts have run, and what later scripts
  create does not exist yet.\<close>

definition schema_at :: "nat \<Rightarrow> db \<Rightarrow> bool" where
  "schema_at k d \<longleftrightarrow> k \<le> currentSchemaVersion \<and> db_schema d = [1..<Suc k] \<and>
     (k < 1 \<longrightarrow> db_metadata d = Map.empty \<and> db_events d = [] \<and> db_events_seq d = 0) \<and>
     (k < 2 \<longrightarrow> db_sinks d = [] \<and> db_sinks_seq d = 0 \<and> db_deliveries d = []) \<and>
     (k < 3 \<longrightarrow> (\<forall>r \<in> set (db_events d). retained r))"

lemma schema_at_Suc: "schema_at k d \<Longrightarrow> k < currentSchemaVersion \<Longrightarrow> schema_at (Suc k) (d\<lparr>db_schema := [1..<Suc (Suc k)]\<rparr>)"
  by (simp add: schema_at_def)

lemma three: "n < currentSchemaVersion \<longleftrightarrow> n = 0 \<or> n = 1 \<or> n = 2"
  by (auto simp: currentSchemaVersion_def)

lemma version_lists: "[1..<Suc 0] = []" "[1..<Suc 1] = [1]" "[1..<Suc 2] = [1, 2]" "[1..<Suc 3] = [1, 2, 3]"
  "[1..<1] = []" "[1..<2] = [1]" "[1..<3] = [1, 2]"
  by (simp_all add: numeral_2_eq_2 numeral_3_eq_3)

lemma migration_script_next:
  assumes at: "schema_at k d" and k: "k < currentSchemaVersion"
  shows "migration_script (Suc k) d = Some (d\<lparr>db_schema := [1..<Suc (Suc k)]\<rparr>)"
proof -
  have kept: "map (\<lambda>r. r\<lparr>ev_pruned_at := None\<rparr>) rs = rs" if "\<forall>r \<in> set rs. retained r" for rs
    using that by (induction rs) simp_all
  have sucs: "Suc 0 = 1" "Suc 1 = 2" "Suc 2 = 3" by simp_all
  consider (zero) "k = 0" | (one) "k = 1" | (two) "k = 2" using k unfolding three by blast
  then show ?thesis
  proof cases
    case zero
    then show ?thesis using at unfolding schema_at_def migration_script_def zero sucs(1) version_lists by simp
  next
    case one
    then show ?thesis using at unfolding schema_at_def migration_script_def one sucs(2) version_lists by simp
  next
    case two
    then show ?thesis using at kept [of "db_events d"] unfolding schema_at_def migration_script_def two sucs(3) version_lists by simp
  qed
qed

lemma migration_script_again: "v \<in> set (db_schema d) \<Longrightarrow> migration_script v d = None"
  by (simp add: migration_script_def)

lemma schema_version_at: "schema_at k d \<Longrightarrow> schema_version d = k"
proof -
  assume "schema_at k d"
  moreover have "fold max [1..<Suc k] 0 = k" by (induction k) simp_all
  ultimately show ?thesis by (simp add: schema_version_def schema_at_def)
qed

definition migrated :: "nat \<Rightarrow> db \<Rightarrow> db" where
  "migrated k d = d\<lparr>db_schema := [1..<Suc k]\<rparr>"

lemma migrated_id: "schema_at k d \<Longrightarrow> migrated k d = d"
  by (simp add: schema_at_def migrated_def)

lemma applyMigration_next:
  assumes "schema_at k d" and "k < currentSchemaVersion" and "applyMigration e (Suc k) d = (d', err)"
  shows "d' = d \<and> err \<noteq> None \<or> d' = migrated (Suc k) d \<and> schema_at (Suc k) d'"
  using assms(3) migration_script_next [OF assms(1,2)] schema_at_Suc [OF assms(1,2)]
  by (auto simp: applyMigration_def migrated_def split: if_splits commit_fault.splits)

lemma migrate_all_from:
  "schema_at k d \<Longrightarrow> migrate_all e [Suc k..<Suc currentSchemaVersion] d = (d', err) \<Longrightarrow>
     \<exists>k' \<ge> k. d' = migrated k' d \<and> schema_at k' d' \<and> (err = None \<longrightarrow> k' = currentSchemaVersion)"
proof (induction "currentSchemaVersion - k" arbitrary: k d)
  case 0
  then have "k = currentSchemaVersion" by (simp add: schema_at_def)
  then show ?case using 0 by (auto simp: migrated_id)
next
  case (Suc n)
  then have k: "k < currentSchemaVersion" by simp
  then have upt: "[Suc k..<Suc currentSchemaVersion] = Suc k # [Suc (Suc k)..<Suc currentSchemaVersion]"
    by (simp add: upt_conv_Cons del: upt_Suc)
  obtain d1 err1 where a: "applyMigration e (Suc k) d = (d1, err1)" by fastforce
  show ?case
  proof (cases err1)
    case (Some x)
    then have "d' = d1" "err \<noteq> None" using Suc.prems(2) unfolding upt by (auto simp: a)
    then show ?thesis using applyMigration_next [OF Suc.prems(1) k a] migrated_id Suc.prems(1) by (metis le_SucI order_refl)
  next
    case None
    then have rest: "migrate_all e [Suc (Suc k)..<Suc currentSchemaVersion] d1 = (d', err)"
      using Suc.prems(2) unfolding upt by (simp add: a)
    have d1: "d1 = migrated (Suc k) d" "schema_at (Suc k) d1" using applyMigration_next [OF Suc.prems(1) k a] None by auto
    have "n = currentSchemaVersion - Suc k" using Suc.hyps(2) by simp
    from Suc.hyps(1) [OF this d1(2) rest] obtain k' where "k' \<ge> Suc k" "d' = migrated k' d1" "schema_at k' d'"
      "err = None \<longrightarrow> k' = currentSchemaVersion" by blast
    then show ?thesis using d1(1) by (intro exI [of _ k']) (simp add: migrated_def)
  qed
qed

lemma initialize_tables_from:
  assumes at: "schema_at k d" and run: "initialize_tables e d = (d', err)"
  shows "\<exists>k' \<ge> k. d' = migrated k' d \<and> schema_at k' d' \<and> (err = None \<longrightarrow> k' = currentSchemaVersion)"
proof -
  have k: "k \<le> currentSchemaVersion" using at by (simp add: schema_at_def)
  consider (refused) "d' = d" "err \<noteq> None" | (start) v where "v = 0 \<or> v = k" "v \<le> currentSchemaVersion"
      "migrate_all e [Suc v..<Suc currentSchemaVersion] d = (d', err)"
    using run schema_version_at [OF at] k
    by (auto simp: initialize_tables_def read_version_def split: option.splits if_splits simp del: upt_Suc)
  then show ?thesis
  proof cases
    case refused
    then show ?thesis using at migrated_id by auto
  next
    case start
    show ?thesis
    proof (cases "v = k")
      case True
      then show ?thesis using migrate_all_from [OF at] start(3) by blast
    next
      case False
      then have "v = 0" "0 < k" using start(1) by auto
      moreover have "1 \<in> set (db_schema d)" using at \<open>0 < k\<close> by (auto simp: schema_at_def)
      moreover have "[1..<Suc currentSchemaVersion] = 1 # [2..<Suc currentSchemaVersion]"
        by (simp add: upt_conv_Cons currentSchemaVersion_def numeral_2_eq_2 del: upt_Suc)
      ultimately have "d' = d \<and> err \<noteq> None"
        using start(3) by (auto simp: applyMigration_def migration_script_again simp del: upt_Suc split: if_splits)
      then show ?thesis using at migrated_id by auto
    qed
  qed
qed

text \<open>Pragmas change no table.\<close>

lemma apply_pragmas_db:
  "(\<And>p s. p \<in> set ps \<Longrightarrow> sf_db (fst (p s)) = sf_db (fst s)) \<Longrightarrow>
     sf_db (fst (fst (apply_pragmas e i ps s))) = sf_db (fst s)"
  by (induction ps arbitrary: i s) auto

lemma pragmas_db: "sf_db (fst (fst (apply_pragmas e i pragmas s))) = sf_db (fst s)"
  by (rule apply_pragmas_db) (auto simp: pragmas_def)

definition durable_connection :: connection where
  "durable_connection = \<lparr>cn_synchronous_full = True, cn_foreign_keys = True, cn_busy_timeout = 5000\<rparr>"

lemma pragmas_all:
  "apply_pragmas e 0 pragmas (f, c) = ((f', c'), True) \<Longrightarrow>
     f' = f\<lparr>sf_wal := True\<rparr> \<and> c' = durable_connection"
  by (auto simp: pragmas_def durable_connection_def split: if_splits)

lemma initialize_cases:
  assumes "initialize e (f, c) = ((f', c'), err)"
  shows "sf_db f' = sf_db f \<and> err \<noteq> None \<or>
    (\<exists>d'. initialize_tables e (sf_db f) = (d', err) \<and> f' = f\<lparr>sf_wal := True, sf_db := d'\<rparr> \<and>
       c' = durable_connection)"
proof -
  obtain f1 c1 ok where p: "apply_pragmas e 0 pragmas (f, c) = ((f1, c1), ok)" by (metis prod.collapse)
  show ?thesis
  proof (cases ok)
    case True
    then have "f1 = f\<lparr>sf_wal := True\<rparr>" "c1 = durable_connection"
      using pragmas_all [of e f c f1 c1] p by simp_all
    then show ?thesis using True p assms by (cases "initialize_tables e (sf_db f)") (simp add: initialize_def)
  next
    case False
    then show ?thesis using pragmas_db [of e 0 "(f, c)"] p assms by (auto simp: initialize_def)
  qed
qed

lemma Open_cases:
  assumes "OpenWithHooks hooks e path f = (f', r)"
  shows "sf_db f' = sf_db f \<and> isl r \<or>
    (\<exists>err. initialize_tables e (sf_db f) = (sf_db f', err) \<and>
       (\<forall>s. r = Inr s \<longrightarrow> err = None \<and> sf_wal f' \<and> sf_owner_only f' \<and>
          so_connection s = durable_connection \<and> so_hooks s = hooks))"
proof -
  obtain f1 c1 err where i: "initialize e (f, new_connection) = ((f1, c1), err)" by (metis prod.collapse)
  consider "f' = f" "isl r" | "f' = f1" "err \<noteq> None" "isl r" | "err = None" "f' = f1" "isl r"
    | "err = None" "f' = f1\<lparr>sf_owner_only := True\<rparr>" "r = Inr \<lparr>so_path = path, so_connection = c1, so_hooks = hooks\<rparr>"
    using assms i by (auto simp: OpenWithHooks_def split: if_splits option.splits)
  then show ?thesis using initialize_cases [OF i] by cases auto
qed

lemma Open_database:
  assumes at: "schema_at k (sf_db f)" and "Open e path f = (f', r)"
  shows "\<exists>k' \<ge> k. schema_at k' (sf_db f') \<and> sf_db f' = (sf_db f)\<lparr>db_schema := [1..<Suc k']\<rparr> \<and>
    (\<not> isl r \<longrightarrow> k' = currentSchemaVersion)"
proof -
  have opened: "OpenWithHooks no_hooks e path f = (f', r)" using assms(2) by (simp add: Open_def)
  have same: "sf_db f = (sf_db f)\<lparr>db_schema := [1..<Suc k]\<rparr>" using migrated_id [OF at] by (simp only: migrated_def)
  from Open_cases [OF opened] show ?thesis
  proof
    assume "sf_db f' = sf_db f \<and> isl r"
    then show ?thesis using at same by (intro exI [of _ k]) simp
  next
    assume "\<exists>err. initialize_tables e (sf_db f) = (sf_db f', err) \<and>
       (\<forall>s. r = Inr s \<longrightarrow> err = None \<and> sf_wal f' \<and> sf_owner_only f' \<and>
          so_connection s = durable_connection \<and> so_hooks s = no_hooks)"
    then obtain err where init: "initialize_tables e (sf_db f) = (sf_db f', err)" and "\<not> isl r \<longrightarrow> err = None"
      by (auto simp: isl_def) (metis sum.exhaust_sel)
    then show ?thesis using initialize_tables_from [OF at init] unfolding migrated_def by blast
  qed
qed

lemma db_inv_schema [simp]: "db_inv x (d\<lparr>db_schema := s\<rparr>) = db_inv x d"
  by (simp add: db_inv_defs all_delivered_def)

section \<open>Properties of opening\<close>

text \<open>(C24) Whatever fails while a spool is opened, its rows stay as they are: the only change to the
  database is that some of the missing migrations have run, in order, and each of them whole. A
  store is returned only when all have run, the journal is a WAL with full synchronisation,
  foreign keys are enforced, the file is private to its owner and the crash hooks are inert.\<close>

theorem Open_keeps_rows:
  assumes "schema_at k (sf_db f)" and "Open e path f = (f', r)"
  shows "(\<exists>k' \<ge> k. schema_at k' (sf_db f') \<and> sf_db f' = (sf_db f)\<lparr>db_schema := [1..<Suc k']\<rparr>) \<and>
    (\<forall>s. r = Inr s \<longrightarrow> schema_version (sf_db f') = currentSchemaVersion \<and> sf_wal f' \<and> sf_owner_only f' \<and>
       cn_synchronous_full (so_connection s) \<and> cn_foreign_keys (so_connection s) \<and> so_hooks s = no_hooks)"
proof -
  obtain k' where k': "k' \<ge> k" "schema_at k' (sf_db f')" "sf_db f' = (sf_db f)\<lparr>db_schema := [1..<Suc k']\<rparr>"
    "\<not> isl r \<longrightarrow> k' = currentSchemaVersion" using Open_database [OF assms] by blast
  have "sf_wal f' \<and> sf_owner_only f' \<and> so_connection s = durable_connection \<and> so_hooks s = no_hooks" if "r = Inr s" for s
    using Open_cases [of no_hooks e path f f' r] assms(2) that by (auto simp: Open_def)
  then have "\<forall>s. r = Inr s \<longrightarrow> schema_version (sf_db f') = currentSchemaVersion \<and> sf_wal f' \<and> sf_owner_only f' \<and>
       cn_synchronous_full (so_connection s) \<and> cn_foreign_keys (so_connection s) \<and> so_hooks s = no_hooks"
    using schema_version_at [OF k'(2)] k'(4) by (simp add: durable_connection_def)
  then show ?thesis using k'(1-3) by blast
qed

definition open_quietly :: "open_env \<Rightarrow> bool" where
  "open_quietly e \<longleftrightarrow> \<not> oz_mkdir_fails e \<and> oz_lstat e \<in> {LstatMissing, LstatOther} \<and> \<not> oz_open_fails e \<and>
     (\<forall>i. \<not> oz_pragma_fails e i) \<and> oz_version_error e = None \<and> sublist ''no such table'' (oz_no_table e) \<and>
     (\<forall>v. \<not> oz_begin_fails e v \<and> \<not> oz_exec_fails e v \<and> oz_commit e v = CommitOk) \<and> \<not> oz_chmod_fails e"

lemma migrate_all_quiet:
  "schema_at k d \<Longrightarrow> open_quietly e \<Longrightarrow> snd (migrate_all e [Suc k..<Suc currentSchemaVersion] d) = None"
proof (induction "currentSchemaVersion - k" arbitrary: k d)
  case 0
  then show ?case by (simp add: schema_at_def)
next
  case (Suc n)
  then have k: "k < currentSchemaVersion" by simp
  then have upt: "[Suc k..<Suc currentSchemaVersion] = Suc k # [Suc (Suc k)..<Suc currentSchemaVersion]"
    by (simp add: upt_conv_Cons del: upt_Suc)
  have "Suc k \<in> set migrations" using k unfolding three by (auto simp: migrations_def)
  then have "applyMigration e (Suc k) d = (d\<lparr>db_schema := [1..<Suc (Suc k)]\<rparr>, None)"
    using Suc.prems(2) migration_script_next [OF Suc.prems(1) k] by (simp add: applyMigration_def open_quietly_def)
  moreover have "n = currentSchemaVersion - Suc k" using Suc.hyps(2) by simp
  ultimately show ?case
    unfolding upt using Suc.hyps(1) [OF _ schema_at_Suc [OF Suc.prems(1) k] Suc.prems(2)] by (simp del: upt_Suc)
qed

lemma initialize_tables_quiet:
  assumes at: "schema_at k d" and quiet: "open_quietly e"
  shows "snd (initialize_tables e d) = None"
proof -
  have no: "stringsContainsNoTable (oz_no_table e)"
    using quiet by (simp add: stringsContainsNoTable_def contains_sublist open_quietly_def)
  have mem: "1 \<in> set (db_schema d) \<longleftrightarrow> 0 < k" using at by (auto simp: schema_at_def)
  have "oz_version_error e = None" using quiet by (simp add: open_quietly_def)
  then have "initialize_tables e d = migrate_all e [Suc k..<Suc currentSchemaVersion] d"
    using at no schema_version_at [OF at] mem
    by (cases "0 < k") (simp_all add: initialize_tables_def read_version_def schema_at_def del: upt_Suc)
  then show ?thesis using migrate_all_quiet [OF at quiet] by simp
qed

lemma Open_quiet:
  assumes at: "schema_at k (sf_db f)" and "path \<noteq> []" and quiet: "open_quietly e"
  shows "\<exists>f' s. Open e path f = (f', Inr s) \<and> schema_version (sf_db f') = currentSchemaVersion"
proof -
  obtain d' where d': "initialize_tables e (sf_db f) = (d', None)"
    using initialize_tables_quiet [OF at quiet] by (metis prod.collapse)
  have pragmas: "apply_pragmas e 0 pragmas (f, new_connection) = ((f\<lparr>sf_wal := True\<rparr>, durable_connection), True)"
    using quiet by (simp add: open_quietly_def pragmas_def new_connection_def durable_connection_def)
  have "Open e path f =
      (f\<lparr>sf_wal := True, sf_db := d', sf_owner_only := True\<rparr>,
       Inr \<lparr>so_path = path, so_connection = durable_connection, so_hooks = no_hooks\<rparr>)"
    using assms(2) quiet d' by (auto simp: Open_def OpenWithHooks_def initialize_def pragmas open_quietly_def)
  moreover have "schema_version d' = currentSchemaVersion"
    using initialize_tables_from [OF at d'] schema_version_at by auto
  ultimately show ?thesis by simp
qed

text \<open>A spool that a failed or interrupted open left behind can be opened: from every state the
  migrations can be in, an open without faults succeeds, provided the driver names a missing table
  as SQLite does.\<close>

theorem Open_resumes:
  assumes at: "schema_at k (sf_db f)" and "path \<noteq> []" and quiet: "open_quietly e"
  shows "\<exists>f' s. Open e path f = (f', Inr s) \<and> schema_version (sf_db f') = currentSchemaVersion"
  using assms by (rule Open_quiet)

text \<open>A spool written by a newer version of the program is refused with its database untouched,
  whatever else goes wrong.\<close>

theorem Open_refuses_newer:
  assumes "1 \<in> set (db_schema (sf_db f))" and "currentSchemaVersion < schema_version (sf_db f)"
  shows "\<exists>f' err. Open e path f = (f', Inl err) \<and> sf_db f' = sf_db f"
proof -
  have first: "[Suc 0..<Suc currentSchemaVersion] = 1 # [2..<Suc currentSchemaVersion]"
    by (simp add: upt_conv_Cons currentSchemaVersion_def numeral_2_eq_2 del: upt_Suc)
  have "\<exists>err. initialize_tables e (sf_db f) = (sf_db f, Some err)"
    using assms
    by (auto simp: initialize_tables_def read_version_def first applyMigration_def migration_script_again
        split: option.splits simp del: upt_Suc)
  then obtain err where init: "initialize_tables e (sf_db f) = (sf_db f, Some err)" by blast
  obtain f' r where opened: "OpenWithHooks no_hooks e path f = (f', r)" by fastforce
  from Open_cases [OF opened] init have "sf_db f' = sf_db f \<and> isl r" by (cases r) auto
  then show ?thesis using opened by (auto simp: Open_def isl_def)
qed

section \<open>Listings\<close>

record EventRow =
  er_Sequence :: int
  er_Source :: string
  er_ID :: string
  er_Type :: string
  er_Subject :: string
  er_Payload :: bytes
  er_TransactionID :: xid
  er_MessageLSN :: string
  er_CommitLSN :: string
  er_CommitEndLSN :: string
  er_CommitTime :: time
  er_MessageIndex :: int
  er_PayloadPrunedAt :: "time option"

record DeliveryRow =
  dr_EventSequence :: int
  dr_SinkName :: string
  dr_State :: string
  dr_Attempts :: int
  dr_NextAttemptAt :: time
  dr_LastAttemptAt :: "time option"
  dr_DeliveredAt :: "time option"
  dr_DeadLetteredAt :: "time option"
  dr_LastError :: string
  dr_ResponseStatus :: int
  dr_Source :: string
  dr_ID :: string
  dr_Type :: string

text \<open>Which step of a query fails: the query, the scan of a row, or the end of the iteration.\<close>

record list_env =
  lz_query_fails :: bool
  lz_scan_fails :: "nat option"
  lz_rows_fail :: bool

definition event_view :: "event_row \<Rightarrow> EventRow" where
  "event_view r =
     \<lparr>er_Sequence = ev_sequence r, er_Source = ev_source r, er_ID = ev_id r, er_Type = ev_type r,
      er_Subject = (case ev_subject r of None \<Rightarrow> [] | Some s \<Rightarrow> s),
      er_Payload = (if ev_pruned_at r = None then ev_payload r else []),
      er_TransactionID = ev_transaction_id r, er_MessageLSN = ev_message_lsn r, er_CommitLSN = ev_commit_lsn r,
      er_CommitEndLSN = ev_commit_end_lsn r, er_CommitTime = ev_commit_time r,
      er_MessageIndex = ev_message_index r, er_PayloadPrunedAt = ev_pruned_at r\<rparr>"

text \<open>A failing scan returns no rows, a failing iteration the rows read so far.\<close>

definition query_rows :: "list_env \<Rightarrow> string \<Rightarrow> 'a list \<Rightarrow> 'a list \<times> string option" where
  "query_rows e what rows =
     (if lz_query_fails e then ([], Some what)
      else if (case lz_scan_fails e of None \<Rightarrow> False | Some n \<Rightarrow> n < length rows) then ([], Some what)
      else (rows, if lz_rows_fail e then Some what else None))"

definition ListEvents :: "list_env \<Rightarrow> int \<Rightarrow> db \<Rightarrow> EventRow list \<times> string option" where
  "ListEvents e limit d =
     (if limit < 1 \<or> limit > 1000 then ([], Some ''limit must be between 1 and 1000'')
      else query_rows e ''list spool events'' (map event_view (take (nat limit) (sort_key ev_sequence (db_events d)))))"

fun state_text :: "delivery_state \<Rightarrow> string" where
  "state_text Pending = ''pending''"
| "state_text RetryWait = ''retry_wait''"
| "state_text Delivered = ''delivered''"
| "state_text DeadLetter = ''dead_letter''"

definition delivery_view :: "delivery_row \<times> sink_row \<times> event_row \<Rightarrow> DeliveryRow" where
  "delivery_view j =
     (case j of (w, s, r) \<Rightarrow>
        \<lparr>dr_EventSequence = dl_event w, dr_SinkName = sk_name s, dr_State = state_text (dl_state w),
         dr_Attempts = dl_attempts w, dr_NextAttemptAt = dl_next_attempt_at w, dr_LastAttemptAt = dl_last_attempt_at w,
         dr_DeliveredAt = dl_delivered_at w, dr_DeadLetteredAt = dl_dead_lettered_at w,
         dr_LastError = (case dl_last_error w of None \<Rightarrow> [] | Some err \<Rightarrow> err),
         dr_ResponseStatus = (case dl_response_status w of None \<Rightarrow> 0 | Some n \<Rightarrow> n),
         dr_Source = ev_source r, dr_ID = ev_id r, dr_Type = ev_type r\<rparr>)"

definition joined_deliveries :: "db \<Rightarrow> (delivery_row \<times> sink_row \<times> event_row) list" where
  "joined_deliveries d =
     [(w, s, r). w \<leftarrow> db_deliveries d, s \<leftarrow> db_sinks d, sk_id s = dl_sink w, r \<leftarrow> db_events d, ev_sequence r = dl_event w]"

definition ListDeliveries :: "list_env \<Rightarrow> string \<Rightarrow> int \<Rightarrow> db \<Rightarrow> DeliveryRow list \<times> string option" where
  "ListDeliveries e state limit d =
     (if limit < 1 \<or> limit > 1000 then ([], Some ''limit must be between 1 and 1000'')
      else if state \<notin> {'''', ''pending'', ''retry_wait'', ''delivered'', ''dead_letter''}
        then ([], Some ''state must be pending, retry_wait, delivered, or dead_letter'')
      else query_rows e ''list deliveries''
        (map delivery_view (take (nat limit) (sort_key (\<lambda>(w, s, r). (dl_event w, sk_id s))
           (filter (\<lambda>(w, s, r). state = [] \<or> state_text (dl_state w) = state) (joined_deliveries d))))))"

definition SchemaVersion :: "bool \<Rightarrow> db \<Rightarrow> nat option" where
  "SchemaVersion fails d = (if fails \<or> db_schema d = [] then None else Some (schema_version d))"

definition EventCount :: "bool \<Rightarrow> db \<Rightarrow> nat option" where
  "EventCount fails d = (if fails then None else Some (length (db_events d)))"

definition ParseSequence :: "string \<Rightarrow> int option" where
  "ParseSequence value = ParseInt value"

section \<open>What the listings show\<close>

lemma filter_unique: "distinct (map f xs) \<Longrightarrow> x \<in> set xs \<Longrightarrow> filter (\<lambda>y. f y = f x) xs = [x]"
proof (induction xs)
  case (Cons y ys)
  show ?case
  proof (cases "x = y")
    case True
    then have "filter (\<lambda>z. f z = f x) ys = []" using Cons.prems(1) by (auto simp: filter_empty_conv image_iff)
    then show ?thesis using True by simp
  next
    case False
    then have "x \<in> set ys" "f y \<noteq> f x" using Cons.prems by auto
    then show ?thesis using Cons by simp
  qed
qed simp

lemma concat_singletons: "(\<And>w. w \<in> set ws \<Longrightarrow> g w = [f w]) \<Longrightarrow> concat (map g ws) = map f ws"
  by (induction ws) simp_all

text \<open>Under the references of the schema the joins look up exactly one sink and one event per delivery.\<close>

lemma joined_lookup:
  assumes "core_inv x d"
  shows "\<exists>s r. joined_deliveries d = map (\<lambda>w. (w, s w, r w)) (db_deliveries d) \<and>
    (\<forall>w \<in> set (db_deliveries d). s w \<in> set (db_sinks d) \<and> sk_id (s w) = dl_sink w \<and>
       r w \<in> set (db_events d) \<and> ev_sequence (r w) = dl_event w)"
proof -
  have keys: "distinct (map sk_id (db_sinks d))" "distinct (map ev_sequence (db_events d))" and refs: "refs_ok d"
    using assms by (auto simp: core_inv_def keys_ok_def dest: strict_sorted_distinct)
  have "\<forall>w \<in> set (db_deliveries d). \<exists>sr. fst sr \<in> set (db_sinks d) \<and> sk_id (fst sr) = dl_sink w \<and>
      snd sr \<in> set (db_events d) \<and> ev_sequence (snd sr) = dl_event w"
    using refs by (force simp: refs_ok_def image_iff)
  then obtain sr where sr: "\<forall>w \<in> set (db_deliveries d). fst (sr w) \<in> set (db_sinks d) \<and> sk_id (fst (sr w)) = dl_sink w \<and>
      snd (sr w) \<in> set (db_events d) \<and> ev_sequence (snd (sr w)) = dl_event w"
    by metis
  have concat_if: "concat (map (\<lambda>s. if P s then f s else []) xs) = concat (map f (filter P xs))" for P xs
    and f :: "'a \<Rightarrow> 'b list" by (induction xs) simp_all
  have "concat (map (\<lambda>s. if sk_id s = dl_sink w then concat (map (\<lambda>r. if ev_sequence r = dl_event w then [(w, s, r)] else [])
      (db_events d)) else []) (db_sinks d)) = [(w, fst (sr w), snd (sr w))]" if "w \<in> set (db_deliveries d)" for w
    using filter_unique [OF keys(1), of "fst (sr w)"] filter_unique [OF keys(2), of "snd (sr w)"] sr that
    by (simp add: concat_if)
  then have "joined_deliveries d = map (\<lambda>w. (w, fst (sr w), snd (sr w))) (db_deliveries d)"
    unfolding joined_deliveries_def by (rule concat_singletons)
  then show ?thesis using sr by (intro exI [of _ "\<lambda>w. fst (sr w)"] exI [of _ "\<lambda>w. snd (sr w)"] conjI)
qed

lemma query_rows_ok: "query_rows e what rows = (out, None) \<Longrightarrow> out = rows"
  by (auto simp: query_rows_def split: if_splits)

lemma sort_key_map: "sort_key k (map f xs) = map f (sort_key (\<lambda>x. k (f x)) xs)"
proof (induction xs)
  case (Cons y ys)
  have "insort_key k (f y) (map f zs) = map f (insort_key (\<lambda>x. k (f x)) y zs)" for zs by (induction zs) simp_all
  then show ?case using Cons by simp
qed simp

lemma sort_key_cong: "(\<And>y. y \<in> set xs \<Longrightarrow> k y = l y) \<Longrightarrow> sort_key k xs = sort_key l xs"
proof (induction xs)
  case (Cons y ys)
  have "insort_key k y zs = insort_key l y zs" if "set zs \<subseteq> set ys" for zs
    using that Cons.prems by (induction zs) auto
  then show ?case using Cons by simp
qed simp

text \<open>The listings show what the spool holds. Events come in capture order, up to the limit,
  with the payload of a retained event and none of a pruned one. Every delivery with the
  requested state appears once, ordered by event and sink, with the name of its sink and the
  identity of its event. The limit must be between 1 and 1000.\<close>

theorem listings_exact:
  assumes "db_inv x d" and events: "ListEvents e n d = (events, None)"
    and listed: "ListDeliveries e' state limit d = (rows, None)"
  shows "1 \<le> n \<and> n \<le> 1000 \<and> events = map event_view (take (nat n) (db_events d)) \<and>
    1 \<le> limit \<and> limit \<le> 1000 \<and>
    (\<exists>s r. rows = map (\<lambda>w. delivery_view (w, s w, r w)) (take (nat limit) (sort_key delivery_key
        (filter (\<lambda>w. state = [] \<or> state_text (dl_state w) = state) (db_deliveries d)))) \<and>
       (\<forall>w \<in> set (db_deliveries d). s w \<in> set (db_sinks d) \<and> sk_id (s w) = dl_sink w \<and>
          r w \<in> set (db_events d) \<and> ev_sequence (r w) = dl_event w))"
proof -
  have core: "core_inv x d" using assms(1) by blast
  then have "sorted (map ev_sequence (db_events d))"
    by (auto simp: core_inv_def keys_ok_def strict_sorted_iff)
  then have sorted: "sort_key ev_sequence (db_events d) = db_events d" by (rule sort_key_id_if_sorted)
  have evs: "1 \<le> n \<and> n \<le> 1000 \<and> events = map event_view (take (nat n) (db_events d))"
    using events by (auto simp: ListEvents_def sorted dest: query_rows_ok split: if_splits)
  have limits: "1 \<le> limit \<and> limit \<le> 1000" using listed by (auto simp: ListDeliveries_def split: if_splits)
  obtain s r where join: "joined_deliveries d = map (\<lambda>w. (w, s w, r w)) (db_deliveries d)"
    and look: "\<forall>w \<in> set (db_deliveries d). s w \<in> set (db_sinks d) \<and> sk_id (s w) = dl_sink w \<and>
       r w \<in> set (db_events d) \<and> ev_sequence (r w) = dl_event w"
    using joined_lookup [OF core] by blast
  let ?ws = "filter (\<lambda>w. state = [] \<or> state_text (dl_state w) = state) (db_deliveries d)"
  have "sort_key (\<lambda>w. (dl_event w, sk_id (s w))) ?ws = sort_key delivery_key ?ws"
    by (rule sort_key_cong) (use look in auto)
  then have "rows = map (\<lambda>w. delivery_view (w, s w, r w)) (take (nat limit) (sort_key delivery_key ?ws))"
    using listed
    by (auto simp: ListDeliveries_def join filter_map comp_def sort_key_map take_map dest!: query_rows_ok split: if_splits)
  with look have "\<exists>s r. rows = map (\<lambda>w. delivery_view (w, s w, r w)) (take (nat limit) (sort_key delivery_key ?ws)) \<and>
       (\<forall>w \<in> set (db_deliveries d). s w \<in> set (db_sinks d) \<and> sk_id (s w) = dl_sink w \<and>
          r w \<in> set (db_events d) \<and> ev_sequence (r w) = dl_event w)"
    by (intro exI [of _ s] exI [of _ r] conjI)
  with evs limits show ?thesis by blast
qed

section \<open>Concrete files\<close>

definition quiet_open :: open_env where
  "quiet_open = \<lparr>oz_mkdir_fails = False, oz_lstat = LstatOther, oz_open_fails = False, oz_pragma_fails = (\<lambda>_. False),
     oz_version_error = None, oz_no_table = ''no such table: schema_migrations'', oz_begin_fails = (\<lambda>_. False),
     oz_exec_fails = (\<lambda>_. False), oz_commit = (\<lambda>_. CommitOk), oz_chmod_fails = False\<rparr>"

text \<open>A spool of the first version with one event, and a file from a later program.\<close>

definition old_file :: spool_file where
  "old_file = \<lparr>sf_db = empty_db\<lparr>db_schema := [1],
     db_events := [captured_row example_externals example_event 1 10], db_events_seq := 1\<rparr>, sf_wal = True, sf_owner_only = False\<rparr>"

definition newer_file :: spool_file where
  "newer_file = \<lparr>sf_db = example_db\<lparr>db_schema := [1, 2, 3, 4]\<rparr>, sf_wal = True, sf_owner_only = True\<rparr>"

definition quiet_list :: list_env where
  "quiet_list = \<lparr>lz_query_fails = False, lz_scan_fails = None, lz_rows_fail = False\<rparr>"

lemma old_file_at: "schema_at 1 (sf_db old_file)"
  by (simp add: schema_at_def old_file_def empty_db_def captured_row_def currentSchemaVersion_def)

lemma quiet_open_quiet: "open_quietly quiet_open"
proof -
  have "sublist ''no such table'' (''no such table'' @ '': schema_migrations'')" by (rule sublist_append_rightI)
  then show ?thesis by (simp add: open_quietly_def quiet_open_def)
qed

text \<open>The second migration is lost: the event stays and the file is still at the first version.\<close>

theorem Open_keeps_rows_witness:
  "\<exists>k \<ge> 1. sf_db (fst (Open (quiet_open\<lparr>oz_commit := (\<lambda>_. CommitLost)\<rparr>) ''spool.db'' old_file)) =
     (sf_db old_file)\<lparr>db_schema := [1..<Suc k]\<rparr>"
  using Open_keeps_rows [OF old_file_at, of "quiet_open\<lparr>oz_commit := (\<lambda>_. CommitLost)\<rparr>" "''spool.db''"]
  by (metis prod.collapse)

theorem Open_resumes_witness: "\<exists>f' s. Open quiet_open ''spool.db'' old_file = (f', Inr s)"
  using Open_resumes [OF old_file_at _ quiet_open_quiet, of "''spool.db''"] by auto

theorem Open_refuses_newer_witness: "\<exists>f' err. Open quiet_open ''spool.db'' newer_file = (f', Inl err)"
  using Open_refuses_newer [of newer_file quiet_open "''spool.db''"]
  by (auto simp: newer_file_def schema_version_def currentSchemaVersion_def)

theorem listings_exact_witness:
  "fst (ListEvents quiet_list 20 captured_db) = [event_view (captured_row example_externals example_event 1 10)] \<and>
   length (fst (ListDeliveries quiet_list ''pending'' 20 captured_db)) = 1"
proof -
  have ok: "snd (ListEvents quiet_list 20 captured_db) = None" "snd (ListDeliveries quiet_list ''pending'' 20 captured_db) = None"
    by (simp_all add: ListEvents_def ListDeliveries_def query_rows_def quiet_list_def)
  note listings_exact [OF captured_db_inv, of quiet_list 20 _ quiet_list "''pending''" 20]
  from this [of "fst (ListEvents quiet_list 20 captured_db)" "fst (ListDeliveries quiet_list ''pending'' 20 captured_db)"] ok
  show ?thesis by (auto simp: prod_eq_iff captured_db_def new_delivery_def)
qed

end
