(* ===== verification/Relay_App.thy ===== *)
theory Relay_App
  imports Delivery_Worker Delivery_Sinks Monitoring Store_Open "HOL-Library.AList"
begin

text \<open>
  The daemon, \<open>internal/app/app.go\<close>: opening the spool, building and registering the sinks,
  starting the capture, delivery and monitoring components, and waiting for all of them. The
  components run concurrently; waiting for them is a transition system in which they may return
  in any order.
\<close>

section \<open>Starting\<close>

datatype configured_sink = WebhookSink WebhookSender | StdoutSink

datatype app_error =
    AppStore store_error
  | AppConfigureSink string string
  | AppUnsupportedSink string

datatype task =
    CaptureTask Replicator
  | DeliveryTask Worker "(string \<times> configured_sink) list"
  | MonitorTask Server string

record app_env =
  az_open :: open_env
  az_getenv :: "string \<Rightarrow> string option"
  az_configure :: configure_env

text \<open>The loop over the configured sinks; the map of sinks is an association list.\<close>

fun build_sinks ::
    "externals \<Rightarrow> (string \<Rightarrow> string option) \<Rightarrow> duration \<Rightarrow> SinkConfig list \<Rightarrow> (string \<times> configured_sink) list \<Rightarrow>
     SinkRegistration list \<Rightarrow> app_error + (string \<times> configured_sink) list \<times> SinkRegistration list" where
  "build_sinks x getenv timeout [] sinks regs = Inr (sinks, regs)"
| "build_sinks x getenv timeout (c # cs) sinks regs =
     (if sc_Type c = ''webhook'' then
        (case NewWebhookSender x getenv c timeout of
           Inl err \<Rightarrow> Inl (AppConfigureSink (sc_Name c) err)
         | Inr (sender, registration) \<Rightarrow>
             build_sinks x getenv timeout cs (AList.update (sc_Name c) (WebhookSink sender) sinks) (regs @ [registration]))
      else if sc_Type c = ''stdout'' then
        build_sinks x getenv timeout cs (AList.update (sc_Name c) StdoutSink sinks) (regs @ [NewStdoutSink x (sc_Name c)])
      else Inl (AppUnsupportedSink (sc_Type c)))"

definition app_tasks :: "Config \<Rightarrow> (string \<times> configured_sink) list \<Rightarrow> task list" where
  "app_tasks cfg sinks =
     [CaptureTask (NewReplicator cfg)] @
     (let c = cfg_Delivery cfg in
      if length sinks > 0
      then [DeliveryTask (NewWorker (dc_PollInterval c) (rc_InitialDelay (dc_Retry c)) (rc_MaxDelay (dc_Retry c))
              (rc_MaxAttempts (dc_Retry c))) sinks]
      else []) @
     (let c = cfg_Monitoring cfg in
      if mc_Listen c \<noteq> []
      then [MonitorTask (New (sp_Path (cfg_Spool cfg)) (mc_SampleInterval c)) (mc_Listen c)]
      else [])"

definition app_Run :: "externals \<Rightarrow> app_env \<Rightarrow> Config \<Rightarrow> spool_file \<Rightarrow> spool_file \<times> (app_error + task list)" where
  "app_Run x e cfg f =
     (case Open (az_open e) (sp_Path (cfg_Spool cfg)) f of
        (f1, Inl err) \<Rightarrow> (f1, Inl (AppStore err))
      | (f1, Inr store) \<Rightarrow>
          (case build_sinks x (az_getenv e) (dc_RequestTimeout (cfg_Delivery cfg)) (dc_Sinks (cfg_Delivery cfg)) [] [] of
             Inl err \<Rightarrow> (f1, Inl err)
           | Inr (sinks, registrations) \<Rightarrow>
               (case ConfigureSinks (az_configure e) registrations (sf_db f1) of
                  (d, Some err) \<Rightarrow> (f1\<lparr>sf_db := d\<rparr>, Inl (AppStore err))
                | (d, None) \<Rightarrow> (f1\<lparr>sf_db := d\<rparr>, Inr (app_tasks cfg sinks)))))"

section \<open>Waiting\<close>

text \<open>
  \<open>runTogether\<close> after it has started \<open>n\<close> tasks: how many still run, the results waiting in the
  channel, whether the shared context is cancelled, the first error received and how many
  results are still to be received.
\<close>

record 'e together =
  tg_running :: nat
  tg_results :: "'e option list"
  tg_cancelled :: bool
  tg_firstError :: "'e option"
  tg_left :: nat

definition together_start :: "nat \<Rightarrow> 'e together" where
  "together_start n = \<lparr>tg_running = n, tg_results = [], tg_cancelled = False, tg_firstError = None, tg_left = n\<rparr>"

inductive task_returns :: "'e option \<Rightarrow> 'e together \<Rightarrow> 'e together \<Rightarrow> bool" where
  "tg_running s = Suc n \<Longrightarrow> task_returns r s (s\<lparr>tg_running := n, tg_results := tg_results s @ [r]\<rparr>)"

inductive receive_result :: "'e together \<Rightarrow> 'e together \<Rightarrow> bool" where
  "tg_left s = Suc n \<Longrightarrow> tg_results s = r # rs \<Longrightarrow>
     receive_result s (s\<lparr>tg_results := rs, tg_cancelled := True,
       tg_firstError := (if tg_firstError s = None \<and> r \<noteq> None then r else tg_firstError s), tg_left := n\<rparr>)"

text \<open>The states it can be in, with the results of the tasks in the order they returned.\<close>

inductive runTogether :: "nat \<Rightarrow> 'e option list \<Rightarrow> 'e together \<Rightarrow> bool" where
  "runTogether n [] (together_start n)"
| "runTogether n rs s \<Longrightarrow> task_returns r s s' \<Longrightarrow> runTogether n (rs @ [r]) s'"
| "runTogether n rs s \<Longrightarrow> receive_result s s' \<Longrightarrow> runTogether n rs s'"

inductive_cases task_returnsE: "task_returns r s s'"
inductive_cases receive_resultE: "receive_result s s'"

text \<open>The first error of a list of results.\<close>

fun first_error :: "'e option list \<Rightarrow> 'e option" where
  "first_error [] = None"
| "first_error (None # rs) = first_error rs"
| "first_error (Some err # rs) = Some err"

lemma first_error_snoc: "first_error (rs @ [r]) = (if first_error rs = None \<and> r \<noteq> None then r else first_error rs)"
  by (induction rs rule: first_error.induct) (cases r; simp)+

lemma runTogether_inv:
  assumes "runTogether n rs s"
  shows "\<exists>received. rs = received @ tg_results s \<and> tg_firstError s = first_error received \<and>
    tg_cancelled s = (received \<noteq> []) \<and> length received + tg_left s = n \<and> tg_running s + length rs = n"
  using assms
proof (induction rule: runTogether.induct)
  case (1 n)
  show ?case by (simp add: together_start_def)
next
  case (2 n rs s r s')
  then show ?case by (auto elim!: task_returnsE)
next
  case (3 n rs s s')
  then obtain received where i: "rs = received @ tg_results s" "tg_firstError s = first_error received"
    "tg_cancelled s = (received \<noteq> [])" "length received + tg_left s = n" "tg_running s + length rs = n" by blast
  from 3(2) show ?case
  proof (cases rule: receive_result.cases)
    case (1 k r ks)
    with i show ?thesis by (intro exI [of _ "received @ [r]"]) (simp add: first_error_snoc)
  qed
qed

lemma first_error_None: "first_error rs = None \<longleftrightarrow> (\<forall>r \<in> set rs. r = None)"
  by (induction rs rule: first_error.induct) auto

definition together_step :: "'e together \<Rightarrow> 'e together \<Rightarrow> bool" where
  "together_step s s' \<longleftrightarrow> (\<exists>r. task_returns r s s') \<or> receive_result s s'"

definition together_measure :: "'e together \<Rightarrow> nat" where
  "together_measure s = 2 * tg_running s + length (tg_results s)"

lemma together_step_measure:
  "together_step s s' \<Longrightarrow> tg_left s = tg_running s + length (tg_results s) \<Longrightarrow>
     together_measure s = Suc (together_measure s') \<and> tg_left s' = tg_running s' + length (tg_results s')"
  by (auto simp: together_step_def together_measure_def elim!: task_returnsE receive_resultE)

lemma together_steps_measure:
  "(together_step ^^ m) (together_start n) s \<Longrightarrow>
     m + together_measure s = 2 * n \<and> tg_left s = tg_running s + length (tg_results s)"
proof (induction m arbitrary: s)
  case 0
  then show ?case by (auto simp: together_start_def together_measure_def)
next
  case (Suc m)
  then obtain s1 where "(together_step ^^ m) (together_start n) s1" "together_step s1 s" by auto
  with Suc.IH [of s1] together_step_measure [of s1 s] show ?case by auto
qed

section \<open>The sinks\<close>

lemma map_of_update_dom: "fst ` set (AList.update k v al) = insert k (fst ` set al)"
  by (induction al) auto

lemma AList_update_in: "p \<in> set (AList.update k v al) \<Longrightarrow> p = (k, v) \<or> p \<in> set al"
  by (induction al) (auto split: if_splits)

lemma NewWebhookSender_names:
  "NewWebhookSender x g c t = Inr (sender, reg) \<Longrightarrow> sr_Name reg = sc_Name c \<and> wh_hooks sender = no_hooks \<and> wh_endpoint sender = sc_URL c"
  by (auto simp: NewWebhookSender_def NewWebhookSenderWithHooks_def split: sum.splits if_splits)

text \<open>Sinks that the program itself builds have no crash hooks.\<close>

definition production_sinks :: "(string \<times> configured_sink) list \<Rightarrow> bool" where
  "production_sinks sinks \<longleftrightarrow> (\<forall>n s. (n, WebhookSink s) \<in> set sinks \<longrightarrow> wh_hooks s = no_hooks)"

lemma build_sinks_correct:
  "build_sinks x g t cs sinks regs = Inr (sinks', regs') \<Longrightarrow> fst ` set sinks = sr_Name ` set regs \<Longrightarrow> production_sinks sinks \<Longrightarrow>
     fst ` set sinks' = sr_Name ` set regs' \<and> sr_Name ` set regs' = sr_Name ` set regs \<union> sc_Name ` set cs \<and> production_sinks sinks'"
proof (induction x g t cs sinks regs rule: build_sinks.induct)
  case (2 x g t c cs sinks regs)
  have update: "production_sinks (AList.update n v sinks)" if "\<forall>s. v = WebhookSink s \<longrightarrow> wh_hooks s = no_hooks" for n v
    using 2(5) that unfolding production_sinks_def by (metis AList_update_in prod.inject)
  show ?case
  proof (cases "sc_Type c = ''webhook''")
    case True
    then obtain sender reg where new: "NewWebhookSender x g c t = Inr (sender, reg)"
      using 2(3) by (auto split: sum.splits)
    have "build_sinks x g t cs (AList.update (sc_Name c) (WebhookSink sender) sinks) (regs @ [reg]) = Inr (sinks', regs')"
      using 2(3) True new by simp
    from 2(1) [OF True new refl this] NewWebhookSender_names [OF new] update 2(4) show ?thesis
      by (auto simp: map_of_update_dom)
  next
    case False
    then have out: "sc_Type c = ''stdout''" using 2(3) by (auto split: if_splits)
    have "build_sinks x g t cs (AList.update (sc_Name c) StdoutSink sinks) (regs @ [NewStdoutSink x (sc_Name c)]) = Inr (sinks', regs')"
      using 2(3) False out by simp
    from 2(2) [OF False out this] update 2(4) show ?thesis by (auto simp: map_of_update_dom NewStdoutSink_def)
  qed
qed simp

lemma app_Run_started:
  assumes at: "schema_at k (sf_db f)" and inv: "db_inv x (sf_db f)" and run: "app_Run x e cfg f = (f', Inr tasks)"
  obtains sinks where "tasks = app_tasks cfg sinks" "production_sinks sinks" "fst ` set sinks = sc_Name ` set (dc_Sinks (cfg_Delivery cfg))"
    "db_inv x (sf_db f')" "active_names (sf_db f') = sc_Name ` set (dc_Sinks (cfg_Delivery cfg))"
    "db_events (sf_db f') = db_events (sf_db f)" "db_metadata (sf_db f') = db_metadata (sf_db f)"
    "\<exists>ws. db_deliveries (sf_db f') = db_deliveries (sf_db f) @ ws"
proof -
  obtain f1 store sinks regs d where opened: "Open (az_open e) (sp_Path (cfg_Spool cfg)) f = (f1, Inr store)"
    and built: "build_sinks x (az_getenv e) (dc_RequestTimeout (cfg_Delivery cfg)) (dc_Sinks (cfg_Delivery cfg)) [] [] = Inr (sinks, regs)"
    and conf: "ConfigureSinks (az_configure e) regs (sf_db f1) = (d, None)"
    and res: "f' = f1\<lparr>sf_db := d\<rparr>" "tasks = app_tasks cfg sinks"
    using run by (auto simp: app_Run_def split: prod.splits sum.splits option.splits)
  obtain k' where f1: "sf_db f1 = (sf_db f)\<lparr>db_schema := [1..<Suc k']\<rparr>" using Open_database [OF at opened] by blast
  then have inv1: "db_inv x (sf_db f1)" using inv by (simp add: db_inv_schema)
  have "configure_tx (az_configure e) regs (sf_db f1) = Inr d"
    by (cases rule: ConfigureSinks_cases [of "az_configure e" regs "sf_db f1"]) (use conf in auto)
  note c = configure_tx_correct [OF inv1 this]
  have b: "fst ` set sinks = sr_Name ` set regs" "sr_Name ` set regs = sc_Name ` set (dc_Sinks (cfg_Delivery cfg))" "production_sinks sinks"
    using build_sinks_correct [OF built] by (simp_all add: production_sinks_def)
  show ?thesis using that [of sinks] res c b f1 by simp
qed

text \<open>What a configured sink does with an item, given the network and the standard output.\<close>

definition configured_Send ::
    "externals \<Rightarrow> (bytes \<Rightarrow> bytes \<Rightarrow> digest) \<Rightarrow> http_env \<Rightarrow> (bytes \<Rightarrow> bool) \<Rightarrow> configured_sink \<Rightarrow> sink" where
  "configured_Send x hmac h write_fails s item =
     (case s of
        WebhookSink sender \<Rightarrow> snd (WebhookSender_Send x hmac sender h item)
      | StdoutSink \<Rightarrow> Some (snd (StdoutSink_Send write_fails item)))"

definition sink_table ::
    "externals \<Rightarrow> (bytes \<Rightarrow> bytes \<Rightarrow> digest) \<Rightarrow> http_env \<Rightarrow> (bytes \<Rightarrow> bool) \<Rightarrow> (string \<times> configured_sink) list \<Rightarrow>
     string \<Rightarrow> sink option" where
  "sink_table x hmac h write_fails sinks name = map_option (configured_Send x hmac h write_fails) (map_of sinks name)"

context delivery_store
begin

lemma Run_sink_found:
  "good s \<Longrightarrow> \<forall>t \<in> set ts. active s \<subseteq> dom (tk_sinks t) \<Longrightarrow> Run ops w ts s = (s', items, delays, r) \<Longrightarrow>
     r \<noteq> Returned (Some (NoSinkConfigured n))"
proof (induction ts arbitrary: s s' items delays r)
  case (Cons t ts)
  obtain s1 sent out where one: "ProcessOne ops w (tk_sinks t) (tk_env t) s = (s1, sent, out)" by (metis prod_cases3)
  have found: "out \<noteq> Err (NoSinkConfigured n)"
    using ProcessOne_sink_found [OF Cons.prems(1), of "tk_sinks t" w "tk_env t" n] Cons.prems(2) one by simp
  have s1: "good s1" "active s1 = active s"
    using ProcessOne_good [OF Cons.prems(1), of w "tk_sinks t" "tk_env t"] ProcessOne_active [of w "tk_sinks t" "tk_env t" s] one
    by simp_all
  obtain s2 items2 delays2 r2 where rest: "Run ops w ts s1 = (s2, items2, delays2, r2)" by (metis prod_cases4)
  then have "r2 \<noteq> Returned (Some (NoSinkConfigured n))" using Cons.IH [OF s1(1)] Cons.prems(2) s1(2) by simp
  then show ?case using Cons.prems(3) one rest found by (cases out) (auto split: if_splits)
qed simp

end

lemma sent_item:
  assumes "ProcessOne sqlite_ops w sinks e d = (d', Some item, out)"
  shows "NextDueDelivery (ae_load_fails e) (ae_load_at e) d = Inr (Some item)"
  using assms by (auto simp: ProcessOne_def sqlite_ops_def split: sum.splits option.splits prod.splits if_splits)

lemma StdoutSink_Send_success:
  "ar_Success (snd (StdoutSink_Send write_fails item)) \<Longrightarrow> \<not> write_fails (dv_Payload item @ [CHR 0x0A])"
  by (auto simp: StdoutSink_Send_def no_result_def Let_def split: if_splits)

section \<open>Properties\<close>

text \<open>(C25) A start that succeeds leaves a spool that satisfies the invariant, with the captured events,
  the checkpoint and the existing deliveries as they were, whose active sinks are exactly the
  configured ones. It starts capture, and delivery with one sender per configured sink exactly
  when there are sinks.\<close>

theorem app_started:
  assumes "schema_at k (sf_db f)" and "db_inv x (sf_db f)" and "app_Run x e cfg f = (f', Inr tasks)"
  shows "db_inv x (sf_db f') \<and> active_names (sf_db f') = sc_Name ` set (dc_Sinks (cfg_Delivery cfg)) \<and>
    db_events (sf_db f') = db_events (sf_db f) \<and> db_metadata (sf_db f') = db_metadata (sf_db f) \<and>
    (\<exists>ws. db_deliveries (sf_db f') = db_deliveries (sf_db f) @ ws) \<and>
    hd tasks = CaptureTask (NewReplicator cfg) \<and>
    ((\<exists>w sinks. DeliveryTask w sinks \<in> set tasks) \<longleftrightarrow> dc_Sinks (cfg_Delivery cfg) \<noteq> []) \<and>
    (\<forall>w sinks. DeliveryTask w sinks \<in> set tasks \<longrightarrow> dom (map_of sinks) = sc_Name ` set (dc_Sinks (cfg_Delivery cfg)))"
proof -
  obtain sinks where s: "tasks = app_tasks cfg sinks" "fst ` set sinks = sc_Name ` set (dc_Sinks (cfg_Delivery cfg))"
    and rest: "db_inv x (sf_db f')" "active_names (sf_db f') = sc_Name ` set (dc_Sinks (cfg_Delivery cfg))"
    "db_events (sf_db f') = db_events (sf_db f)" "db_metadata (sf_db f') = db_metadata (sf_db f)"
    "\<exists>ws. db_deliveries (sf_db f') = db_deliveries (sf_db f) @ ws"
    using app_Run_started [OF assms] by metis
  have "sinks = [] \<longleftrightarrow> dc_Sinks (cfg_Delivery cfg) = []" using s(2) by (metis image_is_empty set_empty)
  then have "(\<exists>w ss. DeliveryTask w ss \<in> set tasks) \<longleftrightarrow> dc_Sinks (cfg_Delivery cfg) \<noteq> []"
    "\<forall>w ss. DeliveryTask w ss \<in> set tasks \<longrightarrow> ss = sinks" "hd tasks = CaptureTask (NewReplicator cfg)"
    by (auto simp: s(1) app_tasks_def Let_def)
  moreover have "dom (map_of sinks) = sc_Name ` set (dc_Sinks (cfg_Delivery cfg))"
    using s(2) by (simp add: dom_map_of_conv_image_fst)
  ultimately show ?thesis using rest by blast
qed

text \<open>A started worker always finds the sink of the delivery it has to send: over any run of the
  daemon's worker on the spool it was started with, whatever the network, the disk and the clock
  do, the error \<open>no configured sink\<close> does not occur.\<close>

theorem app_worker_sinks:
  assumes "schema_at k (sf_db f)" and "db_inv x (sf_db f)" and "app_Run x e cfg f = (f', Inr tasks)"
    and "DeliveryTask w sinks \<in> set tasks"
    and "\<forall>t \<in> set ts. \<exists>hmac h write_fails. tk_sinks t = sink_table x hmac h write_fails sinks"
    and "Run sqlite_ops w ts (sf_db f') = (d', items, delays, r)"
  shows "r \<noteq> Returned (Some (NoSinkConfigured n))"
proof -
  obtain ss where s: "tasks = app_tasks cfg ss" "fst ` set ss = sc_Name ` set (dc_Sinks (cfg_Delivery cfg))"
    and inv: "db_inv x (sf_db f')" "active_names (sf_db f') = sc_Name ` set (dc_Sinks (cfg_Delivery cfg))"
    using app_Run_started [OF assms(1-3)] by metis
  have "ss = sinks" using assms(4) by (auto simp: s(1) app_tasks_def Let_def split: if_splits)
  then have dom: "active_names (sf_db f') = dom (map_of sinks)" using s(2) inv(2) by (simp add: dom_map_of_conv_image_fst)
  have "dom (sink_table x hmac h wf sinks) = dom (map_of sinks)" for hmac h wf
    by (auto simp: sink_table_def dom_def)
  then have "\<forall>t \<in> set ts. active_names (sf_db f') \<subseteq> dom (tk_sinks t)" using assms(5) dom by (metis order_refl)
  then show ?thesis using sqlite_store.Run_sink_found [OF inv(1) _ assms(6)] by blast
qed

text \<open>(C3) Delivered means accepted. When an iteration of the worker turns a record into \<open>delivered\<close>,
  then in this iteration the sink of that record received the captured payload, unchanged since
  its digest was recorded: a webhook answered with a status in 200..299 to a POST to its
  configured URL whose body is the payload and whose idempotency key is that of the delivery, or
  the line was written to standard output.\<close>

theorem delivered_means_accepted:
  assumes inv: "db_inv x d" and one: "ProcessOne sqlite_ops w (sink_table x hmac h write_fails sinks) e d = (d', sent, out)"
    and before: "row_at d key = Some v" "dl_state v \<noteq> Delivered"
    and after: "row_at d' key = Some v'" "dl_state v' = Delivered"
  shows "\<exists>s r item. s \<in> set (db_sinks d) \<and> r \<in> set (db_events d) \<and> key = (ev_sequence r, sk_id s) \<and>
    Sum256 x (ev_payload r) = ev_payload_sha256 r \<and>
    (dv_SinkName item, dv_Source item, dv_ID item) = (sk_name s, ev_source r, ev_id r) \<and>
    (case map_of sinks (sk_name s) of
       None \<Rightarrow> False
     | Some StdoutSink \<Rightarrow> \<not> write_fails (ev_payload r @ [CHR 0x0A])
     | Some (WebhookSink sender) \<Rightarrow>
         (\<exists>request status retryAfter. rq_method request = ''POST'' \<and> rq_url request = wh_endpoint sender \<and>
            rq_body request = ev_payload r \<and> (''Idempotency-Key'', deliveryKey x item) \<in> set (rq_headers request) \<and>
            he_reply h request = Response status retryAfter \<and> 200 \<le> status \<and> status < 300))"
proof -
  from sqlite_store.ProcessOne_effect [OF inv one] obtain item send result where
    item: "sent = Some item" "sink_table x hmac h write_fails sinks (dv_SinkName item) = Some send" "send item = Some result"
    and rew: "rewritten (row_at d) item (attempt_row w (ae_record_at e) item result) (row_at d')"
    using before after by (metis option.inject)
  have key: "key = item_key item"
    using rew before after by (auto simp: rewritten_def split: if_splits)
  have ok: "ar_Success result"
    using rew after by (auto simp: rewritten_def key attempt_row_state split: if_splits)
  obtain s u r where di: "item = delivery_item (s, u, r)" "(s, u, r) \<in> set (due_heads (ae_load_at e) d)"
    using NextDueDelivery_Some [OF sent_item [OF one [unfolded item(1)]]] by blast
  have core: "core_inv x d" using inv by blast
  have rows: "s \<in> set (db_sinks d)" "r \<in> set (db_events d)" using di(2) by (auto simp: set_due_heads)
  have digest: "Sum256 x (ev_payload r) = ev_payload_sha256 r" using due_head_waiting(4) [OF core di(2)] .
  have fields: "dv_SinkName item = sk_name s" "dv_Source item = ev_source r" "dv_ID item = ev_id r" "dv_Payload item = ev_payload r"
    "item_key item = (ev_sequence r, sk_id s)" by (simp_all add: di(1) delivery_item_def)
  obtain c where c: "map_of sinks (sk_name s) = Some c" "configured_Send x hmac h write_fails c item = Some result"
    using item(2,3) fields(1) by (auto simp: sink_table_def)
  have "case c of StdoutSink \<Rightarrow> \<not> write_fails (ev_payload r @ [CHR 0x0A])
     | WebhookSink sender \<Rightarrow>
         (\<exists>request status retryAfter. rq_method request = ''POST'' \<and> rq_url request = wh_endpoint sender \<and>
            rq_body request = ev_payload r \<and> (''Idempotency-Key'', deliveryKey x item) \<in> set (rq_headers request) \<and>
            he_reply h request = Response status retryAfter \<and> 200 \<le> status \<and> status < 300)"
  proof (cases c)
    case (WebhookSink sender)
    then have "webhook_sink x hmac h sender item = Some result" using c(2) by (simp add: configured_Send_def webhook_sink_def)
    from webhook_sink_success [OF this ok] obtain status retryAfter where
      "he_reply h (webhook_request x hmac sender (he_unix h) item) = Response status retryAfter" "200 \<le> status" "status < 300"
      by blast
    moreover have "rq_body (webhook_request x hmac sender (he_unix h) item) = ev_payload r"
      "(''Idempotency-Key'', deliveryKey x item) \<in> set (rq_headers (webhook_request x hmac sender (he_unix h) item))"
      "rq_method (webhook_request x hmac sender (he_unix h) item) = ''POST''"
      "rq_url (webhook_request x hmac sender (he_unix h) item) = wh_endpoint sender"
      by (simp_all add: webhook_request_def fields(4))
    ultimately show ?thesis using WebhookSink by auto
  next
    case StdoutSink
    then show ?thesis using c(2) ok StdoutSink_Send_success [of write_fails item] fields(4) by (simp add: configured_Send_def)
  qed
  then show ?thesis
    using rows digest fields key c(1)
    by (intro exI [of _ s] exI [of _ r] exI [of _ item]) (auto split: configured_sink.splits)
qed

text \<open>(C26) The daemon stops only when all of its components have: once every result has been
  received no task runs any more, so none can use the spool that is closed next, and the error
  returned is the first one in the order the tasks returned, whatever came before or after it.
  The first result cancels the others.\<close>

theorem runTogether_waits:
  assumes "runTogether n rs s"
  shows "(tg_left s = 0 \<longrightarrow> tg_running s = 0 \<and> length rs = n \<and> tg_firstError s = first_error rs) \<and>
    (tg_left s < n \<longleftrightarrow> tg_cancelled s) \<and>
    (\<forall>err. Some err \<in> set rs \<and> tg_left s = 0 \<longrightarrow> tg_firstError s \<noteq> None)"
proof -
  obtain received where i: "rs = received @ tg_results s" "tg_firstError s = first_error received"
    "tg_cancelled s = (received \<noteq> [])" "length received + tg_left s = n" "tg_running s + length rs = n"
    using runTogether_inv [OF assms] by blast
  have final: "tg_running s = 0 \<and> length rs = n \<and> tg_firstError s = first_error rs" if "tg_left s = 0"
    using i that by simp
  have "tg_left s < n \<longleftrightarrow> tg_cancelled s" using i(3,4) by (cases received) auto
  with final show ?thesis by (auto simp: first_error_None)
qed


section \<open>A concrete start\<close>

definition hook_config :: SinkConfig where
  "hook_config = \<lparr>sc_Name = ''orders'', sc_Type = ''webhook'', sc_URL = ''https://example.com/hook'', sc_AuthorizationEnv = [],
     sc_SigningSecretEnv = [], sc_AllowInsecureHTTP = False\<rparr>"

definition app_config :: Config where
  "app_config = capture_config\<lparr>cfg_Delivery := (cfg_Delivery capture_config)\<lparr>dc_Sinks := [hook_config]\<rparr>\<rparr>"

definition quiet_app :: app_env where
  "quiet_app = \<lparr>az_open = quiet_open, az_getenv = (\<lambda>_. None), az_configure = quiet_configure\<rparr>"

text \<open>A spool of the current version, without sinks, that holds one event.\<close>

definition stored_file :: spool_file where
  "stored_file = \<lparr>sf_db = empty_db\<lparr>db_schema := [1, 2, 3],
     db_events := [captured_row example_externals example_event 1 10], db_events_seq := 1\<rparr>, sf_wal = True, sf_owner_only = True\<rparr>"

definition orders_sender :: WebhookSender where
  "orders_sender = \<lparr>wh_endpoint = ''https://example.com/hook'', wh_authorization = [], wh_signingSecret = [],
     wh_timeout = dc_RequestTimeout (cfg_Delivery app_config), wh_hooks = no_hooks\<rparr>"

lemma stored_file_at: "schema_at 3 (sf_db stored_file)"
  unfolding schema_at_def version_lists by (simp add: stored_file_def currentSchemaVersion_def empty_db_def)

lemma stored_file_inv: "db_inv example_externals (sf_db stored_file)"
  by (simp add: db_inv_defs stored_file_def example_defs captured_row_def)

lemma stored_open:
  "\<exists>f1 s. Open quiet_open ''spool.db'' stored_file = (f1, Inr s) \<and> sf_db f1 = sf_db stored_file"
  by (simp add: Open_def OpenWithHooks_def initialize_def pragmas_def quiet_open_def initialize_tables_def read_version_def
      schema_version_def currentSchemaVersion_def stored_file_def)

lemma orders_built:
  "build_sinks example_externals (\<lambda>_. None) t [hook_config] [] [] =
     Inr ([(''orders'', WebhookSink (orders_sender\<lparr>wh_timeout := t\<rparr>))],
       [\<lparr>sr_Name = ''orders'', sr_Type = ''webhook'', sr_ConfigSHA256 = Sum256 example_externals (''webhook'' @ [NUL] @ ''https://example.com/hook'')\<rparr>])"
  by (simp add: hook_config_def NewWebhookSender_def NewWebhookSenderWithHooks_def optionalSecret_def orders_sender_def)

lemma stored_configure:
  "snd (ConfigureSinks quiet_configure [\<lparr>sr_Name = ''orders'', sr_Type = ''webhook'', sr_ConfigSHA256 = c\<rparr>] (sf_db stored_file)) = None"
  by (simp add: ConfigureSinks_def configure_tx_def quiet_configure_def register_sink_def find_sink_def backfill_rows_def
      update_where_def pending_count_def stored_file_def event_pruned_def insert_delivery_def captured_row_def empty_db_def)

lemma app_example:
  "\<exists>f'. app_Run example_externals quiet_app app_config stored_file = (f', Inr (app_tasks app_config [(''orders'', WebhookSink orders_sender)]))"
proof -
  obtain f1 s where f1: "Open quiet_open ''spool.db'' stored_file = (f1, Inr s)" "sf_db f1 = sf_db stored_file" using stored_open by blast
  have cfg: "sp_Path (cfg_Spool app_config) = ''spool.db''" "dc_Sinks (cfg_Delivery app_config) = [hook_config]"
    by (simp_all add: app_config_def capture_config_def example_config_def)
  have sender: "orders_sender\<lparr>wh_timeout := dc_RequestTimeout (cfg_Delivery app_config)\<rparr> = orders_sender"
    by (simp add: orders_sender_def)
  obtain d where "ConfigureSinks quiet_configure [\<lparr>sr_Name = ''orders'', sr_Type = ''webhook'', sr_ConfigSHA256 =
      Sum256 example_externals (''webhook'' @ [NUL] @ ''https://example.com/hook'')\<rparr>] (sf_db stored_file) = (d, None)"
    using stored_configure by (metis prod.collapse)
  then show ?thesis
    unfolding app_Run_def cfg by (simp add: quiet_app_def f1 orders_built sender del: build_sinks.simps)
qed

theorem app_started_witness:
  "\<exists>f' tasks. app_Run example_externals quiet_app app_config stored_file = (f', Inr tasks) \<and>
     active_names (sf_db f') = {''orders''} \<and> db_events (sf_db f') = db_events (sf_db stored_file)"
proof -
  obtain f' where run: "app_Run example_externals quiet_app app_config stored_file =
      (f', Inr (app_tasks app_config [(''orders'', WebhookSink orders_sender)]))" using app_example by blast
  have "dc_Sinks (cfg_Delivery app_config) = [hook_config]" by (simp add: app_config_def)
  then show ?thesis
    using app_started [OF stored_file_at stored_file_inv run] run by (simp add: hook_config_def)
qed

definition accepting :: http_env where
  "accepting = \<lparr>he_construct_fails = False, he_unix = 7, he_reply = (\<lambda>_. Response 204 []), he_expired = False,
     he_parseTime = (\<lambda>_. None), he_now = 0\<rparr>"

definition orders_tick :: tick where
  "orders_tick = \<lparr>tk_done = False,
     tk_sinks = sink_table example_externals (\<lambda>_ _. 0) accepting (\<lambda>_. False) [(''orders'', WebhookSink orders_sender)],
     tk_env = \<lparr>ae_load_fails = False, ae_load_at = 30, ae_cancelled = False, ae_record_at = 31, ae_mark = ExecOk\<rparr>,
     tk_done_after = False\<rparr>"

theorem app_worker_sinks_witness:
  "\<exists>f' w r. (\<exists>tasks. app_Run example_externals quiet_app app_config stored_file = (f', Inr tasks) \<and>
       DeliveryTask w [(''orders'', WebhookSink orders_sender)] \<in> set tasks) \<and>
     snd (snd (snd (Run sqlite_ops w [orders_tick] (sf_db f')))) = r \<and> r \<noteq> Returned (Some (NoSinkConfigured ''orders''))"
proof -
  obtain f' where run: "app_Run example_externals quiet_app app_config stored_file =
      (f', Inr (app_tasks app_config [(''orders'', WebhookSink orders_sender)]))" using app_example by blast
  obtain w where w: "DeliveryTask w [(''orders'', WebhookSink orders_sender)] \<in> set (app_tasks app_config [(''orders'', WebhookSink orders_sender)])"
    by (auto simp: app_tasks_def Let_def)
  obtain d' items delays r where ran: "Run sqlite_ops w [orders_tick] (sf_db f') = (d', items, delays, r)" by (metis prod_cases4)
  have tick: "\<forall>t \<in> set [orders_tick]. \<exists>hmac h wf. tk_sinks t = sink_table example_externals hmac h wf [(''orders'', WebhookSink orders_sender)]"
    by (auto simp: orders_tick_def)
  have "r \<noteq> Returned (Some (NoSinkConfigured ''orders''))"
    by (rule app_worker_sinks [OF stored_file_at stored_file_inv run w tick ran])
  then show ?thesis using run w ran by (intro exI [of _ f'] exI [of _ w] exI [of _ r] conjI) auto
qed

lemma orders_processed:
  "\<exists>d'. ProcessOne sqlite_ops (NewWorker Second Second (5 * Minute) 10) (tk_sinks orders_tick) (tk_env orders_tick) captured_db =
     (d', Some example_item, Ok True) \<and> (\<exists>v. row_at d' (1, 1) = Some v \<and> dl_state v = Delivered)"
proof -
  have "NextDueDelivery False 30 captured_db = Inr (Some example_item)" by (simp add: delivery_defs example_defs)
  moreover have "tk_sinks orders_tick (dv_SinkName example_item) =
      Some (configured_Send example_externals (\<lambda>_ _. 0) accepting (\<lambda>_. False) (WebhookSink orders_sender))"
    by (simp add: orders_tick_def sink_table_def example_item_def)
  moreover have "configured_Send example_externals (\<lambda>_ _. 0) accepting (\<lambda>_. False) (WebhookSink orders_sender) example_item =
      Some (no_result\<lparr>ar_Success := True, ar_StatusCode := 204\<rparr>)"
    by (simp add: configured_Send_def WebhookSender_Send_def accepting_def webhook_result_def orders_sender_def)
  moreover have "next_attempt example_item = 1" by (simp add: next_attempt_def example_item_def i64_def)
  moreover obtain d' where "MarkDelivered ExecOk example_item 1 204 31 captured_db = (d', None)"
      "\<exists>v. row_at d' (1, 1) = Some v \<and> dl_state v = Delivered"
    by (simp add: MarkDelivered_def delivery_defs example_defs row_at_def delivered_row_def)
  ultimately show ?thesis
    by (simp add: ProcessOne_def sqlite_ops_def record_attempt_def orders_tick_def NewWorker_def NewWorkerWithHooks_def no_result_def)
qed

theorem delivered_means_accepted_witness:
  "\<exists>request. rq_body request = ''{}'' \<and> rq_url request = ''https://example.com/hook'' \<and> (\<exists>status r. he_reply accepting request = Response status r)"
proof -
  obtain d' v where one: "ProcessOne sqlite_ops (NewWorker Second Second (5 * Minute) 10)
      (sink_table example_externals (\<lambda>_ _. 0) accepting (\<lambda>_. False) [(''orders'', WebhookSink orders_sender)])
      (tk_env orders_tick) captured_db = (d', Some example_item, Ok True)"
    and v: "row_at d' (1, 1) = Some v" "dl_state v = Delivered"
    using orders_processed by (auto simp: orders_tick_def)
  have before: "row_at captured_db (1, 1) = Some (new_delivery 1 1 10)" "dl_state (new_delivery 1 1 10) \<noteq> Delivered"
    by (simp_all add: row_at_def captured_db_def)
  show ?thesis
    using delivered_means_accepted [OF captured_db_inv one before v]
    by (auto simp: captured_db_def example_db_def example_sink_def orders_sender_def captured_row_def example_event_def)
qed

text \<open>One task that fails, received and then returned.\<close>

definition failed_task :: "string together" where
  "failed_task = \<lparr>tg_running = 0, tg_results = [Some ''stream''], tg_cancelled = False, tg_firstError = None, tg_left = 1\<rparr>"

definition failed_received :: "string together" where
  "failed_received = \<lparr>tg_running = 0, tg_results = [], tg_cancelled = True, tg_firstError = Some ''stream'', tg_left = 0\<rparr>"

lemma failed_steps:
  "task_returns (Some ''stream'') (together_start 1) failed_task" "receive_result failed_task failed_received"
  using task_returns.intros [of "together_start 1" 0 "Some ''stream''"] receive_result.intros [of failed_task 0 "Some ''stream''" "[]"]
  by (simp_all add: together_start_def failed_task_def failed_received_def)

theorem runTogether_waits_witness: "runTogether 1 [Some ''stream''] failed_received \<and> tg_firstError failed_received = Some ''stream''"
proof -
  have run: "runTogether 1 ([] @ [Some ''stream'']) failed_received"
    using failed_steps runTogether.intros by blast
  from runTogether_waits [OF this] run show ?thesis by (simp add: failed_received_def)
qed


end
