(* ===== verification/Go_Flag.thy ===== *)
theory Go_Flag
  imports Go_Strconv "HOL-Library.AList" "HOL-Library.Code_Target_Nat"
begin

text \<open>
  What the command line uses of Go's \<open>flag\<close> package: a set of named flags with their defaults, and
  \<open>FlagSet.Parse\<close> with the conversions of \<open>strconv\<close> it applies. A decimal number given for an
  integer flag is read back exactly, and parsing changes no flag that is not named.
\<close>

section \<open>Values\<close>

datatype flag_value = FlagString string | FlagInt int | FlagBool bool

datatype flag_error = FlagHelp | FlagSyntax string | FlagUndefined string | FlagMissing string | FlagInvalid string

type_synonym flag_set = "(string \<times> flag_value) list"

definition alnum_value :: "char \<Rightarrow> nat option" where
  "alnum_value c =
     (let n = (of_char c :: nat) in
      if 48 \<le> n \<and> n \<le> 57 then Some (n - 48)
      else if 97 \<le> n \<and> n \<le> 122 then Some (n - 87)
      else if 65 \<le> n \<and> n \<le> 90 then Some (n - 55) else None)"

fun base_digits :: "nat \<Rightarrow> nat \<Rightarrow> string \<Rightarrow> nat option" where
  "base_digits base acc [] = Some acc"
| "base_digits base acc (c # cs) =
     (if c = CHR ''_'' then base_digits base acc cs
      else (case alnum_value c of
              None \<Rightarrow> None
            | Some d \<Rightarrow> if d \<ge> base then None else base_digits base (acc * base + d) cs))"

text \<open>The prefix of a number in base 0, and what is left of it.\<close>

definition base_prefix :: "string \<Rightarrow> nat \<times> string" where
  "base_prefix s =
     (if take 1 s \<noteq> ''0'' then (10, s)
      else if length s \<ge> 3 \<and> s ! 1 \<in> {CHR ''b'', CHR ''B''} then (2, drop 2 s)
      else if length s \<ge> 3 \<and> s ! 1 \<in> {CHR ''o'', CHR ''O''} then (8, drop 2 s)
      else if length s \<ge> 3 \<and> s ! 1 \<in> {CHR ''x'', CHR ''X''} then (16, drop 2 s)
      else (8, drop 1 s))"

text \<open>\<open>underscoreOK\<close>: an underscore stands between digits, where the base prefix counts as one. The
  first argument tells what was seen last.\<close>

datatype seen = SeenStart | SeenDigit | SeenUnderscore | SeenOther

fun underscores_ok :: "bool \<Rightarrow> seen \<Rightarrow> string \<Rightarrow> bool" where
  "underscores_ok hex prev [] = (prev \<noteq> SeenUnderscore)"
| "underscores_ok hex prev (c # cs) =
     (if (case alnum_value c of None \<Rightarrow> False | Some d \<Rightarrow> d < 10 \<or> hex \<and> d < 16) then underscores_ok hex SeenDigit cs
      else if c = CHR ''_'' then prev = SeenDigit \<and> underscores_ok hex SeenUnderscore cs
      else prev \<noteq> SeenUnderscore \<and> underscores_ok hex SeenOther cs)"

definition underscoreOK :: "string \<Rightarrow> bool" where
  "underscoreOK s =
     (if length s \<ge> 2 \<and> take 1 s = ''0'' \<and> s ! 1 \<in> {CHR ''b'', CHR ''B'', CHR ''o'', CHR ''O'', CHR ''x'', CHR ''X''}
      then underscores_ok (s ! 1 \<in> {CHR ''x'', CHR ''X''}) SeenDigit (drop 2 s)
      else underscores_ok False SeenStart s)"

definition ParseUint0 :: "string \<Rightarrow> nat option" where
  "ParseUint0 s =
     (if s = [] then None
      else (case base_prefix s of (base, digits) \<Rightarrow>
        (case base_digits base 0 digits of
           None \<Rightarrow> None
         | Some n \<Rightarrow>
             if n \<ge> 2 ^ 64 then None
             else if CHR ''_'' \<in> set digits \<and> \<not> underscoreOK s then None else Some n)))"

text \<open>\<open>strconv.ParseInt(s, 0, 64)\<close>.\<close>

definition ParseInt0 :: "string \<Rightarrow> int option" where
  "ParseInt0 s =
     (let neg = (take 1 s = ''-''); body = (if take 1 s = ''-'' \<or> take 1 s = ''+'' then drop 1 s else s) in
      case ParseUint0 body of
        None \<Rightarrow> None
      | Some un \<Rightarrow>
          if \<not> neg \<and> un \<ge> 2 ^ 63 then None
          else if neg \<and> un > 2 ^ 63 then None
          else Some (if neg then - int un else int un))"

definition ParseBool :: "string \<Rightarrow> bool option" where
  "ParseBool s =
     (if s \<in> {''1'', ''t'', ''T'', ''true'', ''TRUE'', ''True''} then Some True
      else if s \<in> {''0'', ''f'', ''F'', ''false'', ''FALSE'', ''False''} then Some False else None)"

definition set_value :: "flag_value \<Rightarrow> string \<Rightarrow> flag_value option" where
  "set_value old s = (case old of
     FlagString _ \<Rightarrow> Some (FlagString s)
   | FlagInt _ \<Rightarrow> map_option FlagInt (ParseInt0 s)
   | FlagBool _ \<Rightarrow> map_option FlagBool (ParseBool s))"

section \<open>Arguments\<close>

text \<open>The name of a flag argument and the value after an equals sign, which is not looked for in the
  first position.\<close>

fun split_equals :: "string \<Rightarrow> string \<times> string option" where
  "split_equals [] = ([], None)"
| "split_equals (c # cs) =
     (if c = CHR ''='' then ([], Some cs) else (case split_equals cs of (n, v) \<Rightarrow> (c # n, v)))"

definition flag_name :: "string \<Rightarrow> string \<times> string option" where
  "flag_name s = (case s of [] \<Rightarrow> ([], None) | c # cs \<Rightarrow> (case split_equals cs of (n, v) \<Rightarrow> (c # n, v)))"

definition is_bool :: "flag_value \<Rightarrow> bool" where
  "is_bool v = (case v of FlagBool _ \<Rightarrow> True | _ \<Rightarrow> False)"

definition assign :: "flag_set \<Rightarrow> string \<Rightarrow> flag_value \<Rightarrow> string \<Rightarrow> flag_error + flag_set" where
  "assign fs name old s =
     (case set_value old s of None \<Rightarrow> Inl (FlagInvalid name) | Some v \<Rightarrow> Inr (AList.update name v fs))"

text \<open>One turn of the loop: \<open>None\<close> ends the flags, with the arguments that are left.\<close>

definition parseOne :: "flag_set \<Rightarrow> string \<Rightarrow> string list \<Rightarrow> (flag_error + flag_set \<times> string list) option \<times> string list" where
  "parseOne fs s args =
     (if length s < 2 \<or> hd s \<noteq> CHR ''-'' then (None, s # args)
      else if s = ''--'' then (None, args)
      else
        (let body = drop (if s ! 1 = CHR ''-'' then 2 else 1) s in
         if body = [] \<or> hd body = CHR ''-'' \<or> hd body = CHR ''='' then (Some (Inl (FlagSyntax s)), args)
         else (case flag_name body of (name, given) \<Rightarrow>
           (case map_of fs name of
              None \<Rightarrow> (Some (Inl (if name = ''help'' \<or> name = ''h'' then FlagHelp else FlagUndefined name)), args)
            | Some old \<Rightarrow>
                (case given of
                   Some v \<Rightarrow> (Some (map_sum id (\<lambda>f. (f, args)) (assign fs name old v)), args)
                 | None \<Rightarrow>
                     if is_bool old then (Some (map_sum id (\<lambda>f. (f, args)) (assign fs name old ''true'')), args)
                     else (case args of
                             [] \<Rightarrow> (Some (Inl (FlagMissing name)), args)
                           | v # rest \<Rightarrow> (Some (map_sum id (\<lambda>f. (f, rest)) (assign fs name old v)), rest)))))))"

lemma parseOne_shorter: "parseOne fs s args = (Some (Inr (fs', rest)), r) \<Longrightarrow> length rest \<le> length args"
  by (auto simp: parseOne_def Let_def assign_def split: if_splits option.splits list.splits prod.splits sum.splits)

text \<open>\<open>Parse\<close>: the flags with their values and the positional arguments.\<close>

function flag_Parse :: "flag_set \<Rightarrow> string list \<Rightarrow> flag_error + flag_set \<times> string list" where
  "flag_Parse fs args = (case args of
     [] \<Rightarrow> Inr (fs, [])
   | s # rest \<Rightarrow>
       (case parseOne fs s rest of
          (None, left) \<Rightarrow> Inr (fs, left)
        | (Some (Inl err), _) \<Rightarrow> Inl err
        | (Some (Inr (fs', left)), _) \<Rightarrow> flag_Parse fs' left))"
  by pat_completeness auto

termination
proof (relation "measure (\<lambda>(fs, args). length args)", goal_cases)
  case (2 fs args s rest p q r t fs' left)
  then have "parseOne fs s rest = (Some (Inr (fs', left)), q)" by simp
  then show ?case using 2(1) parseOne_shorter by fastforce
qed simp

declare flag_Parse.simps [simp del]

definition flag_string :: "flag_set \<Rightarrow> string \<Rightarrow> string" where
  "flag_string fs name = (case map_of fs name of Some (FlagString s) \<Rightarrow> s | _ \<Rightarrow> [])"

definition flag_int :: "flag_set \<Rightarrow> string \<Rightarrow> int" where
  "flag_int fs name = (case map_of fs name of Some (FlagInt n) \<Rightarrow> n | _ \<Rightarrow> 0)"

definition flag_bool :: "flag_set \<Rightarrow> string \<Rightarrow> bool" where
  "flag_bool fs name = (case map_of fs name of Some (FlagBool b) \<Rightarrow> b | _ \<Rightarrow> False)"

section \<open>Properties\<close>

lemma assign_Inr: "assign fs name old s = Inr fs' \<Longrightarrow> \<exists>v. set_value old s = Some v \<and> fs' = AList.update name v fs"
  by (auto simp: assign_def split: option.splits)

lemma map_sum_Inr: "map_sum f g x = Inr y \<longleftrightarrow> (\<exists>z. x = Inr z \<and> y = g z)"
  by (cases x) auto

lemma parseOne_Inr:
  assumes "parseOne fs s args = (Some (Inr (fs', rest)), r)"
  obtains name old v where "map_of fs name = Some old" "fs' = AList.update name v fs" "\<exists>t. set_value old t = Some v"
  using assms
  by (auto simp: parseOne_def Let_def map_sum_Inr split: if_splits option.splits list.splits prod.splits
      dest!: assign_Inr)

text \<open>Two values of the same kind.\<close>

definition same_kind :: "flag_value \<Rightarrow> flag_value \<Rightarrow> bool" where
  "same_kind a b = (case (a, b) of
     (FlagString _, FlagString _) \<Rightarrow> True | (FlagInt _, FlagInt _) \<Rightarrow> True | (FlagBool _, FlagBool _) \<Rightarrow> True | _ \<Rightarrow> False)"

lemma set_value_kind: "set_value old s = Some v \<Longrightarrow> same_kind old v"
  by (auto simp: set_value_def same_kind_def split: flag_value.splits)

lemma same_kind_trans: "same_kind a b \<Longrightarrow> same_kind b c \<Longrightarrow> same_kind a c"
  by (auto simp: same_kind_def split: flag_value.splits)

lemma same_kind_refl [simp]: "same_kind a a"
  by (simp add: same_kind_def split: flag_value.split)

text \<open>Parsing keeps the names and the kinds of the flags.\<close>

lemma flag_Parse_kinds:
  "flag_Parse fs args = Inr (fs', rest) \<Longrightarrow> rel_option same_kind (map_of fs name) (map_of fs' name)"
proof (induction fs args arbitrary: rule: flag_Parse.induct)
  case (1 fs args)
  show ?case
  proof (cases args)
    case Nil
    with 1(2) show ?thesis by (simp add: flag_Parse.simps option.rel_refl)
  next
    case (Cons s ss)
    then consider left where "parseOne fs s ss = (None, left)" "fs' = fs"
      | fs1 left r where "parseOne fs s ss = (Some (Inr (fs1, left)), r)" "flag_Parse fs1 left = Inr (fs', rest)"
      using 1(2) by (auto simp: flag_Parse.simps [of fs "s # ss"] split: prod.splits option.splits sum.splits)
    then show ?thesis
    proof cases
      case 1
      then show ?thesis by (simp add: option.rel_refl)
    next
      case 2
      have "rel_option same_kind (map_of fs1 name) (map_of fs' name)"
        by (rule 1(1) [OF Cons _ _ _ _ 2(2)]) (use 2(1) in auto)
      moreover have "rel_option same_kind (map_of fs name) (map_of fs1 name)"
        using 2(1)
      proof (rule parseOne_Inr)
        fix n old v
        assume h: "map_of fs n = Some old" "fs1 = AList.update n v fs" "\<exists>t. set_value old t = Some v"
        then show ?thesis by (auto simp: update_conv option.rel_refl set_value_kind)
      qed
      ultimately show ?thesis
        by (cases "map_of fs name"; cases "map_of fs1 name"; cases "map_of fs' name") (auto intro: same_kind_trans)
    qed
  qed
qed

text \<open>A printed number is read back.\<close>

lemma char_digit_alnum: "char_digit c = Some k \<Longrightarrow> alnum_value c = Some k \<and> k < 10 \<and> c \<noteq> CHR ''_''"
  by (auto simp: char_digit_def alnum_value_def Let_def split: if_splits)

lemma base_digits_decimal: "parse_decimal s acc = Some n \<Longrightarrow> base_digits 10 acc s = Some n \<and> CHR ''_'' \<notin> set s"
  by (induction s arbitrary: acc) (auto simp: mult.commute dest!: char_digit_alnum split: option.splits)

lemma hd_nat_decimal_0: "0 < n \<Longrightarrow> hd (nat_decimal n) \<noteq> CHR ''0''"
proof (induction n rule: nat_decimal.induct)
  case (1 n)
  show ?case
  proof (cases "n < 10")
    case True
    have "char_digit (CHR ''0'') = Some 0" by (simp add: char_digit_def)
    then have "digit_char n \<noteq> CHR ''0''" using char_digit_digit [OF True] 1(2) by (metis option.inject less_irrefl)
    then show ?thesis using True by (subst nat_decimal.simps) simp
  next
    case False
    with 1(1) have "hd (nat_decimal (n div 10)) \<noteq> CHR ''0''" by simp
    with False show ?thesis by (subst nat_decimal.simps) simp
  qed
qed

lemma ParseUint0_decimal: "n < 2 ^ 64 \<Longrightarrow> ParseUint0 (nat_decimal n) = Some n"
proof (cases "n = 0")
  case True
  have "ParseUint0 (nat_decimal 0) = Some 0" by code_simp
  with True show ?thesis by simp
next
  case False
  assume n: "n < 2 ^ 64"
  have "take 1 (nat_decimal n) \<noteq> ''0''" using hd_nat_decimal_0 [of n] False by (cases "nat_decimal n") auto
  then have "base_prefix (nat_decimal n) = (10, nat_decimal n)" by (simp add: base_prefix_def)
  with n base_digits_decimal [OF parse_nat_decimal [of n]] show ?thesis by (simp add: ParseUint0_def)
qed

lemma ParseInt0_Itoa:
  assumes "min_int64 \<le> n" "n \<le> max_int64"
  shows "ParseInt0 (Itoa n) = Some n"
proof (cases "n < 0")
  case True
  have "ParseUint0 (nat_decimal (nat (- n))) = Some (nat (- n))"
    by (rule ParseUint0_decimal) (use assms True in \<open>simp add: min_int64_def\<close>)
  then show ?thesis using True assms by (simp add: ParseInt0_def Itoa_def min_int64_def)
next
  case False
  have "ParseUint0 (nat_decimal (nat n)) = Some (nat n)"
    by (rule ParseUint0_decimal) (use assms False in \<open>simp add: max_int64_def\<close>)
  moreover have "take 1 (nat_decimal (nat n)) \<noteq> ''-''" "take 1 (nat_decimal (nat n)) \<noteq> ''+''"
    using hd_nat_decimal [of "nat n"] by (cases "nat_decimal (nat n)"; simp)+
  ultimately show ?thesis using False assms by (simp add: ParseInt0_def Itoa_def max_int64_def)
qed

lemma ParseInt0_range: "ParseInt0 s = Some n \<Longrightarrow> min_int64 \<le> n \<and> n \<le> max_int64"
  by (auto simp: ParseInt0_def Let_def min_int64_def max_int64_def split: option.splits if_splits)

text \<open>An argument \<open>--name=value\<close> or \<open>--name value\<close> sets that flag.\<close>

lemma split_equals_name: "CHR ''='' \<notin> set n \<Longrightarrow> split_equals (n @ CHR ''='' # v) = (n, Some v)" "CHR ''='' \<notin> set n \<Longrightarrow> split_equals n = (n, None)"
  by (induction n) auto

definition plain_name :: "string \<Rightarrow> bool" where
  "plain_name n \<longleftrightarrow> n \<noteq> [] \<and> hd n \<noteq> CHR ''-'' \<and> CHR ''='' \<notin> set n"

lemma flag_Parse_assignment:
  assumes "plain_name n" and "map_of fs n = Some old" and "set_value old v = Some new"
  shows "flag_Parse fs ((''--'' @ n @ ''='' @ v) # args) = flag_Parse (AList.update n new fs) args"
    and "\<not> is_bool old \<Longrightarrow> flag_Parse fs ((''--'' @ n) # v # args) = flag_Parse (AList.update n new fs) args"
proof -
  obtain c m where n: "n = c # m" "c \<noteq> CHR ''-''" "c \<noteq> CHR ''=''" "CHR ''='' \<notin> set m"
    using assms(1) by (cases n) (auto simp: plain_name_def)
  show "flag_Parse fs ((''--'' @ n @ ''='' @ v) # args) = flag_Parse (AList.update n new fs) args"
    by (subst flag_Parse.simps)
      (use n assms(2,3) in \<open>simp add: parseOne_def flag_name_def split_equals_name assign_def\<close>)
  show "flag_Parse fs ((''--'' @ n) # v # args) = flag_Parse (AList.update n new fs) args" if "\<not> is_bool old"
    by (subst flag_Parse.simps)
      (use n assms(2,3) that in \<open>simp add: parseOne_def flag_name_def split_equals_name assign_def\<close>)
qed

end
