(* ===== verification/Go_Path.thy ===== *)
theory Go_Path
  imports Main
begin

text \<open>
  What the program uses of Go's \<open>path/filepath\<close> on a Unix system: \<open>Clean\<close> and \<open>Dir\<close>. Taking the
  directory of a path repeatedly reaches a fixed point, since it shortens every other path.
\<close>

section \<open>Definitions\<close>

fun split_slash :: "string \<Rightarrow> string list" where
  "split_slash [] = [[]]"
| "split_slash (c # cs) =
     (if c = CHR ''/'' then [] # split_slash cs
      else (case split_slash cs of [] \<Rightarrow> [[c]] | e # es \<Rightarrow> (c # e) # es))"

fun join_slash :: "string list \<Rightarrow> string" where
  "join_slash [] = []"
| "join_slash [e] = e"
| "join_slash (e # es) = e @ CHR ''/'' # join_slash es"

text \<open>The elements kept so far, the last one first.\<close>

definition clean_step :: "bool \<Rightarrow> string \<Rightarrow> string list \<Rightarrow> string list" where
  "clean_step rooted e kept =
     (if e = [] \<or> e = ''.'' then kept
      else if e = ''..'' then
        (case kept of
           [] \<Rightarrow> if rooted then [] else [e]
         | t # rest \<Rightarrow> if t = ''..'' then e # kept else rest)
      else e # kept)"

definition Clean :: "string \<Rightarrow> string" where
  "Clean path =
     (if path = [] then ''.''
      else
        (let rooted = (hd path = CHR ''/'');
             body = join_slash (rev (fold (clean_step rooted) (split_slash path) [])) in
         if rooted then CHR ''/'' # body else if body = [] then ''.'' else body))"

text \<open>The path up to and including its last slash.\<close>

definition dir_prefix :: "string \<Rightarrow> string" where
  "dir_prefix path = rev (dropWhile (\<lambda>c. c \<noteq> CHR ''/'') (rev path))"

definition Dir :: "string \<Rightarrow> string" where
  "Dir path = Clean (dir_prefix path)"

section \<open>Dir makes progress\<close>

definition weight :: "string list \<Rightarrow> nat" where
  "weight es = sum_list (map (\<lambda>e. Suc (length e)) es)"

lemma weight_simps [simp]: "weight [] = 0" "weight (e # es) = Suc (length e) + weight es"
  "weight (xs @ ys) = weight xs + weight ys" "weight (rev es) = weight es"
  by (simp_all add: weight_def rev_map [symmetric])

lemma weight_split: "weight (split_slash s) = Suc (length s)"
  by (induction s) (auto split: list.splits)

lemma length_join: "length (join_slash es) = weight es - 1"
  by (induction es rule: join_slash.induct) auto

text \<open>Empty elements add nothing.\<close>

lemma weight_clean_step: "weight (clean_step rooted e kept) \<le> (if e = [] then 0 else Suc (length e)) + weight kept"
  by (auto simp: clean_step_def split: list.splits)

lemma weight_fold: "weight (fold (clean_step rooted) es kept) \<le> weight (filter (\<lambda>e. e \<noteq> []) es) + weight kept"
proof (induction es arbitrary: kept)
  case (Cons e es)
  show ?case using Cons [of "clean_step rooted e kept"] weight_clean_step [of rooted e kept] by (cases "e = []") auto
qed simp

lemma weight_filter: "weight (filter (\<lambda>e. e \<noteq> []) es) + length (filter (\<lambda>e. e = []) es) = weight es"
  by (induction es) auto

lemma split_slash_Nil [simp]: "split_slash s \<noteq> []"
  by (induction s) (auto split: list.splits)

lemma split_slash_end: "split_slash (s @ ''/'') = split_slash s @ [[]]"
  by (induction s) (auto split: list.splits)

text \<open>How many empty elements a path that ends in a slash has.\<close>

lemma empty_elements:
  assumes "s \<noteq> []"
  shows "length (filter (\<lambda>e. e = []) (split_slash (s @ ''/''))) \<ge> (if hd s = CHR ''/'' then 2 else 1)"
proof -
  have "length (filter (\<lambda>e. e = []) (split_slash s)) \<ge> 1" if "hd s = CHR ''/''" using assms that by (cases s) auto
  then show ?thesis unfolding split_slash_end by simp
qed

lemma Clean_shorter:
  assumes "s \<noteq> []"
  shows "length (Clean (s @ ''/'')) < length (s @ ''/'')"
proof -
  let ?p = "s @ ''/''" and ?r = "hd s = CHR ''/''"
  let ?kept = "fold (clean_step ?r) (split_slash ?p) []"
  have "weight ?kept \<le> weight (filter (\<lambda>e. e \<noteq> []) (split_slash ?p))"
    using weight_fold [of ?r "split_slash ?p" "[]"] by simp
  then have w: "weight ?kept + (if ?r then 2 else 1) \<le> Suc (length ?p)"
    using weight_filter [of "split_slash ?p"] empty_elements [OF assms] weight_split [of ?p] by (auto split: if_splits)
  have len: "length (join_slash (rev ?kept)) = weight ?kept - 1" by (simp add: length_join)
  have "1 \<le> length s" using assms by (cases s) auto
  with w len show ?thesis using assms by (auto simp: Clean_def Let_def split: if_splits)
qed

lemma Clean_Nil: "Clean [] = ''.''"
  by (simp add: Clean_def)

lemma Clean_root: "Clean ''/'' = ''/''"
  by (simp add: Clean_def clean_step_def)

lemma Clean_not_Nil: "Clean s \<noteq> []"
  by (simp add: Clean_def Let_def)

definition path_rank :: "string \<Rightarrow> nat" where
  "path_rank s = (if s = [] then 4 else if s = ''.'' then 2 else 2 * length s + 1)"

lemma dir_prefix_cases:
  obtains "dir_prefix s = []" "CHR ''/'' \<notin> set s" | t u where "dir_prefix s = t @ ''/''" "s = t @ ''/'' @ u"
proof (cases "CHR ''/'' \<in> set s")
  case True
  then obtain t u where tu: "s = t @ CHR ''/'' # u" "CHR ''/'' \<notin> set u" by (meson split_list_last)
  have "dropWhile (\<lambda>c. c \<noteq> CHR ''/'') (rev u @ CHR ''/'' # rev t) = CHR ''/'' # rev t"
    using tu(2) by (subst dropWhile_append2) auto
  then have "dir_prefix s = t @ ''/''" by (simp add: dir_prefix_def tu(1))
  then show thesis using that(2) tu(1) by simp
next
  case False
  then have "dir_prefix s = []" by (auto simp: dir_prefix_def dropWhile_eq_Nil_conv)
  then show thesis using that(1) False by simp
qed

lemma Dir_progress: "Dir s \<noteq> s \<Longrightarrow> path_rank (Dir s) < path_rank s"
proof (cases s rule: dir_prefix_cases)
  case 1
  assume "Dir s \<noteq> s"
  then have "s \<noteq> ''.''" "Dir s = ''.''" using 1 by (auto simp: Dir_def Clean_Nil)
  then show ?thesis by (cases s) (auto simp: path_rank_def)
next
  case (2 t u)
  assume ne: "Dir s \<noteq> s"
  have s: "s \<noteq> []" "s \<noteq> ''.''" using 2(2) by (cases t; auto)+
  have "length (Dir s) < length s"
  proof (cases "t = []")
    case True
    then have "Dir s = ''/''" "u \<noteq> []" using 2 ne by (auto simp: Dir_def Clean_root)
    then show ?thesis using 2(2) True by (cases u) auto
  next
    case False
    then show ?thesis using Clean_shorter [OF False] 2 by (simp add: Dir_def)
  qed
  moreover have "Dir s \<noteq> []" by (simp add: Dir_def Clean_not_Nil)
  ultimately show ?thesis using s by (auto simp: path_rank_def)
qed

end
