(* ===== verification/Relay_CLI.thy ===== *)
theory Relay_CLI
  imports Relay_App Go_Flag Go_Path
begin

text \<open>
  The command line, \<open>internal/cli\<close> and \<open>internal/logging\<close>: flags and arguments, the commands over the
  spool and the server, and the checks that \<open>doctor\<close> adds. What a command writes is kept as the values
  it hands to the encoder or the printer. The surroundings of a call are one record: files, the
  environment, and what fails in the operations of the other components.
\<close>

section \<open>Logging\<close>

datatype log_level = LevelDebug | LevelInfo | LevelWarn | LevelError

datatype log_handler = JSONHandler log_level | TextHandler log_level

text \<open>The error carries the level that is not supported.\<close>

definition logging_New :: "LoggingConfig \<Rightarrow> string + log_handler" where
  "logging_New cfg =
     (case (if lc_Level cfg = ''debug'' then Some LevelDebug
            else if lc_Level cfg = ''info'' then Some LevelInfo
            else if lc_Level cfg = ''warn'' then Some LevelWarn
            else if lc_Level cfg = ''error'' then Some LevelError else None) of
        None \<Rightarrow> Inl (lc_Level cfg)
      | Some level \<Rightarrow> Inr (if lc_Format cfg = ''json'' then JSONHandler level else TextHandler level))"

section \<open>Surroundings\<close>

datatype cli_error =
    CliFlag flag_error
  | CliText string
  | CliConfig string
  | CliStore store_error
  | CliCapture capture_error
  | CliApp app_error
  | CliUnsupportedLevel string
  | CliUnknownCommand string
  | CliUnknownSpoolCommand string
  | CliHalted

datatype printed =
    OutText string
  | OutStderr string
  | OutRedrive string string string
  | OutCheck doctor_check
  | OutEvent EventRow
  | OutDelivery DeliveryRow
  | OutStats Stats
  | OutTable "string list list"
  | OutPrune PruneResult
  | OutError cli_error

text \<open>\<open>os.Stat\<close> of a path: an error, or whether it is a directory and whether its owner may write it.\<close>

datatype stat_result = StatNotExist | StatError string | StatInfo bool bool

record cli_env =
  cl_externals :: externals
  cl_parsers :: parsers
  cl_file :: "string \<Rightarrow> (string + Config) option"
  cl_getenv :: "string \<Rightarrow> string option"
  cl_parseTime :: "string \<Rightarrow> time option"
  cl_now :: time
  cl_stat :: "string \<Rightarrow> stat_result"
  cl_open :: open_env
  cl_version_fails :: bool
  cl_list :: list_env
  cl_redrive :: exec_fault
  cl_prune :: prune_env
  cl_stats :: stats_env
  cl_setup :: setup_env
  cl_doctor :: doctor_view
  cl_configure :: configure_env
  cl_write_fails :: "nat \<Rightarrow> bool"

record cli_state =
  cs_spool :: spool_file
  cs_server :: pg_server

record BuildInfo =
  bi_Version :: string
  bi_Commit :: string
  bi_Date :: string

text \<open>A command returns, or it has started the daemon's components.\<close>

datatype cli_end = Returned "cli_error option" | Running "task list"

type_synonym cli_result = "cli_state \<times> printed list \<times> cli_end"

definition fail_with :: "cli_state \<Rightarrow> printed list \<Rightarrow> cli_error \<Rightarrow> cli_result" where
  "fail_with s out err = (s, out, Returned (Some err))"

definition usage :: string where
  "usage = concat (map (\<lambda>line. line @ [CHR 0x0A])
     [''usage: writerelayd <command> [options]'',
      '''',
      ''commands:'',
      ''  run       capture committed events and run configured delivery sinks'',
      ''  doctor    inspect configuration and dependencies'',
      ''  setup     install database objects and optionally create a slot'',
      ''  spool     summarize (stats), inspect, redrive, or prune delivered payloads'',
      ''  version   print build version''])"

section \<open>Flags\<close>

definition config_flags :: flag_set where
  "config_flags = [(''config'', FlagString ''./writerelay.yaml'')]"

text \<open>\<open>fs.Parse\<close> and the refusal of positional arguments, which every command but \<open>version\<close> has.\<close>

definition command_flags :: "string \<Rightarrow> flag_set \<Rightarrow> string list \<Rightarrow> cli_error + flag_set" where
  "command_flags name extra args =
     (case flag_Parse (config_flags @ extra) args of
        Inl err \<Rightarrow> Inl (CliFlag err)
      | Inr (fs, rest) \<Rightarrow> if rest \<noteq> [] then Inl (CliText (name @ '' does not accept positional arguments'')) else Inr fs)"

definition load_config :: "cli_env \<Rightarrow> flag_set \<Rightarrow> cli_error + Config" where
  "load_config e fs =
     (let path = flag_string fs ''config'' in
      case Load (cl_parsers e) path (cl_file e path) of Inl err \<Rightarrow> Inl (CliConfig err) | Inr cfg \<Rightarrow> Inr cfg)"

definition openConfiguredSpool :: "cli_env \<Rightarrow> flag_set \<Rightarrow> spool_file \<Rightarrow> spool_file \<times> (cli_error + Store)" where
  "openConfiguredSpool e fs f =
     (case load_config e fs of
        Inl err \<Rightarrow> (f, Inl err)
      | Inr cfg \<Rightarrow>
          (case Open (cl_open e) (sp_Path (cfg_Spool cfg)) f of
             (f', Inl err) \<Rightarrow> (f', Inl (CliStore err))
           | (f', Inr store) \<Rightarrow> (f', Inr store)))"

section \<open>Commands over the spool\<close>

text \<open>The rows that were encoded before a write failed.\<close>

fun encode_rows :: "cli_env \<Rightarrow> nat \<Rightarrow> printed list \<Rightarrow> printed list \<times> bool" where
  "encode_rows e i [] = ([], True)"
| "encode_rows e i (r # rs) =
     (if cl_write_fails e i then ([], False)
      else (case encode_rows e (Suc i) rs of (out, ok) \<Rightarrow> (r # out, ok)))"

definition print_rows :: "cli_env \<Rightarrow> cli_state \<Rightarrow> string \<Rightarrow> printed list \<Rightarrow> cli_result" where
  "print_rows e s what rows =
     (case encode_rows e 0 rows of
        (out, True) \<Rightarrow> (s, out, Returned None)
      | (out, False) \<Rightarrow> fail_with s out (CliText what))"

definition spoolListCommand :: "cli_env \<Rightarrow> string list \<Rightarrow> cli_state \<Rightarrow> cli_result" where
  "spoolListCommand e args s =
     (case command_flags ''spool list'' [(''limit'', FlagInt 20)] args of
        Inl err \<Rightarrow> fail_with s [] err
      | Inr fs \<Rightarrow>
          (case openConfiguredSpool e fs (cs_spool s) of
             (f, Inl err) \<Rightarrow> fail_with (s\<lparr>cs_spool := f\<rparr>) [] err
           | (f, Inr _) \<Rightarrow>
               (case ListEvents (cl_list e) (flag_int fs ''limit'') (sf_db f) of
                  (_, Some err) \<Rightarrow> fail_with (s\<lparr>cs_spool := f\<rparr>) [] (CliText err)
                | (rows, None) \<Rightarrow> print_rows e (s\<lparr>cs_spool := f\<rparr>) ''write spool row'' (map OutEvent rows))))"

definition spoolDeliveriesCommand :: "cli_env \<Rightarrow> string list \<Rightarrow> cli_state \<Rightarrow> cli_result" where
  "spoolDeliveriesCommand e args s =
     (case command_flags ''spool deliveries'' [(''limit'', FlagInt 20), (''state'', FlagString [])] args of
        Inl err \<Rightarrow> fail_with s [] err
      | Inr fs \<Rightarrow>
          (case openConfiguredSpool e fs (cs_spool s) of
             (f, Inl err) \<Rightarrow> fail_with (s\<lparr>cs_spool := f\<rparr>) [] err
           | (f, Inr _) \<Rightarrow>
               (case ListDeliveries (cl_list e) (flag_string fs ''state'') (flag_int fs ''limit'') (sf_db f) of
                  (_, Some err) \<Rightarrow> fail_with (s\<lparr>cs_spool := f\<rparr>) [] (CliText err)
                | (rows, None) \<Rightarrow> print_rows e (s\<lparr>cs_spool := f\<rparr>) ''write delivery row'' (map OutDelivery rows))))"

definition spoolRedriveCommand :: "cli_env \<Rightarrow> string list \<Rightarrow> cli_state \<Rightarrow> cli_result" where
  "spoolRedriveCommand e args s =
     (case command_flags ''spool redrive'' [(''sink'', FlagString []), (''source'', FlagString []), (''id'', FlagString [])] args of
        Inl err \<Rightarrow> fail_with s [] err
      | Inr fs \<Rightarrow>
          (let sink = flag_string fs ''sink''; source = flag_string fs ''source''; i = flag_string fs ''id'' in
           if sink = [] \<or> source = [] \<or> i = [] then fail_with s [] (CliText ''spool redrive requires --sink, --source, and --id'')
           else (case openConfiguredSpool e fs (cs_spool s) of
                   (f, Inl err) \<Rightarrow> fail_with (s\<lparr>cs_spool := f\<rparr>) [] err
                 | (f, Inr _) \<Rightarrow>
                     (case RedriveDelivery (cl_redrive e) sink source i (cl_now e) (sf_db f) of
                        (d, Some err) \<Rightarrow> fail_with (s\<lparr>cs_spool := f\<lparr>sf_db := d\<rparr>\<rparr>) [] (CliStore err)
                      | (d, None) \<Rightarrow>
                          (s\<lparr>cs_spool := f\<lparr>sf_db := d\<rparr>\<rparr>,
                           [OutRedrive sink source i], Returned None)))))"

definition spoolPruneCommand :: "cli_env \<Rightarrow> string list \<Rightarrow> cli_state \<Rightarrow> cli_result" where
  "spoolPruneCommand e args s =
     (case command_flags ''spool prune''
         [(''before'', FlagString []), (''limit'', FlagInt 1000), (''dry-run'', FlagBool False)] args of
        Inl err \<Rightarrow> fail_with s [] err
      | Inr fs \<Rightarrow>
          (case cl_parseTime e (flag_string fs ''before'') of
             None \<Rightarrow> fail_with s [] (CliText ''spool prune requires --before with an RFC 3339 timestamp'')
           | Some cutoff \<Rightarrow>
               (case load_config e fs of
                  Inl err \<Rightarrow> fail_with s [] err
                | Inr cfg \<Rightarrow>
                    (case Prune (cl_prune e) (sp_Path (cfg_Spool cfg))
                        \<lparr>po_Before = cutoff, po_Limit = flag_int fs ''limit'', po_DryRun = flag_bool fs ''dry-run''\<rparr> (sf_db (cs_spool s)) of
                       (d, result, r) \<Rightarrow>
                         (let s' = s\<lparr>cs_spool := (cs_spool s)\<lparr>sf_db := d\<rparr>\<rparr> in
                          case r of
                            Err err \<Rightarrow> fail_with s' [] (CliText err)
                          | Halted \<Rightarrow> fail_with s' [] CliHalted
                          | Ok _ \<Rightarrow>
                              if cl_write_fails e 0
                              then fail_with s' [] (CliText (if flag_bool fs ''dry-run'' then ''write prune preview''
                                     else ''write prune result (cleanup already committed; rerun dry-run to inspect)''))
                              else (s', [OutPrune result], Returned None))))))"

section \<open>The statistics summary\<close>

text \<open>\<open>Duration.String\<close>.\<close>

definition fraction_text :: "nat \<Rightarrow> nat \<Rightarrow> string" where
  "fraction_text digits n = (let f = trim_zeros (pad digits n) in if f = [] then [] else ''.'' @ f)"

definition micro_sign :: string where
  "micro_sign = [CHR 0xC2, CHR 0xB5]"

definition Duration_String :: "duration \<Rightarrow> string" where
  "Duration_String d =
     (let u = nat \<bar>d\<bar>;
          body =
            (if u = 0 then ''0s''
             else if u < 1000 then nat_decimal u @ ''ns''
             else if u < 1000000 then nat_decimal (u div 1000) @ fraction_text 3 (u mod 1000) @ micro_sign @ ''s''
             else if u < 1000000000 then nat_decimal (u div 1000000) @ fraction_text 6 (u mod 1000000) @ ''ms''
             else
               (let seconds = u div 1000000000; minutes = seconds div 60; hours = minutes div 60 in
                (if hours > 0 then nat_decimal hours @ ''h'' else []) @
                (if minutes > 0 then nat_decimal (minutes mod 60) @ ''m'' else []) @
                nat_decimal (seconds mod 60) @ fraction_text 9 (u mod 1000000000) @ ''s'')) in
      if d < 0 then ''-'' @ body else body)"

definition waitingAge :: "WaitingStats option \<Rightarrow> string" where
  "waitingAge oldest =
     (case oldest of None \<Rightarrow> ''none'' | Some w \<Rightarrow> Duration_String (i64 (wt_AgeSeconds w * 1000000000)))"

text \<open>Division to the nearest, ties to the even quotient; \<open>float64\<close> keeps 53 bits of an integer.\<close>

definition round_even :: "nat \<Rightarrow> nat \<Rightarrow> nat" where
  "round_even n m =
     (let q = n div m; r = n mod m in
      if 2 * r < m then q else if 2 * r > m then q + 1 else if even q then q else q + 1)"

fun excess_bits :: "nat \<Rightarrow> nat" where
  "excess_bits n = (if n < 2 ^ 53 then 0 else Suc (excess_bits (n div 2)))"

declare excess_bits.simps [simp del]

definition float64 :: "nat \<Rightarrow> nat" where
  "float64 n = (let k = excess_bits n in round_even n (2 ^ k) * 2 ^ k)"

text \<open>\<open>%.1f\<close> of the quotient.\<close>

definition tenths_text :: "nat \<Rightarrow> string" where
  "tenths_text t = nat_decimal (t div 10) @ ''.'' @ [digit_char (t mod 10)]"

fun size_units :: "nat \<Rightarrow> nat \<Rightarrow> string list \<Rightarrow> string" where
  "size_units v scale [] = []"
| "size_units v scale (u # us) =
     (if v < scale * 1024 * 1024 \<or> u = ''EiB'' then tenths_text (round_even (10 * v) (scale * 1024)) @ '' '' @ u
      else size_units v (scale * 1024) us)"

definition fileSize :: "int \<Rightarrow> string" where
  "fileSize n =
     (if n < 1024 then Itoa n @ '' B''
      else size_units (float64 (nat n)) 1 [''KiB'', ''MiB'', ''GiB'', ''TiB'', ''PiB'', ''EiB''])"

definition sink_cells :: "SinkStats \<Rightarrow> string list" where
  "sink_cells sink =
     [ss_Name sink, ss_Type sink, bool_text (ss_Active sink), nat_decimal (ct_Pending (ss_Deliveries sink)),
      nat_decimal (ct_RetryWait (ss_Deliveries sink)), nat_decimal (ct_Delivered (ss_Deliveries sink)),
      nat_decimal (ct_DeadLetter (ss_Deliveries sink)), waitingAge (ss_OldestWaiting sink)]"

definition writeStatsSummary :: "Stats \<Rightarrow> printed list" where
  "writeStatsSummary stats =
     [OutText (''Spool snapshot: '' @ date_time (sn_SampledAt stats) @ ''Z''),
      OutText (''Captured events: '' @ nat_decimal (sn_EventCount stats)),
      OutText (''Payloads: '' @ Itoa (int (sn_EventCount stats) - int (sn_PrunedPayloads stats)) @ '' retained | '' @
        nat_decimal (sn_PrunedPayloads stats) @ '' pruned''),
      OutText (''Durable checkpoint: '' @ sn_LastDurableLSN stats),
      OutText (''Deliveries: '' @ nat_decimal (ct_Total (sn_Deliveries stats)) @ '' total | '' @
        nat_decimal (ct_Pending (sn_Deliveries stats)) @ '' pending | '' @
        nat_decimal (ct_RetryWait (sn_Deliveries stats)) @ '' retry_wait | '' @
        nat_decimal (ct_Delivered (sn_Deliveries stats)) @ '' delivered | '' @
        nat_decimal (ct_DeadLetter (sn_Deliveries stats)) @ '' dead_letter''),
      OutText (''Oldest waiting: '' @ waitingAge (sn_OldestWaiting stats)),
      OutText (''Spool files: '' @ fileSize (fs_TotalBytes (sn_Storage stats)) @ '' total (database '' @
        fileSize (fs_DatabaseBytes (sn_Storage stats)) @ '', SQLite WAL '' @ fileSize (fs_WALBytes (sn_Storage stats)) @
        '', SHM '' @ fileSize (fs_SHMBytes (sn_Storage stats)) @ '')''),
      if sn_Sinks stats = [] then OutText ''No registered sinks.''
      else OutTable ([''SINK'', ''TYPE'', ''ACTIVE'', ''PENDING'', ''RETRY_WAIT'', ''DELIVERED'', ''DEAD_LETTER'', ''OLDEST WAITING''] #
             map sink_cells (sn_Sinks stats)),
      OutText ''Waiting = pending + retry_wait; age is since original local capture.'',
      OutText ''File sizes are approximate. This snapshot does not establish daemon or destination health.'']"

definition spoolStatsCommand :: "cli_env \<Rightarrow> string list \<Rightarrow> cli_state \<Rightarrow> cli_result" where
  "spoolStatsCommand e args s =
     (case command_flags ''spool stats'' [(''json'', FlagBool False)] args of
        Inl err \<Rightarrow> fail_with s [] err
      | Inr fs \<Rightarrow>
          (case load_config e fs of
             Inl err \<Rightarrow> fail_with s [] err
           | Inr cfg \<Rightarrow>
               (case ReadStats (cl_externals e) (cl_stats e) (sp_Path (cfg_Spool cfg)) (sf_db (cs_spool s)) of
                  (_, Some err) \<Rightarrow> fail_with s [] (CliText err)
                | (stats, None) \<Rightarrow>
                    if cl_write_fails e 0 then fail_with s [] (CliText ''write spool stats'')
                    else (s, if flag_bool fs ''json'' then [OutStats stats] else writeStatsSummary stats, Returned None))))"

definition spoolCommand :: "cli_env \<Rightarrow> string list \<Rightarrow> cli_state \<Rightarrow> cli_result" where
  "spoolCommand e args s = (case args of
     [] \<Rightarrow> fail_with s [] (CliText ''usage: writerelayd spool <stats|list|deliveries|redrive|prune> [options]'')
   | c # rest \<Rightarrow>
       if c = ''prune'' then spoolPruneCommand e rest s
       else if c = ''stats'' then spoolStatsCommand e rest s
       else if c = ''list'' then spoolListCommand e rest s
       else if c = ''deliveries'' then spoolDeliveriesCommand e rest s
       else if c = ''redrive'' then spoolRedriveCommand e rest s
       else fail_with s [] (CliUnknownSpoolCommand c))"

section \<open>Doctor\<close>

text \<open>An error as a detail of a check.\<close>

definition store_detail :: "store_error \<Rightarrow> string" where
  "store_detail err = (case err of
     ErrDurability t \<Rightarrow> t | ErrIdentityConflict a b \<Rightarrow> a @ b | ErrSinkConfigurationConflict t \<Rightarrow> t
   | ErrActiveSinkRemoval t _ \<Rightarrow> t | ErrStore t \<Rightarrow> t)"

definition check :: "string \<Rightarrow> string \<Rightarrow> string \<Rightarrow> doctor_check" where
  "check name status detail = \<lparr>ck_Name = name, ck_Status = status, ck_Detail = detail\<rparr>"

definition sink_check :: "cli_env \<Rightarrow> Config \<Rightarrow> SinkConfig \<Rightarrow> doctor_check" where
  "sink_check e cfg sink =
     (let passed = check (''delivery '' @ sc_Name sink) ''pass'' ''configuration and secret references are valid'' in
      if sc_Type sink = ''webhook'' then
        (case NewWebhookSender (cl_externals e) (cl_getenv e) sink (dc_RequestTimeout (cfg_Delivery cfg)) of
           Inl err \<Rightarrow> check (''delivery '' @ sc_Name sink) ''fail'' err
         | Inr _ \<Rightarrow> passed)
      else passed)"

definition deliveryChecks :: "cli_env \<Rightarrow> Config \<Rightarrow> doctor_check list" where
  "deliveryChecks e cfg =
     (if dc_Sinks (cfg_Delivery cfg) = [] then [check ''delivery sinks'' ''pass'' ''capture-only mode'']
      else map (sink_check e cfg) (dc_Sinks (cfg_Delivery cfg)))"

text \<open>The search for a parent directory that exists.\<close>

function parent_check :: "(string \<Rightarrow> stat_result) \<Rightarrow> string \<Rightarrow> doctor_check" where
  "parent_check stat parent =
     (case stat parent of
        StatInfo dir writable \<Rightarrow>
          if \<not> dir then check ''spool path'' ''fail'' ''parent is not a directory''
          else if \<not> writable then check ''spool path'' ''fail'' ''parent is not writable''
          else check ''spool path'' ''pass'' ''new spool can be created''
      | _ \<Rightarrow>
          if Dir parent = parent then check ''spool path'' ''fail'' ''no existing parent directory''
          else parent_check stat (Dir parent))"
  by pat_completeness auto

termination
  by (relation "measure (\<lambda>(stat, parent). path_rank parent)") (simp_all add: Dir_progress)

declare parent_check.simps [simp del]

definition spoolChecks :: "cli_env \<Rightarrow> Config \<Rightarrow> spool_file \<Rightarrow> spool_file \<times> doctor_check list" where
  "spoolChecks e cfg f =
     (let path = sp_Path (cfg_Spool cfg) in
      case cl_stat e path of
        StatInfo _ _ \<Rightarrow>
          (case Open (cl_open e) path f of
             (f', Inl err) \<Rightarrow> (f', [check ''spool database'' ''fail'' (store_detail err)])
           | (f', Inr _) \<Rightarrow>
               (case SchemaVersion (cl_version_fails e) (sf_db f') of
                  None \<Rightarrow> (f', [check ''spool schema'' ''fail'' ''read schema version''])
                | Some version \<Rightarrow> (f', [check ''spool schema'' ''pass'' (''version '' @ nat_decimal version)])))
      | StatError err \<Rightarrow> (f, [check ''spool path'' ''fail'' err])
      | StatNotExist \<Rightarrow> (f, [parent_check (cl_stat e) (Dir path)]))"

definition doctorCommand :: "cli_env \<Rightarrow> string list \<Rightarrow> cli_state \<Rightarrow> cli_result" where
  "doctorCommand e args s =
     (case command_flags ''doctor'' [] args of
        Inl err \<Rightarrow> fail_with s [] err
      | Inr fs \<Rightarrow>
          (case load_config e fs of
             Inl err \<Rightarrow> fail_with s [] err
           | Inr cfg \<Rightarrow>
               (case Doctor (cl_externals e) (cl_getenv e) (cl_doctor e) cfg (cs_server s) of
                  (_, Some err) \<Rightarrow> fail_with s [] (CliCapture err)
                | (checks, None) \<Rightarrow>
                    (case spoolChecks e cfg (cs_spool s) of (f, own) \<Rightarrow>
                       (let all = checks @ own @ deliveryChecks e cfg; s' = s\<lparr>cs_spool := f\<rparr> in
                        if list_ex (\<lambda>c. ck_Status c = ''fail'') all
                        then fail_with s' (map OutCheck all) (CliText ''one or more doctor checks failed'')
                        else (s', map OutCheck all, Returned None))))))"

section \<open>The other commands\<close>

definition setupCommand :: "cli_env \<Rightarrow> string list \<Rightarrow> cli_state \<Rightarrow> cli_result" where
  "setupCommand e args s =
     (case command_flags ''setup'' [(''create-slot'', FlagBool False)] args of
        Inl err \<Rightarrow> fail_with s [] err
      | Inr fs \<Rightarrow>
          (case load_config e fs of
             Inl err \<Rightarrow> fail_with s [] err
           | Inr cfg \<Rightarrow>
               (case Setup (cl_externals e) (cl_getenv e) (cl_setup e) cfg (flag_bool fs ''create-slot'') (cs_server s) of
                  (server, _, Some err) \<Rightarrow> fail_with (s\<lparr>cs_server := server\<rparr>) [] (CliCapture err)
                | (server, result, None) \<Rightarrow>
                    (s\<lparr>cs_server := server\<rparr>,
                     [OutText (''setup complete: installed_function='' @ bool_text (su_InstalledFunction result) @
                        '' created_publication='' @ bool_text (su_CreatedPublication result) @
                        '' created_slot='' @ bool_text (su_CreatedSlot result))], Returned None))))"

definition runCommand :: "cli_env \<Rightarrow> string list \<Rightarrow> cli_state \<Rightarrow> cli_result" where
  "runCommand e args s =
     (case command_flags ''run'' [] args of
        Inl err \<Rightarrow> fail_with s [] err
      | Inr fs \<Rightarrow>
          (case load_config e fs of
             Inl err \<Rightarrow> fail_with s [] err
           | Inr cfg \<Rightarrow>
               (case logging_New (cfg_Logging cfg) of
                  Inl level \<Rightarrow> fail_with s [] (CliUnsupportedLevel level)
                | Inr _ \<Rightarrow>
                    (case app_Run (cl_externals e) \<lparr>az_open = cl_open e, az_getenv = cl_getenv e, az_configure = cl_configure e\<rparr>
                        cfg (cs_spool s) of
                       (f, Inl err) \<Rightarrow> fail_with (s\<lparr>cs_spool := f\<rparr>) [] (CliApp err)
                     | (f, Inr tasks) \<Rightarrow> (s\<lparr>cs_spool := f\<rparr>, [], Running tasks)))))"

definition versionCommand :: "string list \<Rightarrow> BuildInfo \<Rightarrow> cli_state \<Rightarrow> cli_result" where
  "versionCommand args build s =
     (case flag_Parse [] args of
        Inl err \<Rightarrow> fail_with s [] (CliFlag err)
      | Inr _ \<Rightarrow>
          (s, [OutText (''writerelayd '' @ bi_Version build @ '' commit='' @ bi_Commit build @ '' built='' @ bi_Date build)],
           Returned None))"

definition Execute :: "cli_env \<Rightarrow> BuildInfo \<Rightarrow> string list \<Rightarrow> cli_state \<Rightarrow> cli_result" where
  "Execute e build args s = (case args of
     [] \<Rightarrow> fail_with s [OutStderr usage] (CliText ''command is required'')
   | c # rest \<Rightarrow>
       if c = ''version'' then versionCommand rest build s
       else if c = ''run'' then runCommand e rest s
       else if c = ''doctor'' then doctorCommand e rest s
       else if c = ''setup'' then setupCommand e rest s
       else if c = ''spool'' then spoolCommand e rest s
       else if c \<in> {''help'', ''-h'', ''--help''} then (s, [OutText usage], Returned None)
       else fail_with s [OutStderr usage] (CliUnknownCommand c))"

text \<open>The process: an error is written to the standard error and gives the exit status 1.\<close>

datatype process_end = Exited nat | Serving "task list"

definition writerelayd_main :: "cli_env \<Rightarrow> BuildInfo \<Rightarrow> string list \<Rightarrow> cli_state \<Rightarrow> cli_state \<times> printed list \<times> process_end" where
  "writerelayd_main e build args s =
     (case Execute e build args s of
        (s', out, Returned (Some err)) \<Rightarrow> (s', out @ [OutError err], Exited 1)
      | (s', out, Returned None) \<Rightarrow> (s', out, Exited 0)
      | (s', out, Running tasks) \<Rightarrow> (s', out, Serving tasks))"

section \<open>Inspecting commands change no rows\<close>

text \<open>The same tables, the version of the schema aside.\<close>

definition same_rows :: "db \<Rightarrow> db \<Rightarrow> bool" where
  "same_rows d d' \<longleftrightarrow> d'\<lparr>db_schema := db_schema d\<rparr> = d"

lemma same_rows_refl [simp]: "same_rows d d"
  by (simp add: same_rows_def)

lemma Open_same_rows: "schema_at k (sf_db f) \<Longrightarrow> Open e path f = (f', r) \<Longrightarrow> same_rows (sf_db f) (sf_db f')"
  using Open_database by (fastforce simp: same_rows_def)

lemma openConfiguredSpool_rows:
  "schema_at k (sf_db f) \<Longrightarrow> openConfiguredSpool e fs f = (f', r) \<Longrightarrow> same_rows (sf_db f) (sf_db f')"
  by (auto simp: openConfiguredSpool_def split: sum.splits prod.splits dest: Open_same_rows)

lemma spoolChecks_rows: "schema_at k (sf_db f) \<Longrightarrow> spoolChecks e cfg f = (f', checks) \<Longrightarrow> same_rows (sf_db f) (sf_db f')"
  by (auto simp: spoolChecks_def Let_def split: stat_result.splits sum.splits prod.splits option.splits dest: Open_same_rows)

definition prune_flags :: flag_set where
  "prune_flags = [(''before'', FlagString []), (''limit'', FlagInt 1000), (''dry-run'', FlagBool False)]"

text \<open>The commands that are meant to change the rows of a spool.\<close>

definition mutating :: "string list \<Rightarrow> bool" where
  "mutating args = (case args of
     [] \<Rightarrow> False
   | c # rest \<Rightarrow>
       c = ''run'' \<or>
       c = ''spool'' \<and>
         (case rest of
            [] \<Rightarrow> False
          | c' # flags \<Rightarrow>
              c' = ''redrive'' \<or>
              c' = ''prune'' \<and>
                (case command_flags ''spool prune'' prune_flags flags of Inl _ \<Rightarrow> False | Inr fs \<Rightarrow> \<not> flag_bool fs ''dry-run'')))"

lemma print_rows_state: "print_rows e s what rows = (s', out, r) \<Longrightarrow> s' = s"
  by (auto simp: print_rows_def fail_with_def split: prod.splits bool.splits)

lemma fail_with_state: "fail_with s out err = (s', out', r) \<Longrightarrow> s' = s"
  by (simp add: fail_with_def)

lemma spoolListCommand_rows:
  assumes "schema_at k (sf_db (cs_spool s))" and "spoolListCommand e args s = (s', out, r)"
  shows "same_rows (sf_db (cs_spool s)) (sf_db (cs_spool s')) \<and> cs_server s' = cs_server s"
  using assms openConfiguredSpool_rows [OF assms(1)]
  by (auto simp: spoolListCommand_def fail_with_def split: sum.splits prod.splits option.splits dest!: print_rows_state)

lemma spoolDeliveriesCommand_rows:
  assumes "schema_at k (sf_db (cs_spool s))" and "spoolDeliveriesCommand e args s = (s', out, r)"
  shows "same_rows (sf_db (cs_spool s)) (sf_db (cs_spool s')) \<and> cs_server s' = cs_server s"
  using assms openConfiguredSpool_rows [OF assms(1)]
  by (auto simp: spoolDeliveriesCommand_def fail_with_def split: sum.splits prod.splits option.splits dest!: print_rows_state)

lemma spoolStatsCommand_state: "spoolStatsCommand e args s = (s', out, r) \<Longrightarrow> s' = s"
  by (auto simp: spoolStatsCommand_def fail_with_def split: sum.splits prod.splits option.splits if_splits)

lemma Prune_dry: "Prune e path options d = (d', result, r) \<Longrightarrow> po_DryRun options \<Longrightarrow> d' = d"
  unfolding Prune_def by (erule pruneWithHooks_cases) auto

lemma spoolPruneCommand_rows:
  assumes "spoolPruneCommand e args s = (s', out, r)"
    and "\<And>fs. command_flags ''spool prune'' prune_flags args = Inr fs \<Longrightarrow> flag_bool fs ''dry-run''"
  shows "s' = s"
proof (cases "command_flags ''spool prune'' prune_flags args")
  case (Inr fs)
  then have dry: "flag_bool fs ''dry-run''" using assms(2) by blast
  have "d' = d" if "Prune (cl_prune e) path \<lparr>po_Before = t, po_Limit = n, po_DryRun = flag_bool fs ''dry-run''\<rparr> d = (d', result, r')"
    for path t n d d' result r'
    using Prune_dry [OF that] dry by simp
  then show ?thesis
    using assms(1) Inr
    by (auto simp: spoolPruneCommand_def prune_flags_def fail_with_def Let_def
        split: option.splits sum.splits prod.splits outcome.splits if_splits)
qed (use assms(1) in \<open>auto simp: spoolPruneCommand_def prune_flags_def fail_with_def\<close>)

lemma doctorCommand_rows:
  assumes "schema_at k (sf_db (cs_spool s))" and "doctorCommand e args s = (s', out, r)"
  shows "same_rows (sf_db (cs_spool s)) (sf_db (cs_spool s')) \<and> cs_server s' = cs_server s"
  using assms spoolChecks_rows [OF assms(1)]
  by (auto simp: doctorCommand_def fail_with_def Let_def split: sum.splits prod.splits option.splits if_splits)

lemma setupCommand_spool: "setupCommand e args s = (s', out, r) \<Longrightarrow> cs_spool s' = cs_spool s"
  by (auto simp: setupCommand_def fail_with_def split: sum.splits prod.splits option.splits)

lemma versionCommand_state: "versionCommand args build s = (s', out, r) \<Longrightarrow> s' = s"
  by (auto simp: versionCommand_def fail_with_def split: sum.splits)

lemma spoolCommand_rows:
  assumes "schema_at k (sf_db (cs_spool s))" and "spoolCommand e args s = (s', out, r)" and "\<not> mutating (''spool'' # args)"
  shows "same_rows (sf_db (cs_spool s)) (sf_db (cs_spool s')) \<and> cs_server s' = cs_server s"
proof (cases args)
  case Nil
  with assms(2) show ?thesis by (simp add: spoolCommand_def fail_with_def)
next
  case (Cons c rest)
  have "\<And>fs. c = ''prune'' \<Longrightarrow> command_flags ''spool prune'' prune_flags rest = Inr fs \<Longrightarrow> flag_bool fs ''dry-run''" "c \<noteq> ''redrive''"
    using assms(3) Cons by (auto simp: mutating_def)
  then show ?thesis
    using assms(2) spoolListCommand_rows [OF assms(1)] spoolDeliveriesCommand_rows [OF assms(1)]
      spoolStatsCommand_state [of e rest s s' out r] spoolPruneCommand_rows [of e rest s s' out r]
    by (auto simp: Cons spoolCommand_def fail_with_def split: if_splits)
qed

text \<open>(C33) Inspecting is safe: whatever the arguments, a command other than \<open>run\<close>, \<open>spool redrive\<close> and
  \<open>spool prune\<close> without \<open>--dry-run\<close> leaves every row of the spool as it was, also when it fails, and
  only \<open>setup\<close> changes the server. At most the missing migrations of the schema are applied.\<close>

theorem inspect_keeps_rows:
  assumes "schema_at k (sf_db (cs_spool s))" and "Execute e build args s = (s', out, r)" and "\<not> mutating args"
  shows "same_rows (sf_db (cs_spool s)) (sf_db (cs_spool s')) \<and> (cs_server s' = cs_server s \<or> take 1 args = [''setup''])"
proof (cases args)
  case Nil
  with assms(2) show ?thesis by (simp add: Execute_def fail_with_def)
next
  case (Cons c rest)
  have "c \<noteq> ''run''" using assms(3) Cons by (simp add: mutating_def)
  then show ?thesis
    using assms(2,3) Cons doctorCommand_rows [OF assms(1)] spoolCommand_rows [OF assms(1)]
      setupCommand_spool [of e rest s s' out r] versionCommand_state [of rest build s s' out r]
    by (auto simp: Execute_def fail_with_def split: if_splits)
qed

section \<open>Doctor and the daemon\<close>

lemma load_config_ok: "load_config e fs = Inr cfg \<Longrightarrow> config_ok (cl_parsers e) cfg"
  by (auto simp: load_config_def Load_def Decode_def Let_def split: option.splits sum.splits dest: defaults_config_ok)

text \<open>A validated configuration always has a log handler.\<close>

lemma logging_total: "config_ok p cfg \<Longrightarrow> \<exists>h. logging_New (cfg_Logging cfg) = Inr h"
  by (auto simp: config_ok_def logging_New_def)

lemma sink_check_pass:
  "ck_Status (sink_check e cfg sink) \<noteq> ''fail'' \<Longrightarrow> sc_Type sink = ''webhook'' \<Longrightarrow>
     \<exists>r. NewWebhookSender (cl_externals e) (cl_getenv e) sink (dc_RequestTimeout (cfg_Delivery cfg)) = Inr r"
  by (auto simp: sink_check_def check_def Let_def split: sum.splits)

lemma build_sinks_total:
  assumes "\<forall>sink \<in> set cs. sc_Type sink = ''stdout'' \<or>
      sc_Type sink = ''webhook'' \<and> (\<exists>r. NewWebhookSender x getenv sink timeout = Inr r)"
  shows "\<exists>r. build_sinks x getenv timeout cs sinks regs = Inr r"
  using assms
proof (induction cs arbitrary: sinks regs)
  case (Cons c cs)
  then have tail: "\<exists>r. build_sinks x getenv timeout cs sinks' regs' = Inr r" for sinks' regs' by simp
  from Cons.prems consider "sc_Type c = ''stdout''" | r where "sc_Type c = ''webhook''" "NewWebhookSender x getenv c timeout = Inr r"
    by auto
  then show ?case
  proof cases
    case 2
    then show ?thesis using tail by (cases r) simp
  qed (use tail in simp)
qed simp

lemma deliveryChecks_build:
  assumes "config_ok (cl_parsers e) cfg" and "\<forall>c \<in> set (deliveryChecks e cfg). ck_Status c \<noteq> ''fail''"
  shows "\<exists>r. build_sinks (cl_externals e) (cl_getenv e) (dc_RequestTimeout (cfg_Delivery cfg)) (dc_Sinks (cfg_Delivery cfg)) [] [] = Inr r"
proof (rule build_sinks_total, intro ballI)
  fix sink
  assume sink: "sink \<in> set (dc_Sinks (cfg_Delivery cfg))"
  then have "sink_ok (cl_parsers e) sink" using assms(1) by (simp add: config_ok_def delivery_config_ok_def)
  moreover have "ck_Status (sink_check e cfg sink) \<noteq> ''fail''"
    using assms(2) sink by (auto simp: deliveryChecks_def split: if_splits)
  ultimately show "sc_Type sink = ''stdout'' \<or>
      sc_Type sink = ''webhook'' \<and> (\<exists>r. NewWebhookSender (cl_externals e) (cl_getenv e) sink (dc_RequestTimeout (cfg_Delivery cfg)) = Inr r)"
    using sink_check_pass by (auto simp: sink_ok_def)
qed

definition graded :: "doctor_check \<Rightarrow> bool" where
  "graded c \<longleftrightarrow> ck_Status c = ''pass'' \<or> ck_Status c = ''fail''"

lemma graded_checkValue [simp]: "graded (checkValue n ok d)"
  by (simp add: graded_def checkValue_def)

lemma graded_checkPositive [simp]: "graded (checkPositive n v)"
  by (simp add: graded_def checkPositive_def checkValue_def)

lemma graded_record [simp]:
  "graded \<lparr>ck_Name = n, ck_Status = ''pass'', ck_Detail = d\<rparr>"
  "graded \<lparr>ck_Name = n, ck_Status = ''fail'', ck_Detail = d\<rparr>"
  by (simp_all add: graded_def)

lemma graded_settings: "list_all graded (settings_checks v server)"
  by (simp add: settings_checks_def Let_def)

lemma graded_role: "list_all graded (role_checks v)"
  by (simp add: role_checks_def Let_def)

lemma graded_publication: "list_all graded (publication_checks cfg server)"
  by (simp add: publication_checks_def Let_def split: option.split)

lemma graded_slot: "list_all graded (slot_checks x v cfg slot)"
  by (simp add: slot_checks_def Let_def)

lemma graded_size: "graded (size_check cfg)"
  by (simp add: size_check_def graded_def)

lemma Doctor_statuses:
  assumes "Doctor x env v cfg server = (checks, err)"
  shows "list_all graded checks"
  using assms graded_settings [of v server] graded_role [of v] graded_publication [of cfg server] graded_slot [of x v cfg] graded_size [of cfg]
  by (auto simp: Doctor_def Let_def split: sum.splits if_splits)

text \<open>What a successful \<open>doctor\<close> has seen.\<close>

lemma doctorCommand_success:
  assumes "doctorCommand e args s = (s', out, Returned None)"
  obtains fs cfg checks own where "command_flags ''doctor'' [] args = Inr fs" "load_config e fs = Inr cfg"
    "Doctor (cl_externals e) (cl_getenv e) (cl_doctor e) cfg (cs_server s) = (checks, None)"
    "spoolChecks e cfg (cs_spool s) = (cs_spool s', own)"
    "\<forall>c \<in> set (checks @ own @ deliveryChecks e cfg). ck_Status c \<noteq> ''fail''"
  using assms
  by (auto simp: doctorCommand_def fail_with_def Let_def list_ex_iff split: sum.splits prod.splits option.splits if_splits)

text \<open>(C32) A successful \<open>doctor\<close> means that the daemon can start with the same configuration and
  environment: the server is ready, the log handler and every sink can be built, and a spool that
  exists is open at the current version of the schema.\<close>

theorem doctor_ready_to_run:
  assumes "schema_at k (sf_db (cs_spool s))" and "doctorCommand e args s = (s', out, Returned None)"
    and "dr_connected_database (cl_doctor e) = sv_database (cs_server s)"
    and "min_int64 \<le> sv_version (cs_server s)" and "sv_version (cs_server s) \<le> max_int64"
  shows "\<exists>fs cfg h r. command_flags ''doctor'' [] args = Inr fs \<and> load_config e fs = Inr cfg \<and>
    server_ready (cl_externals e) cfg (cs_server s) \<and> logging_New (cfg_Logging cfg) = Inr h \<and>
    build_sinks (cl_externals e) (cl_getenv e) (dc_RequestTimeout (cfg_Delivery cfg)) (dc_Sinks (cfg_Delivery cfg)) [] [] = Inr r \<and>
    ((\<exists>dir w. cl_stat e (sp_Path (cfg_Spool cfg)) = StatInfo dir w) \<longrightarrow> schema_version (sf_db (cs_spool s')) = currentSchemaVersion)"
  using assms(2)
proof (rule doctorCommand_success)
  fix fs cfg checks own
  assume fs: "command_flags ''doctor'' [] args = Inr fs" and cfg: "load_config e fs = Inr cfg"
    and doctor: "Doctor (cl_externals e) (cl_getenv e) (cl_doctor e) cfg (cs_server s) = (checks, None)"
    and spool: "spoolChecks e cfg (cs_spool s) = (cs_spool s', own)"
    and pass: "\<forall>c \<in> set (checks @ own @ deliveryChecks e cfg). ck_Status c \<noteq> ''fail''"
  note ok = load_config_ok [OF cfg]
  have "\<forall>c \<in> set checks. ck_Status c = ''pass''" using Doctor_statuses [OF doctor] pass by (auto simp: list_all_iff graded_def)
  then have "server_ready (cl_externals e) cfg (cs_server s)" using doctor_server_ready [OF doctor] assms(3-5) by blast
  moreover have "\<forall>c \<in> set (deliveryChecks e cfg). ck_Status c \<noteq> ''fail''" using pass by simp
  moreover have "schema_version (sf_db (cs_spool s')) = currentSchemaVersion"
    if stat: "cl_stat e (sp_Path (cfg_Spool cfg)) = StatInfo dir w" for dir w
  proof -
    obtain store where "Open (cl_open e) (sp_Path (cfg_Spool cfg)) (cs_spool s) = (cs_spool s', Inr store)"
      using spool pass stat
      by (auto simp: spoolChecks_def Let_def check_def split: prod.splits sum.splits option.splits)
    then show ?thesis using Open_database [OF assms(1)] schema_version_at by fastforce
  qed
  ultimately show ?thesis using fs cfg logging_total [OF ok] deliveryChecks_build [OF ok] by blast
qed

text \<open>(C34) \<open>doctor\<close> writes: on a spool of an older version its check opens the file for use, which
  applies the missing migrations, so that the version before is lost.\<close>

theorem doctor_migrates:
  assumes "schema_at k (sf_db f)" and "k < currentSchemaVersion" and "open_quietly (cl_open e)"
    and "cl_stat e (sp_Path (cfg_Spool cfg)) = StatInfo dir w" and "sp_Path (cfg_Spool cfg) \<noteq> []"
  shows "schema_version (sf_db f) = k \<and> schema_version (sf_db (fst (spoolChecks e cfg f))) = currentSchemaVersion"
proof -
  obtain f' store where "Open (cl_open e) (sp_Path (cfg_Spool cfg)) f = (f', Inr store)" "schema_version (sf_db f') = currentSchemaVersion"
    using Open_quiet [OF assms(1,5,3)] by blast
  then have "schema_version (sf_db (fst (spoolChecks e cfg f))) = currentSchemaVersion"
    using assms(4) by (auto simp: spoolChecks_def Let_def split: option.splits)
  then show ?thesis using schema_version_at [OF assms(1)] by simp
qed

section \<open>Printed sizes\<close>

lemma excess_bits_small: "n < 2 ^ 53 \<Longrightarrow> float64 n = n"
  by (simp add: float64_def excess_bits.simps [of n] round_even_def)

lemma round_even_near:
  assumes "0 < m"
  shows "2 * (round_even n m * m) \<le> 2 * n + m" "2 * n \<le> 2 * (round_even n m * m) + m"
proof -
  obtain q r where q: "q = n div m" and r: "r = n mod m" by blast
  have n: "n = q * m + r" and "r < m" using assms unfolding q r by simp_all
  have round: "round_even n m = (if 2 * r < m then q else if 2 * r > m then q + 1 else if even q then q else q + 1)"
    by (simp add: round_even_def Let_def q r)
  have "round_even n m * m = q * m \<and> 2 * r \<le> m \<or> round_even n m * m = q * m + m \<and> m \<le> 2 * r"
    unfolding round by simp
  with n \<open>r < m\<close> show "2 * (round_even n m * m) \<le> 2 * n + m" "2 * n \<le> 2 * (round_even n m * m) + m"
    by linarith+
qed

lemma size_units_spec:
  assumes "us \<noteq> []" and "''EiB'' \<notin> set (butlast us)" and "scale * 1024 \<le> v" and "v < scale * 1024 ^ Suc (length us)"
  shows "\<exists>i < length us. scale * 1024 ^ Suc i \<le> v \<and> v < scale * 1024 ^ Suc (Suc i) \<and>
    size_units v scale us = tenths_text (round_even (10 * v) (scale * 1024 ^ Suc i)) @ '' '' @ us ! i"
  using assms
proof (induction us arbitrary: scale)
  case (Cons u us)
  show ?case
  proof (cases "v < scale * 1024 * 1024")
    case True
    then show ?thesis using Cons.prems(3) by (intro exI [of _ 0]) (simp add: mult.assoc)
  next
    case False
    then have us: "us \<noteq> []" using Cons.prems(4) by auto
    have "u \<noteq> ''EiB''" "''EiB'' \<notin> set (butlast us)" using Cons.prems(2) us by auto
    moreover have "v < scale * 1024 * 1024 ^ Suc (length us)" using Cons.prems(4) by (simp add: mult.assoc)
    ultimately obtain i where i: "i < length us" "scale * 1024 * 1024 ^ Suc i \<le> v" "v < scale * 1024 * 1024 ^ Suc (Suc i)"
      "size_units v (scale * 1024) us = tenths_text (round_even (10 * v) (scale * 1024 * 1024 ^ Suc i)) @ '' '' @ us ! i"
      using Cons.IH [OF us, of "scale * 1024"] False by auto
    show ?thesis
    proof (intro exI [of _ "Suc i"] conjI)
      show "size_units v scale (u # us) = tenths_text (round_even (10 * v) (scale * 1024 ^ Suc (Suc i))) @ '' '' @ (u # us) ! Suc i"
        using i(4) False \<open>u \<noteq> ''EiB''\<close> by (simp add: mult.assoc)
    qed (use i in \<open>simp_all add: mult.assoc\<close>)
  qed
qed simp

text \<open>The size that the summary prints for a file of at least one kibibyte is in the largest unit
  that keeps it at one or more, rounded to the nearest tenth of that unit.\<close>

theorem fileSize_rounds:
  assumes "1024 \<le> n" and "n < 2 ^ 53"
  shows "\<exists>i t. i < 5 \<and> 1024 ^ Suc i \<le> n \<and> n < 1024 ^ Suc (Suc i) \<and>
    fileSize (int n) = tenths_text t @ '' '' @ [''KiB'', ''MiB'', ''GiB'', ''TiB'', ''PiB''] ! i \<and>
    2 * \<bar>int t * 1024 ^ Suc i - 10 * int n\<bar> \<le> 1024 ^ Suc i"
proof -
  let ?us = "[''KiB'', ''MiB'', ''GiB'', ''TiB'', ''PiB'', ''EiB'']"
  have "n < 1 * 1024 ^ Suc (length ?us)" using assms(2) by simp
  then obtain i where i: "i < length ?us" "1 * 1024 ^ Suc i \<le> n" "n < 1 * 1024 ^ Suc (Suc i)"
    "size_units n 1 ?us = tenths_text (round_even (10 * n) (1 * 1024 ^ Suc i)) @ '' '' @ ?us ! i"
    using size_units_spec [of ?us 1 n] assms(1) by auto
  have "i < 5"
  proof (rule ccontr)
    assume "\<not> i < 5"
    then have "(1024 :: nat) ^ 6 \<le> 1024 ^ Suc i" by (intro power_increasing) auto
    then show False using i(2) assms(2) by simp
  qed
  let ?t = "round_even (10 * n) (1024 ^ Suc i)"
  have "?us ! i = [''KiB'', ''MiB'', ''GiB'', ''TiB'', ''PiB''] ! i"
    using \<open>i < 5\<close> nth_append [of "[''KiB'', ''MiB'', ''GiB'', ''TiB'', ''PiB'']" "[''EiB'']" i] by simp
  then have size: "fileSize (int n) = tenths_text ?t @ '' '' @ [''KiB'', ''MiB'', ''GiB'', ''TiB'', ''PiB''] ! i"
    using i(4) assms by (simp add: fileSize_def excess_bits_small)
  have "2 * \<bar>int ?t * 1024 ^ Suc i - 10 * int n\<bar> \<le> 1024 ^ Suc i"
  proof -
    have "2 * (?t * 1024 ^ Suc i) \<le> 2 * (10 * n) + 1024 ^ Suc i" "2 * (10 * n) \<le> 2 * (?t * 1024 ^ Suc i) + 1024 ^ Suc i"
      by (rule round_even_near; simp)+
    then have "int (2 * (?t * 1024 ^ Suc i)) \<le> int (2 * (10 * n) + 1024 ^ Suc i)"
      "int (2 * (10 * n)) \<le> int (2 * (?t * 1024 ^ Suc i) + 1024 ^ Suc i)" by (simp_all only: of_nat_le_iff)
    then show ?thesis by simp
  qed
  with \<open>i < 5\<close> i(2,3) size show ?thesis by (intro exI [of _ i] exI [of _ ?t]) simp
qed

section \<open>A setting in which everything works\<close>

definition quiet_cli :: cli_env where
  "quiet_cli = \<lparr>cl_externals = example_externals, cl_parsers = example_parsers, cl_file = (\<lambda>_. Some (Inr example_config)),
     cl_getenv = (\<lambda>_. Some ''host=db''), cl_parseTime = (\<lambda>_. None), cl_now = 40, cl_stat = (\<lambda>_. StatInfo False True),
     cl_open = quiet_open, cl_version_fails = False, cl_list = quiet_list, cl_redrive = ExecOk, cl_prune = example_prune_env,
     cl_stats = quiet_stats, cl_setup = quiet_setup, cl_doctor = quiet_doctor, cl_configure = quiet_configure,
     cl_write_fails = (\<lambda>_. False)\<rparr>"

definition example_state :: cli_state where
  "example_state = \<lparr>cs_spool = old_file, cs_server = fst example_setup\<rparr>"

definition example_build :: BuildInfo where
  "example_build = \<lparr>bi_Version = ''dev'', bi_Commit = ''unknown'', bi_Date = ''unknown''\<rparr>"

lemma quiet_flags: "command_flags ''doctor'' [] [] = Inr config_flags"
  by (simp add: command_flags_def config_flags_def flag_Parse.simps)

lemma quiet_load: "load_config quiet_cli config_flags = Inr example_validated"
  using example_validates by (simp add: load_config_def Let_def quiet_cli_def Load_def Decode_def)

lemma example_sinks: "\<forall>c \<in> set (deliveryChecks quiet_cli example_validated). ck_Status c \<noteq> ''fail''"
  by (simp add: deliveryChecks_def sink_check_def check_def quiet_cli_def example_validated_def config_defs example_config_def
      orders_config_def example_parsers_def Let_def NewWebhookSender_def NewWebhookSenderWithHooks_def no_hooks_def optionalSecret_def)

theorem inspect_keeps_rows_witness:
  "same_rows (sf_db old_file) (sf_db (cs_spool (fst (Execute quiet_cli example_build [''spool'', ''list''] example_state))))"
  using inspect_keeps_rows [of 1 example_state quiet_cli example_build "[''spool'', ''list'']"] old_file_at
  by (simp add: example_state_def mutating_def) (metis prod.collapse)

theorem doctor_migrates_witness:
  "schema_version (sf_db old_file) = 1 \<and>
   schema_version (sf_db (fst (spoolChecks quiet_cli example_validated old_file))) = currentSchemaVersion"
  by (rule doctor_migrates [OF old_file_at, where dir = False and w = True])
    (simp_all add: currentSchemaVersion_def quiet_open_quiet quiet_cli_def example_validated_def config_defs example_config_def
      orders_config_def example_parsers_def Let_def)

theorem fileSize_rounds_witness: "\<exists>t. fileSize 1536 = tenths_text t @ '' KiB'' \<and> 2 * \<bar>int t * 1024 - 15360\<bar> \<le> 1024"
proof -
  obtain i t where "i < 5" "1024 ^ Suc i \<le> (1536 :: nat)"
    "fileSize 1536 = tenths_text t @ '' '' @ [''KiB'', ''MiB'', ''GiB'', ''TiB'', ''PiB''] ! i"
    "2 * \<bar>int t * 1024 ^ Suc i - 10 * 1536\<bar> \<le> 1024 ^ Suc i"
    using fileSize_rounds [of 1536] by auto
  moreover have "i = 0"
  proof (rule ccontr)
    assume "i \<noteq> 0"
    then have "(1024 :: nat) ^ 2 \<le> 1024 ^ Suc i" by (intro power_increasing) auto
    with \<open>1024 ^ Suc i \<le> (1536 :: nat)\<close> show False by simp
  qed
  ultimately show ?thesis by (intro exI [of _ t]) simp
qed

lemma example_doctor_server:
  obtains checks where "Doctor example_externals (\<lambda>_. Some ''host=db'') quiet_doctor example_validated (fst example_setup) = (checks, None)"
    "\<forall>c \<in> set checks. ck_Status c = ''pass''"
proof
  let ?d = "Doctor example_externals (\<lambda>_. Some ''host=db'') quiet_doctor example_validated (fst example_setup)"
  have pg: "pg_DSN (cfg_Postgres example_validated) = []" "pg_DSNEnv (cfg_Postgres example_validated) = ''WRITERELAY_DSN''"
    "pg_Slot (cfg_Postgres example_validated) = ''writerelay''" "pg_Publication (cfg_Postgres example_validated) = ''writerelay''"
    by (simp_all add: example_validated_def config_defs example_config_def orders_config_def example_parsers_def Let_def)
  note defs = Doctor_def Let_def setup_defs quiet_doctor_def fresh_server_def example_config_def pg
        example_externals_def parse_bits_string parse_slot_lsn_def install_emit_def create_publication_def new_slot_def
  show "?d = (fst ?d, None)" by (rule prod_eqI) (simp_all add: defs)
  show "\<forall>c \<in> set (fst ?d). ck_Status c = ''pass''"
    by (simp add: defs settings_checks_def role_checks_def publication_checks_def slot_checks_def size_check_def checkPositive_def
        Atoi_Itoa min_int64_def max_int64_def Atoi_ten)
qed

lemma example_doctor:
  obtains s' out where "doctorCommand quiet_cli [] example_state = (s', out, Returned None)"
proof -
  obtain checks where checks: "Doctor (cl_externals quiet_cli) (cl_getenv quiet_cli) (cl_doctor quiet_cli) example_validated
      (cs_server example_state) = (checks, None)" "\<forall>c \<in> set checks. ck_Status c = ''pass''"
    using example_doctor_server by (auto simp: quiet_cli_def example_state_def)
  obtain f' store where opened: "Open quiet_open (sp_Path (cfg_Spool example_validated)) old_file = (f', Inr store)"
    "schema_version (sf_db f') = currentSchemaVersion"
    using Open_quiet [OF old_file_at _ quiet_open_quiet, of "sp_Path (cfg_Spool example_validated)"]
    by (auto simp: example_validated_def config_defs example_config_def orders_config_def example_parsers_def Let_def)
  from opened(2) have "db_schema (sf_db f') \<noteq> []" by (auto simp: schema_version_def currentSchemaVersion_def)
  with opened(1) obtain own where own: "spoolChecks quiet_cli example_validated (cs_spool example_state) = (f', own)"
    "\<forall>c \<in> set own. ck_Status c \<noteq> ''fail''"
    by (simp add: spoolChecks_def Let_def quiet_cli_def example_state_def SchemaVersion_def check_def)
  have "doctorCommand quiet_cli [] example_state =
      (example_state\<lparr>cs_spool := f'\<rparr>, map OutCheck (checks @ own @ deliveryChecks quiet_cli example_validated), Returned None)"
    using checks(2) own(2) example_sinks
    by (auto simp: doctorCommand_def quiet_flags quiet_load checks(1) own(1) Let_def list_ex_iff)
  then show thesis by (rule that)
qed

theorem doctor_ready_to_run_witness: "\<exists>h. logging_New (cfg_Logging example_validated) = Inr h \<and>
    server_ready example_externals example_validated (fst example_setup)"
proof (rule example_doctor)
  fix s' out
  assume "doctorCommand quiet_cli [] example_state = (s', out, Returned None)"
  moreover have "schema_at 1 (sf_db (cs_spool example_state))" using old_file_at by (simp add: example_state_def)
  moreover have "dr_connected_database (cl_doctor quiet_cli) = sv_database (cs_server example_state)"
    "min_int64 \<le> sv_version (cs_server example_state)" "sv_version (cs_server example_state) \<le> max_int64"
    by (simp_all add: quiet_cli_def example_state_def setup_defs quiet_doctor_def fresh_server_def example_config_def install_emit_def
        create_publication_def new_slot_def min_int64_def max_int64_def)
  ultimately obtain h where "logging_New (cfg_Logging example_validated) = Inr h"
    "server_ready (cl_externals quiet_cli) example_validated (cs_server example_state)"
    using doctor_ready_to_run [of 1 example_state quiet_cli "[]" s' out] by (auto simp: quiet_flags quiet_load)
  then show ?thesis by (simp add: quiet_cli_def example_state_def)
qed

end
