(* ===== verification/Go_Marshal.thy ===== *)
theory Go_Marshal
  imports Go_JSON
begin

text \<open>
  What the producer SDK uses of Go's \<open>unicode/utf8\<close> and \<open>encoding/json\<close> to write text: the
  validity of UTF-8, and the text that \<open>json.Marshal\<close> writes for a string. Reading it back gives
  the string.
\<close>

section \<open>UTF-8 text\<close>

function utf8_Valid :: "bytes \<Rightarrow> bool" where
  "utf8_Valid s =
     (if s = [] then True
      else if DecodeRune s = (RuneError, 1) then False
      else utf8_Valid (drop (snd (DecodeRune s)) s))"
  by pat_completeness auto

termination
  by (relation "measure length") (use DecodeRune_width in \<open>fastforce simp: Suc_le_eq\<close>)+

declare utf8_Valid.simps [simp del]

section \<open>Strings\<close>

definition hex_byte :: "nat \<Rightarrow> string" where
  "hex_byte n = [hex_char (n div 16), hex_char (n mod 16)]"

text \<open>The characters below 128 that are copied: not the control characters, quote and backslash, nor
  the three that could be taken for markup.\<close>

definition html_safe :: "nat \<Rightarrow> bool" where
  "html_safe b \<longleftrightarrow> 32 \<le> b \<and> b < 128 \<and> b \<noteq> 0x22 \<and> b \<noteq> 0x5C \<and> b \<noteq> 0x3C \<and> b \<noteq> 0x3E \<and> b \<noteq> 0x26"

definition escape_ascii :: "char \<Rightarrow> string" where
  "escape_ascii c =
     (if c = CHR 0x5C \<or> c = CHR 0x22 then [CHR 0x5C, c]
      else if c = CHR 0x08 then [CHR 0x5C, CHR ''b'']
      else if c = CHR 0x0C then [CHR 0x5C, CHR ''f'']
      else if c = CHR 0x0A then [CHR 0x5C, CHR ''n'']
      else if c = CHR 0x0D then [CHR 0x5C, CHR ''r'']
      else if c = CHR 0x09 then [CHR 0x5C, CHR ''t'']
      else [CHR 0x5C, CHR ''u'', CHR ''0'', CHR ''0''] @ hex_byte (code c))"

definition line_separator :: "nat \<Rightarrow> bool" where
  "line_separator r \<longleftrightarrow> r = 0x2028 \<or> r = 0x2029"

function encode_chars :: "bytes \<Rightarrow> string" where
  "encode_chars s = (case s of
     [] \<Rightarrow> []
   | c # cs \<Rightarrow>
       if code c < 128 then (if html_safe (code c) then [c] else escape_ascii c) @ encode_chars cs
       else
         (let (r, w) = DecodeRune s in
          (if r = RuneError \<and> w = 1 then [CHR 0x5C] @ ''ufffd''
           else if line_separator r then [CHR 0x5C] @ ''u202'' @ [hex_char (r mod 16)]
           else take w s) @ encode_chars (drop w s)))"
  by pat_completeness auto

termination
proof (relation "measure length", goal_cases)
  case (3 s c cs p r w)
  then show ?case using DecodeRune_width [of s] by (metis One_nat_def Suc_le_eq diff_less in_measure length_drop length_greater_0_conv list.discI snd_conv)
qed auto

declare encode_chars.simps [simp del]

definition marshal_string :: "bytes \<Rightarrow> string" where
  "marshal_string s = CHR 0x22 # encode_chars s @ [CHR 0x22]"

section \<open>Runes\<close>

lemma continuationE:
  assumes "continuation lo hi s"
  obtains a as where "s = a # as" "lo \<le> code a" "code a \<le> hi"
  using assms by (auto simp: continuation_def split: list.splits)

text \<open>The bounds on the byte after the first.\<close>

definition second_lo :: "nat \<Rightarrow> nat" where
  "second_lo b = (if b = 224 then 160 else if b = 240 then 144 else 128)"

definition second_hi :: "nat \<Rightarrow> nat" where
  "second_hi b = (if b = 237 then 159 else if b = 244 then 143 else 191)"

lemma DecodeRune_Cons:
  "DecodeRune (c # t) =
     (let b = code c; low6 = (\<lambda>k. code (t ! k) mod 64) in
      if b < 128 then (b, 1)
      else if 194 \<le> b \<and> b \<le> 223 \<and> continuation (second_lo b) (second_hi b) t then ((b mod 32) * 64 + low6 0, 2)
      else if 224 \<le> b \<and> b \<le> 239 \<and> continuation (second_lo b) (second_hi b) t \<and> continuation 128 191 (drop 1 t)
        then ((b mod 16) * 4096 + low6 0 * 64 + low6 1, 3)
      else if 240 \<le> b \<and> b \<le> 244 \<and> continuation (second_lo b) (second_hi b) t \<and>
          continuation 128 191 (drop 1 t) \<and> continuation 128 191 (drop 2 t)
        then ((b mod 8) * 262144 + low6 0 * 4096 + low6 1 * 64 + low6 2, 4)
      else (RuneError, 1))"
  by (simp only: DecodeRune_def second_lo_def second_hi_def Let_def list.case)

lemma second_bounds: "128 \<le> second_lo b" "second_hi b \<le> 191"
  by (simp_all add: second_lo_def second_hi_def)

text \<open>The three forms of a rune that is not ASCII.\<close>

lemma DecodeRune_cases:
  assumes big: "128 \<le> code c" and valid: "DecodeRune (c # cs) \<noteq> (RuneError, 1)"
  obtains (two) a as where "cs = a # as" "194 \<le> code c" "code c \<le> 223" "128 \<le> code a" "code a \<le> 191"
      "DecodeRune (c # cs) = ((code c mod 32) * 64 + code a mod 64, 2)"
    | (three) a b bs where "cs = a # b # bs" "224 \<le> code c" "code c \<le> 239"
      "second_lo (code c) \<le> code a" "code a \<le> second_hi (code c)" "128 \<le> code b" "code b \<le> 191"
      "DecodeRune (c # cs) = ((code c mod 16) * 4096 + (code a mod 64) * 64 + code b mod 64, 3)"
    | (four) a b e es where "cs = a # b # e # es" "240 \<le> code c" "code c \<le> 244"
      "second_lo (code c) \<le> code a" "code a \<le> second_hi (code c)"
      "128 \<le> code b" "code b \<le> 191" "128 \<le> code e" "code e \<le> 191"
      "DecodeRune (c # cs) =
         ((code c mod 8) * 262144 + (code a mod 64) * 4096 + (code b mod 64) * 64 + code e mod 64, 4)"
proof -
  let ?c1 = "continuation (second_lo (code c)) (second_hi (code c)) cs"
    and ?c2 = "continuation 128 191 (drop 1 cs)" and ?c3 = "continuation 128 191 (drop 2 cs)"
  consider (2) "194 \<le> code c" "code c \<le> 223" ?c1 | (3) "224 \<le> code c" "code c \<le> 239" ?c1 ?c2
    | (4) "240 \<le> code c" "code c \<le> 244" ?c1 ?c2 ?c3
    using big valid unfolding DecodeRune_Cons Let_def by (auto simp del: drop_Suc_Cons split: if_splits)
  then show thesis
  proof cases
    case 2
    obtain a as where a: "cs = a # as" "second_lo (code c) \<le> code a" "code a \<le> second_hi (code c)"
      using 2(3) by (rule continuationE)
    have "DecodeRune (c # cs) = ((code c mod 32) * 64 + code a mod 64, 2)" using 2 a(1) by (simp add: DecodeRune_Cons)
    with 2 a second_bounds [of "code c"] show thesis by (intro two) auto
  next
    case 3
    obtain a as where a: "cs = a # as" "second_lo (code c) \<le> code a" "code a \<le> second_hi (code c)"
      using 3(3) by (rule continuationE)
    obtain b bs where b: "as = b # bs" "128 \<le> code b" "code b \<le> 191"
      using 3(4) unfolding a(1) by (auto elim: continuationE)
    have "DecodeRune (c # cs) = ((code c mod 16) * 4096 + (code a mod 64) * 64 + code b mod 64, 3)"
      using 3 a(1) b(1) by (simp add: DecodeRune_Cons)
    with 3 a b show thesis by (intro three) auto
  next
    case 4
    obtain a as where a: "cs = a # as" "second_lo (code c) \<le> code a" "code a \<le> second_hi (code c)"
      using 4(3) by (rule continuationE)
    obtain b bs where b: "as = b # bs" "128 \<le> code b" "code b \<le> 191"
      using 4(4) unfolding a(1) by (auto elim: continuationE)
    obtain e es where e: "bs = e # es" "128 \<le> code e" "code e \<le> 191"
      using 4(5) unfolding a(1) b(1) by (auto elim: continuationE simp: numeral_2_eq_2)
    have "DecodeRune (c # cs) =
        ((code c mod 8) * 262144 + (code a mod 64) * 4096 + (code b mod 64) * 64 + code e mod 64, 4)"
      using 4 a(1) b(1) e(1) by (simp add: DecodeRune_Cons)
    with 4 a b e show thesis by (intro four) auto
  qed
qed

lemma mod_range: "k * m \<le> n \<Longrightarrow> n < k * m + m \<Longrightarrow> n mod m = n - k * m" for n :: nat
  by (metis add.commute div_nat_eqI minus_mult_div_eq_mod mult.commute mult_Suc)

lemma div_part: "m < n \<Longrightarrow> (i * n + m) div n = i" "m < n \<Longrightarrow> (i * n + m) mod n = m" for m n i :: nat
  by simp_all

lemma EncodeRune_ranges:
  "128 \<le> r \<Longrightarrow> r < 2048 \<Longrightarrow> r div 64 = i \<Longrightarrow> r mod 64 = j \<Longrightarrow> EncodeRune r = map char_of [192 + i, 128 + j]"
  "2048 \<le> r \<Longrightarrow> r < 65536 \<Longrightarrow> \<not> (55296 \<le> r \<and> r \<le> 57343) \<Longrightarrow> r div 4096 = i \<Longrightarrow> r div 64 mod 64 = j \<Longrightarrow>
     r mod 64 = k \<Longrightarrow> EncodeRune r = map char_of [224 + i, 128 + j, 128 + k]"
  "65536 \<le> r \<Longrightarrow> r \<le> 1114111 \<Longrightarrow> r div 262144 = i \<Longrightarrow> r div 4096 mod 64 = j \<Longrightarrow> r div 64 mod 64 = k \<Longrightarrow>
     r mod 64 = l \<Longrightarrow> EncodeRune r = map char_of [240 + i, 128 + j, 128 + k, 128 + l]"
  by (auto simp: EncodeRune_def Let_def)

lemma EncodeRune_forms:
  "2 \<le> i \<Longrightarrow> i < 32 \<Longrightarrow> j < 64 \<Longrightarrow> EncodeRune (i * 64 + j) = map char_of [192 + i, 128 + j]"
  "i < 16 \<Longrightarrow> j < 64 \<Longrightarrow> k < 64 \<Longrightarrow> i = 0 \<longrightarrow> 32 \<le> j \<Longrightarrow> i = 13 \<longrightarrow> j < 32 \<Longrightarrow>
     EncodeRune (i * 4096 + j * 64 + k) = map char_of [224 + i, 128 + j, 128 + k]"
  "i < 5 \<Longrightarrow> j < 64 \<Longrightarrow> k < 64 \<Longrightarrow> l < 64 \<Longrightarrow> i = 0 \<longrightarrow> 16 \<le> j \<Longrightarrow> i = 4 \<longrightarrow> j < 16 \<Longrightarrow>
     EncodeRune (i * 262144 + j * 4096 + k * 64 + l) = map char_of [240 + i, 128 + j, 128 + k, 128 + l]"
proof -
  show "EncodeRune (i * 64 + j) = map char_of [192 + i, 128 + j]" if h: "2 \<le> i" "i < 32" "j < 64"
  proof (rule EncodeRune_ranges(1))
    show "128 \<le> i * 64 + j" "i * 64 + j < 2048" using h by linarith+
    show "(i * 64 + j) div 64 = i" "(i * 64 + j) mod 64 = j" using h by auto
  qed
  show "EncodeRune (i * 4096 + j * 64 + k) = map char_of [224 + i, 128 + j, 128 + k]"
    if h: "i < 16" "j < 64" "k < 64" "i = 0 \<longrightarrow> 32 \<le> j" "i = 13 \<longrightarrow> j < 32"
  proof -
    let ?r = "i * 4096 + j * 64 + k"
    have "2048 \<le> ?r" "?r < 65536" using h by (cases "i = 0"; linarith)+
    moreover have "\<not> (55296 \<le> ?r \<and> ?r \<le> 57343)"
    proof -
      consider "i \<le> 12" | "i = 13" | "14 \<le> i" by linarith
      then show ?thesis using h by cases linarith+
    qed
    moreover have "?r div 4096 = i" "?r div 64 mod 64 = j" "?r mod 64 = k"
      using h div_part [of "j * 64 + k" 4096 i] div_part [of k 64 "i * 64 + j"] div_part [of j 64 i]
      by (simp_all add: algebra_simps)
    ultimately show ?thesis by (rule EncodeRune_ranges(2))
  qed
  show "EncodeRune (i * 262144 + j * 4096 + k * 64 + l) = map char_of [240 + i, 128 + j, 128 + k, 128 + l]"
    if h: "i < 5" "j < 64" "k < 64" "l < 64" "i = 0 \<longrightarrow> 16 \<le> j" "i = 4 \<longrightarrow> j < 16"
  proof -
    let ?r = "i * 262144 + j * 4096 + k * 64 + l"
    have "65536 \<le> ?r" using h by (cases "i = 0") linarith+
    moreover have "?r \<le> 1114111" using h by (cases "i = 4") linarith+
    moreover have "?r div 262144 = i" "?r div 4096 mod 64 = j" "?r div 64 mod 64 = k" "?r mod 64 = l"
      using h div_part [of "j * 4096 + k * 64 + l" 262144 i] div_part [of "k * 64 + l" 4096 "i * 64 + j"]
        div_part [of l 64 "i * 4096 + j * 64 + k"] div_part [of k 64 "i * 64 + j"] div_part [of j 64 i]
      by (simp_all add: algebra_simps)
    ultimately show ?thesis by (rule EncodeRune_ranges(3))
  qed
qed

lemma byte_mod:
  "128 \<le> n \<Longrightarrow> n \<le> 191 \<Longrightarrow> n mod 64 = n - 128" "192 \<le> n \<Longrightarrow> n \<le> 223 \<Longrightarrow> n mod 32 = n - 192"
  "224 \<le> n \<Longrightarrow> n \<le> 239 \<Longrightarrow> n mod 16 = n - 224" "240 \<le> n \<Longrightarrow> n \<le> 247 \<Longrightarrow> n mod 8 = n - 240" for n :: nat
  using mod_range [of 2 64 n] mod_range [of 6 32 n] mod_range [of 14 16 n] mod_range [of 30 8 n] by simp_all

text \<open>Decoding a valid rune and encoding it again gives its bytes.\<close>

lemma Encode_Decode:
  assumes "128 \<le> code c" and "DecodeRune (c # cs) \<noteq> (RuneError, 1)"
  shows "EncodeRune (fst (DecodeRune (c # cs))) = take (snd (DecodeRune (c # cs))) (c # cs)"
  using assms
proof (cases rule: DecodeRune_cases)
  case (two a as)
  then show ?thesis using EncodeRune_forms(1) [of "code c - 192" "code a - 128"] by (simp add: byte_mod)
next
  case (three a b bs)
  have a: "128 \<le> code a" "code a \<le> 191" using three(4,5) second_bounds [of "code c"] by linarith+
  have "code c - 224 = 0 \<longrightarrow> 32 \<le> code a - 128" "code c - 224 = 13 \<longrightarrow> code a - 128 < 32"
    using three(2-5) by (auto simp: second_lo_def second_hi_def split: if_splits)
  then have "EncodeRune ((code c - 224) * 4096 + (code a - 128) * 64 + (code b - 128)) =
      map char_of [224 + (code c - 224), 128 + (code a - 128), 128 + (code b - 128)]"
    using three(2,3,6,7) a by (intro EncodeRune_forms(2)) linarith+
  then show ?thesis unfolding three(8) unfolding three(1) using three(2,3,6,7) a by (simp add: byte_mod)
next
  case (four a b e es)
  have a: "128 \<le> code a" "code a \<le> 191" using four(4,5) second_bounds [of "code c"] by linarith+
  have "code c - 240 = 0 \<longrightarrow> 16 \<le> code a - 128" "code c - 240 = 4 \<longrightarrow> code a - 128 < 16"
    using four(2-5) by (auto simp: second_lo_def second_hi_def split: if_splits)
  then have "EncodeRune ((code c - 240) * 262144 + (code a - 128) * 4096 + (code b - 128) * 64 + (code e - 128)) =
      map char_of [240 + (code c - 240), 128 + (code a - 128), 128 + (code b - 128), 128 + (code e - 128)]"
    using four(2,3,6-9) a by (intro EncodeRune_forms(3)) linarith+
  then show ?thesis unfolding four(10) unfolding four(1) using four(2,3,6-9) a by (simp add: byte_mod)
qed

section \<open>Written strings read back\<close>

lemma hex_value_char: "n < 16 \<Longrightarrow> hex_value (hex_char n) = Some n"
  by (auto simp: hex_value_def hex_char_def Let_def)

lemma hex_value_0 [simp]: "hex_value (CHR ''0'') = Some 0"
  by (simp add: hex_value_def)

lemma hex4_escape: "code c < 128 \<Longrightarrow> hex4 (CHR ''0'' # CHR ''0'' # hex_byte (code c) @ r) = Some (code c, r)"
  by (simp add: hex4_def hex_byte_def hex_value_char)

lemma EncodeRune_ascii: "n < 128 \<Longrightarrow> EncodeRune n = [char_of n]"
  by (simp add: EncodeRune_def)

text \<open>An escaped character reads back as itself.\<close>

lemma escape_ascii_read:
  assumes "code c < 128"
  shows "\<exists>t. escape_ascii c @ r = CHR 0x5C # t \<and> parse_escape t = Some ([c], r)"
proof -
  have "escape_rune (code c) r = (code c, r)" using assms by (simp add: escape_rune_def)
  then show ?thesis
    using assms hex4_escape [OF assms, of r]
    by (auto simp: escape_ascii_def parse_escape_def EncodeRune_ascii)
qed

lemma separator_read:
  "line_separator n \<Longrightarrow>
     parse_escape (''u202'' @ hex_char (n mod 16) # r) = Some (EncodeRune n, r)"
  by (auto simp: line_separator_def parse_escape_def hex4_def hex_char_def hex_value_def escape_rune_def)

lemma html_safe_plain: "html_safe (code c) \<Longrightarrow> c \<noteq> CHR 0x22 \<and> c \<noteq> CHR 0x5C \<and> \<not> code c < 32"
  by (auto simp: html_safe_def)

lemma DecodeRune_ascii: "code c < 128 \<Longrightarrow> DecodeRune (c # cs) = (code c, 1)"
  by (simp add: DecodeRune_def)

text \<open>The bytes after a valid rune do not change it.\<close>

lemma DecodeRune_append:
  assumes "128 \<le> code c" and "DecodeRune (c # cs) = (r, w)" and "(r, w) \<noteq> (RuneError, 1)"
  shows "DecodeRune (take w (c # cs) @ t) = (r, w)"
    and "w \<le> length (c # cs)" and "2 \<le> w"
proof -
  have v: "DecodeRune (c # cs) \<noteq> (RuneError, 1)" using assms by simp
  show "DecodeRune (take w (c # cs) @ t) = (r, w)"
    using assms(1) v
  proof (cases rule: DecodeRune_cases)
    case (two a as)
    with assms second_bounds [of "code c"] show ?thesis
      by (auto simp: DecodeRune_Cons Let_def continuation_def second_lo_def second_hi_def)
  next
    case (three a b bs)
    with assms show ?thesis
      by (auto simp: DecodeRune_Cons Let_def continuation_def)
  next
    case (four a b e es)
    with assms show ?thesis
      by (auto simp: DecodeRune_Cons Let_def continuation_def)
  qed
  show "w \<le> length (c # cs)" "2 \<le> w"
    using assms(1) v by (cases rule: DecodeRune_cases; use assms(2) in auto)+
qed

lemma utf8_Valid_Nil [simp]: "utf8_Valid []"
  by (simp add: utf8_Valid.simps)

lemma utf8_Valid_Cons:
  "utf8_Valid (c # cs) \<longleftrightarrow>
     DecodeRune (c # cs) \<noteq> (RuneError, 1) \<and> utf8_Valid (drop (snd (DecodeRune (c # cs))) (c # cs))"
  by (subst utf8_Valid.simps) simp

lemma utf8_Valid_ascii: "code c < 128 \<Longrightarrow> utf8_Valid (c # cs) \<longleftrightarrow> utf8_Valid cs"
  by (auto simp: utf8_Valid_Cons [of c] DecodeRune_ascii RuneError_def)

lemma encode_chars_Nil [simp]: "encode_chars [] = []"
  by (simp add: encode_chars.simps)

lemma encode_chars_ascii:
  "code c < 128 \<Longrightarrow> encode_chars (c # cs) = (if html_safe (code c) then [c] else escape_ascii c) @ encode_chars cs"
  by (simp add: encode_chars.simps [of "c # cs"])

lemma encode_chars_rune:
  "128 \<le> code c \<Longrightarrow> DecodeRune (c # cs) = (r, w) \<Longrightarrow> (r, w) \<noteq> (RuneError, 1) \<Longrightarrow>
     encode_chars (c # cs) =
       (if line_separator r then [CHR 0x5C] @ ''u202'' @ [hex_char (r mod 16)] else take w (c # cs)) @
       encode_chars (drop w (c # cs))"
  by (auto simp: encode_chars.simps [of "c # cs"])

theorem parse_encode_chars:
  "utf8_Valid s \<Longrightarrow> parse_chars (encode_chars s @ CHR 0x22 # t) = Some (s, t)"
proof (induction s rule: length_induct)
  case (1 s)
  show ?case
  proof (cases s)
    case Nil
    then show ?thesis by (simp add: parse_chars_Cons)
  next
    case (Cons c cs)
    show ?thesis
    proof (cases "code c < 128")
      case True
      have IH: "parse_chars (encode_chars cs @ CHR 0x22 # t) = Some (cs, t)"
        using 1 Cons True by (simp add: utf8_Valid_ascii)
      show ?thesis
      proof (cases "html_safe (code c)")
        case safe: True
        then show ?thesis using html_safe_plain [OF safe] IH True
          by (simp add: Cons encode_chars_ascii parse_chars_Cons [of c] DecodeRune_ascii EncodeRune_ascii)
      next
        case False
        obtain u where "escape_ascii c @ encode_chars cs @ CHR 0x22 # t = CHR 0x5C # u"
          "parse_escape u = Some ([c], encode_chars cs @ CHR 0x22 # t)"
          using escape_ascii_read [OF True] by blast
        with IH False True show ?thesis by (simp add: Cons encode_chars_ascii parse_chars_Cons [of "CHR 0x5C"])
      qed
    next
      case False
      obtain r w where rw: "DecodeRune (c # cs) = (r, w)" by force
      have v: "(r, w) \<noteq> (RuneError, 1)" "utf8_Valid (drop w s)"
        using 1(2) rw unfolding Cons by (auto simp: utf8_Valid_Cons [of c])
      have big: "128 \<le> code c" using False by simp
      note app = DecodeRune_append [OF big rw v(1)]
      have bytes: "EncodeRune r = take w s" using Encode_Decode [OF big, of cs] v(1) unfolding rw Cons by simp
      have IH: "parse_chars (encode_chars (drop w s) @ CHR 0x22 # t) = Some (drop w s, t)"
        using 1(1) v(2) app(2,3) Cons by simp
      show ?thesis
      proof (cases "line_separator r")
        case True
        then show ?thesis
          using IH bytes separator_read [OF True, of "encode_chars (drop w s) @ CHR 0x22 # t"]
          unfolding Cons encode_chars_rune [OF big rw v(1)]
          by (simp add: parse_chars_Cons [of "CHR 0x5C"] append_take_drop_id [of w "c # cs", simplified])
      next
        case sep: False
        let ?rest = "encode_chars (drop w s) @ CHR 0x22 # t"
        obtain cs' where take: "take w s @ ?rest = c # cs'" "length (take w s) = w"
          using app(2,3) Cons by (cases w) auto
        have "DecodeRune (c # cs') = (r, w)" using app(1) [of ?rest] take Cons by simp
        moreover have "drop w (c # cs') = ?rest" using take by (metis append_eq_conv_conj)
        moreover have "c \<noteq> CHR 0x22" "c \<noteq> CHR 0x5C" "\<not> code c < 32" using big by auto
        ultimately have "parse_chars (c # cs') = Some (take w s @ drop w s, t)"
          using IH bytes by (simp add: parse_chars_Cons [of c])
        then show ?thesis using sep take unfolding Cons encode_chars_rune [OF big rw v(1)] by simp
      qed
    qed
  qed
qed

end
