(* ===== verification/Go_Compact.thy ===== *)
theory Go_Compact
  imports Go_Marshal
begin

text \<open>
  The compaction that \<open>json.Marshal\<close> applies to a \<open>json.RawMessage\<close>, and the objects it writes.
  Compacting a value does not change what it reads as, and the members of an object read back in
  order.
\<close>

section \<open>Compaction\<close>

text \<open>\<open>appendCompact\<close> on the text of a valid value: outside strings the white space goes, inside
  strings the characters of markup and the two line separators are escaped.\<close>

definition is_markup :: "char \<Rightarrow> bool" where
  "is_markup c \<longleftrightarrow> c \<in> {CHR ''<'', CHR ''>'', CHR ''&''}"

definition separator_bytes :: "bytes \<Rightarrow> bool" where
  "separator_bytes s \<longleftrightarrow> take 3 s \<in> {[CHR 0xE2, CHR 0x80, CHR 0xA8], [CHR 0xE2, CHR 0x80, CHR 0xA9]}"

fun compact_value :: "bytes \<Rightarrow> bytes" and compact_string :: "bytes \<Rightarrow> bytes" where
  "compact_value [] = []"
| "compact_value (c # cs) =
     (if is_space c then compact_value cs
      else if c = CHR 0x22 then c # compact_string cs
      else c # compact_value cs)"
| "compact_string [] = []"
| "compact_string (c # cs) =
     (if c = CHR 0x22 then c # compact_value cs
      else if c = CHR 0x5C then (case cs of [] \<Rightarrow> [c] | e # r \<Rightarrow> c # e # compact_string r)
      else if is_markup c then [CHR 0x5C] @ ''u00'' @ hex_byte (code c) @ compact_string cs
      else if separator_bytes (c # cs)
        then [CHR 0x5C] @ ''u202'' @ hex_char (code (cs ! 1) mod 16) # compact_string (drop 2 cs)
      else c # compact_string cs)"

declare compact_value.simps(2) [simp del] compact_string.simps(2) [simp del]

definition plain_char :: "char \<Rightarrow> bool" where
  "plain_char c \<longleftrightarrow> c \<noteq> CHR 0x22 \<and> c \<noteq> CHR 0x5C \<and> \<not> is_markup c \<and> code c \<noteq> 0xE2"

lemma compact_plain [simp]: "plain_char c \<Longrightarrow> compact_string (c # cs) = c # compact_string cs"
  by (simp add: plain_char_def separator_bytes_def compact_string.simps(2)) force

lemma hex_value_plain: "hex_value c = Some n \<Longrightarrow> plain_char c"
  by (auto simp: hex_value_def plain_char_def is_markup_def Let_def split: if_splits)

lemma hex4_compact:
  assumes "hex4 s = Some (u, r)"
  shows "hex4 (compact_string s @ t) = Some (u, compact_string r @ t)"
proof -
  obtain a b c d where s: "s = a # b # c # d # r" and "hex4 [a, b, c, d] = Some (u, [])"
    and "hex_value a \<noteq> None" "hex_value b \<noteq> None" "hex_value c \<noteq> None" "hex_value d \<noteq> None"
    using assms by (auto simp: hex4_def split: list.splits option.splits)
  moreover from this have "compact_string s = a # b # c # d # compact_string r"
    using hex_value_plain by fastforce
  ultimately show ?thesis by (auto simp: hex4_def split: option.splits)
qed

text \<open>Compaction does not create the second half of a surrogate pair.\<close>

lemma hex_markup: "is_markup c \<Longrightarrow> hex4 (CHR ''0'' # CHR ''0'' # hex_byte (code c) @ r) = Some (code c, r)"
  by (rule hex4_escape) (auto simp: is_markup_def)

lemma escape_rune_low:
  assumes "\<And>v r'. hex4 (drop 2 t) = Some (v, r') \<Longrightarrow> take 2 t = [CHR 0x5C, CHR ''u''] \<Longrightarrow> \<not> (56320 \<le> v \<and> v \<le> 57343)"
  shows "escape_rune u t = (if 55296 \<le> u \<and> u \<le> 57343 then RuneError else u, t)"
proof (cases t)
  case (Cons a t')
  then show ?thesis using assms by (cases t') (auto simp: escape_rune_def split: option.splits)
qed (simp add: escape_rune_def)

text \<open>What a text looks like where a string goes on: it is not at its end, and an escape is complete.\<close>

definition goes_on :: "bytes \<Rightarrow> bool" where
  "goes_on s \<longleftrightarrow> (case s of
     [] \<Rightarrow> False
   | c # cs \<Rightarrow> c = CHR 0x5C \<longrightarrow> (\<exists>e r. cs = e # r \<and> (e = CHR ''u'' \<longrightarrow> hex4 r \<noteq> None)))"

lemma parse_chars_goes_on: "parse_chars s \<noteq> None \<Longrightarrow> goes_on s"
  by (cases s) (auto simp: goes_on_def parse_chars_Cons parse_escape_def split: if_splits option.splits list.splits)

lemma escape_rune_goes_on: "parse_chars (snd (escape_rune u s)) \<noteq> None \<Longrightarrow> goes_on s"
proof (cases "snd (escape_rune u s) = s")
  case False
  then show ?thesis
    by (cases s; cases "tl s") (auto simp: escape_rune_def goes_on_def split: if_splits option.splits list.splits)
qed (metis parse_chars_goes_on)

lemma escape_rune_plain:
  "\<not> (\<exists>t. s = CHR 0x5C # CHR ''u'' # t) \<Longrightarrow> escape_rune u s = (if 55296 \<le> u \<and> u \<le> 57343 then RuneError else u, s)"
  by (rule escape_rune_low) (cases s; cases "tl s"; auto)

lemma compact_backslash: "compact_string (CHR 0x5C # e # r) = CHR 0x5C # e # compact_string r"
  by (simp add: compact_string.simps(2))

lemma compact_quote: "compact_string (CHR 0x22 # r) = CHR 0x22 # compact_value r"
  by (simp add: compact_string.simps(2))

lemma compact_markup:
  "is_markup c \<Longrightarrow> compact_string (c # r) = CHR 0x5C # CHR ''u'' # CHR ''0'' # CHR ''0'' # hex_byte (code c) @ compact_string r"
  by (auto simp: compact_string.simps(2) is_markup_def)

lemma separator_bytesE:
  assumes "separator_bytes s"
  obtains r where "s = CHR 0xE2 # CHR 0x80 # CHR 0xA8 # r" | r where "s = CHR 0xE2 # CHR 0x80 # CHR 0xA9 # r"
proof -
  have "s = take 3 s @ drop 3 s" by simp
  then show thesis using assms that unfolding separator_bytes_def by (metis append_Cons append_Nil insertE singletonD)
qed

lemma hex_char_89 [simp]: "hex_char 8 = CHR ''8''" "hex_char 9 = CHR ''9''"
  by code_simp+

lemma compact_separator:
  "compact_string (CHR 0xE2 # CHR 0x80 # CHR 0xA8 # r) = CHR 0x5C # ''u2028'' @ compact_string r"
  "compact_string (CHR 0xE2 # CHR 0x80 # CHR 0xA9 # r) = CHR 0x5C # ''u2029'' @ compact_string r"
  by (simp_all add: compact_string.simps(2) is_markup_def separator_bytes_def)

lemma compact_other:
  "code c = 0xE2 \<Longrightarrow> \<not> separator_bytes (c # cs) \<Longrightarrow> compact_string (c # cs) = c # compact_string cs"
  by (auto simp: compact_string.simps(2) is_markup_def)

text \<open>The ways a string goes on.\<close>

lemma compact_cases [case_names Nil quote backslash markup separator other]:
  assumes "s = [] \<Longrightarrow> P" "\<And>r. s = CHR 0x22 # r \<Longrightarrow> P" "\<And>r. s = CHR 0x5C # r \<Longrightarrow> P"
    and "\<And>c r. s = c # r \<Longrightarrow> is_markup c \<Longrightarrow> P"
    and "\<And>c r. s = CHR 0xE2 # CHR 0x80 # c # r \<Longrightarrow> c = CHR 0xA8 \<or> c = CHR 0xA9 \<Longrightarrow> P"
    and "\<And>c r. s = c # r \<Longrightarrow> c \<noteq> CHR 0x22 \<Longrightarrow> c \<noteq> CHR 0x5C \<Longrightarrow> \<not> is_markup c \<Longrightarrow> \<not> separator_bytes (c # r) \<Longrightarrow>
        compact_string s = c # compact_string r \<Longrightarrow> P"
  shows P
proof (cases s)
  case Nil
  then show P using assms(1) by simp
next
  case (Cons c r)
  show P
  proof (cases "separator_bytes s")
    case True
    then show P using assms(5) by (auto elim!: separator_bytesE)
  next
    case False
    then show P using Cons assms(2,3,4) assms(6) [OF Cons] by (auto simp: compact_string.simps(2))
  qed
qed

text \<open>A surrogate is completed by what follows exactly when it was before compaction.\<close>

lemma escape_rune_unpaired:
  assumes "hex4 s = Some (v, r)" and "v < 56320"
  shows "escape_rune u (CHR 0x5C # CHR ''u'' # s) =
    (if 55296 \<le> u \<and> u \<le> 57343 then RuneError else u, CHR 0x5C # CHR ''u'' # s)"
  using assms by (simp add: escape_rune_def)

lemma hex4_separator: "c = CHR ''8'' \<or> c = CHR ''9'' \<Longrightarrow> \<exists>v < 56320. hex4 (CHR ''2'' # CHR ''0'' # CHR ''2'' # c # r) = Some (v, r)"
  by (auto simp: hex4_def hex_value_def)

lemma escape_rune_compact:
  assumes "goes_on s"
  shows "escape_rune u (compact_string s @ t) = (fst (escape_rune u s), compact_string (snd (escape_rune u s)) @ t)"
proof (cases s rule: compact_cases)
  case Nil
  with assms show ?thesis by (simp add: goes_on_def)
next
  case (quote r)
  then show ?thesis by (simp add: compact_quote escape_rune_plain)
next
  case (backslash cs)
  with assms obtain e r where s: "s = CHR 0x5C # e # r" "e = CHR ''u'' \<longrightarrow> hex4 r \<noteq> None" by (auto simp: goes_on_def)
  show ?thesis
  proof (cases "e = CHR ''u''")
    case True
    with s obtain v r' where "hex4 r = Some (v, r')" by auto
    moreover from this have "hex4 (compact_string r @ t) = Some (v, compact_string r' @ t)" by (rule hex4_compact)
    ultimately show ?thesis using True by (simp add: s(1) compact_backslash escape_rune_def)
  next
    case False
    then show ?thesis by (simp add: s(1) compact_backslash escape_rune_plain)
  qed
next
  case (markup c r)
  then have "code c < 56320" "c \<noteq> CHR 0x5C" by (auto simp: is_markup_def)
  with markup show ?thesis
    by (simp add: compact_markup escape_rune_plain [of "c # r"] escape_rune_unpaired [OF hex_markup])
next
  case (separator c r)
  have plain: "escape_rune u s = (if 55296 \<le> u \<and> u \<le> 57343 then RuneError else u, s)"
    by (rule escape_rune_plain) (simp add: separator(1))
  define c' where "c' = (if c = CHR 0xA8 then CHR ''8'' else CHR ''9'')"
  then have c': "c' = CHR ''8'' \<or> c' = CHR ''9''" by simp
  have s: "compact_string s = CHR 0x5C # CHR ''u'' # CHR ''2'' # CHR ''0'' # CHR ''2'' # c' # compact_string r"
    using separator(2) by (elim disjE) (simp_all add: separator(1) compact_separator c'_def)
  obtain v where "hex4 (CHR ''2'' # CHR ''0'' # CHR ''2'' # c' # compact_string r @ t) = Some (v, compact_string r @ t)" "v < 56320"
    using hex4_separator [OF c'] by blast
  from escape_rune_unpaired [OF this] show ?thesis by (simp add: plain s)
next
  case (other c r)
  then show ?thesis by (simp add: escape_rune_plain)
qed

lemma parse_escape_compact:
  assumes "parse_escape s = Some (out, rest)" and "parse_chars rest \<noteq> None"
  shows "\<exists>e r. s = e # r \<and> parse_escape (e # compact_string r @ t) = Some (out, compact_string rest @ t)"
proof -
  obtain e r where s: "s = e # r" using assms(1) by (cases s) (auto simp: parse_escape_def)
  show ?thesis
  proof (cases "e = CHR ''u''")
    case True
    then obtain u r' where u: "hex4 r = Some (u, r')" "out = EncodeRune (fst (escape_rune u r'))" "rest = snd (escape_rune u r')"
      using assms(1) by (auto simp: s parse_escape_def split: option.splits prod.splits)
    have "goes_on r'" using assms(2) u(3) escape_rune_goes_on by simp
    from hex4_compact [OF u(1), of t] escape_rune_compact [OF this, of u t] show ?thesis
      by (simp add: s parse_escape_def True u(2,3))
  next
    case False
    then have "rest = r" using assms(1) by (auto simp: s parse_escape_def split: if_splits)
    with False assms(1) show ?thesis by (auto simp: s parse_escape_def split: if_splits)
  qed
qed

section \<open>Compacted values\<close>

lemma parse_chars_ascii: "parse_chars s = Some (b, r) \<Longrightarrow> \<exists>c \<in> set s. code c < 128"
proof (induction s arbitrary: b r rule: parse_chars.induct)
  case (1 s)
  show ?case
  proof (cases s)
    case Nil
    with 1(3) show ?thesis by simp
  next
    case (Cons c cs)
    show ?thesis
    proof (cases "code c < 128")
      case False
      then have c: "c \<noteq> CHR 0x22" "c \<noteq> CHR 0x5C" "\<not> code c < 32" by auto
      with 1(3) obtain b' where "parse_chars (drop (snd (DecodeRune s)) s) = Some (b', r)"
        by (auto simp: Cons parse_chars_Cons split: option.splits)
      from 1(2) [OF Cons c this] show ?thesis using in_set_dropD by fast
    qed (simp add: Cons)
  qed
qed

text \<open>A byte of a longer rune stays where it is.\<close>

lemma continuation_compact:
  assumes "128 \<le> lo" "hi \<le> 191" and "\<exists>c \<in> set s. code c < 128"
  shows "continuation lo hi (compact_string s @ t) \<longleftrightarrow> continuation lo hi s"
    and "continuation lo hi s \<Longrightarrow> compact_string s = hd s # compact_string (tl s) \<and> (\<exists>c \<in> set (tl s). code c < 128)"
proof -
  show "continuation lo hi (compact_string s @ t) \<longleftrightarrow> continuation lo hi s"
    using assms(3)
  proof (cases s rule: compact_cases)
    case (backslash r)
    with assms(1) show ?thesis by (cases r) (auto simp: continuation_def compact_string.simps(2))
  next
    case (separator c r)
    with assms show ?thesis by (auto simp: continuation_def compact_separator)
  qed (use assms(1) in \<open>auto simp: continuation_def compact_quote compact_markup is_markup_def\<close>)
  assume c: "continuation lo hi s"
  then obtain a as where s: "s = a # as" "128 \<le> code a" "code a \<le> 191" using assms by (auto elim!: continuationE)
  then have "plain_char a" by (auto simp: plain_char_def is_markup_def)
  with s assms(3) show "compact_string s = hd s # compact_string (tl s) \<and> (\<exists>c \<in> set (tl s). code c < 128)" by auto
qed

lemma DecodeRune_compact:
  assumes big: "128 \<le> code c" and ascii: "\<exists>x \<in> set cs. code x < 128"
  shows "DecodeRune (c # compact_string cs @ t) = DecodeRune (c # cs)"
    and "drop (snd (DecodeRune (c # cs))) (c # compact_string cs @ t) =
      compact_string (drop (snd (DecodeRune (c # cs))) (c # cs)) @ t"
proof -
  let ?lo = "second_lo (code c)" and ?hi = "second_hi (code c)" and ?s = "compact_string cs @ t"
  have c1: "continuation ?lo ?hi ?s \<longleftrightarrow> continuation ?lo ?hi cs"
    using continuation_compact(1) [OF second_bounds ascii] .
  have "DecodeRune (c # ?s) = DecodeRune (c # cs) \<and>
    drop (snd (DecodeRune (c # cs))) (c # ?s) = compact_string (drop (snd (DecodeRune (c # cs))) (c # cs)) @ t"
  proof (cases "continuation ?lo ?hi cs")
    case False
    then have "DecodeRune (c # cs) = (RuneError, 1)" "DecodeRune (c # ?s) = (RuneError, 1)"
      using big c1 by (auto simp: DecodeRune_Cons Let_def)
    then show ?thesis by simp
  next
    case True
    then obtain a as where cs: "cs = a # as" by (auto elim: continuationE)
    have as: "compact_string cs = a # compact_string as" "\<exists>x \<in> set as. code x < 128"
      using continuation_compact(2) [OF second_bounds ascii True] by (simp_all add: cs)
    have c2: "continuation 128 191 (compact_string as @ t) \<longleftrightarrow> continuation 128 191 as"
      by (rule continuation_compact(1)) (use as in simp_all)
    show ?thesis
    proof (cases "continuation 128 191 as")
      case False
      with True c1 c2 big show ?thesis
        unfolding DecodeRune_Cons Let_def by (auto simp: cs as(1) [unfolded cs])
    next
      case cont: True
      then obtain b bs where b: "as = b # bs" by (auto elim: continuationE)
      have bs: "compact_string as = b # compact_string bs" "\<exists>x \<in> set bs. code x < 128"
        using continuation_compact(2) [OF _ _ as(2) cont] by (simp_all add: b)
      have c3: "continuation 128 191 (compact_string bs @ t) \<longleftrightarrow> continuation 128 191 bs"
        by (rule continuation_compact(1)) (use bs in simp_all)
      show ?thesis
      proof (cases "continuation 128 191 bs")
        case False
        with True c1 c2 c3 cont big show ?thesis
          unfolding DecodeRune_Cons Let_def by (auto simp: cs b as(1) [unfolded cs b] bs(1) [unfolded b])
      next
        case last: True
        then obtain e es where e: "bs = e # es" by (auto elim: continuationE)
        have "compact_string bs = e # compact_string es"
          using continuation_compact(2) [OF _ _ bs(2) last] by (simp add: e)
        with True c1 c2 c3 cont last big show ?thesis
          unfolding DecodeRune_Cons Let_def by (auto simp: cs b e as(1) [unfolded cs b e] bs(1) [unfolded b e])
      qed
    qed
  qed
  then show "DecodeRune (c # ?s) = DecodeRune (c # cs)"
    and "drop (snd (DecodeRune (c # cs))) (c # ?s) = compact_string (drop (snd (DecodeRune (c # cs))) (c # cs)) @ t" by auto
qed

lemma separator_Decode:
  "c = CHR 0xA8 \<or> c = CHR 0xA9 \<Longrightarrow>
     parse_escape (CHR ''u'' # CHR ''2'' # CHR ''0'' # CHR ''2'' # (if c = CHR 0xA8 then CHR ''8'' else CHR ''9'') # s) =
       Some (EncodeRune (fst (DecodeRune (CHR 0xE2 # CHR 0x80 # c # r))), s) \<and>
     snd (DecodeRune (CHR 0xE2 # CHR 0x80 # c # r)) = 3"
  by (auto simp: parse_escape_def hex4_def hex_value_def escape_rune_def DecodeRune_def continuation_def)

text \<open>A compacted string has the same contents.\<close>

lemma parse_chars_compact:
  "parse_chars s = Some (b, r) \<Longrightarrow> parse_chars (compact_string s @ t) = Some (b, compact_value r @ t)"
proof (induction s arbitrary: b r rule: length_induct)
  case (1 s)
  show ?case
  proof (cases s rule: compact_cases)
    case Nil
    with 1(2) show ?thesis by simp
  next
    case (quote q)
    with 1(2) show ?thesis by (simp add: parse_chars_Cons compact_quote)
  next
    case (backslash cs)
    with 1(2) obtain out rest b' where p: "parse_escape cs = Some (out, rest)" "parse_chars rest = Some (b', r)" "b = out @ b'"
      by (auto simp: parse_chars_Cons split: option.splits)
    obtain e q where cs: "cs = e # q" and q: "parse_escape (e # compact_string q @ t) = Some (out, compact_string rest @ t)"
      using parse_escape_compact [OF p(1)] p(2) by blast
    have "length rest < length s" using parse_escape_shorter [OF p(1)] backslash by simp
    with 1(1) p(2) have "parse_chars (compact_string rest @ t) = Some (b', compact_value r @ t)" by blast
    with q p(3) show ?thesis by (simp add: backslash cs compact_backslash parse_chars_Cons [of "CHR 0x5C"])
  next
    case (markup c q)
    then have c: "c \<noteq> CHR 0x22" "c \<noteq> CHR 0x5C" "\<not> code c < 32" "code c < 128" by (auto simp: is_markup_def)
    with 1(2) obtain b' where p: "parse_chars q = Some (b', r)" "b = c # b'"
      by (auto simp: markup parse_chars_Cons [of c] DecodeRune_ascii EncodeRune_ascii split: option.splits)
    have "parse_chars (compact_string q @ t) = Some (b', compact_value r @ t)" using 1(1) p(1) markup by simp
    moreover have "parse_escape (CHR ''u'' # CHR ''0'' # CHR ''0'' # hex_byte (code c) @ compact_string q @ t) =
        Some ([c], compact_string q @ t)"
      using c hex_markup [OF markup(2)] by (simp add: parse_escape_def escape_rune_def EncodeRune_ascii)
    ultimately show ?thesis using p(2) markup by (simp add: compact_markup parse_chars_Cons [of "CHR 0x5C"])
  next
    case (separator c q)
    let ?rune = "DecodeRune (CHR 0xE2 # CHR 0x80 # c # q)"
    let ?d = "if c = CHR 0xA8 then CHR ''8'' else CHR ''9''"
    have w: "snd ?rune = 3" using separator_Decode [OF separator(2)] by blast
    obtain b' where p: "parse_chars q = Some (b', r)" "b = EncodeRune (fst ?rune) @ b'"
      using 1(2) w unfolding separator(1) by (auto simp: parse_chars_Cons [of "CHR 0xE2"] split: option.splits)
    have "parse_chars (compact_string q @ t) = Some (b', compact_value r @ t)" using 1(1) p(1) separator(1) by simp
    moreover have "compact_string s = CHR 0x5C # CHR ''u'' # CHR ''2'' # CHR ''0'' # CHR ''2'' # ?d # compact_string q"
      using separator(2) by (elim disjE) (simp_all add: separator(1) compact_separator)
    ultimately show ?thesis
      using separator_Decode [OF separator(2), of "compact_string q @ t" q] p(2)
      by (simp only: parse_chars_Cons [of "CHR 0x5C"] append_Cons) simp
  next
    case (other c q)
    obtain b' where c: "\<not> code c < 32" and p: "parse_chars (drop (snd (DecodeRune s)) s) = Some (b', r)"
        "b = EncodeRune (fst (DecodeRune s)) @ b'"
      using 1(2) other by (auto simp: parse_chars_Cons [of c] split: option.splits if_splits)
    have "1 \<le> snd (DecodeRune s)" by (rule DecodeRune_width) (simp add: other)
    then have IH: "parse_chars (compact_string (drop (snd (DecodeRune s)) s) @ t) = Some (b', compact_value r @ t)"
      using 1(1) p(1) other(1) by simp
    have "DecodeRune (c # compact_string q @ t) = DecodeRune s \<and>
        drop (snd (DecodeRune s)) (c # compact_string q @ t) = compact_string (drop (snd (DecodeRune s)) s) @ t"
    proof (cases "code c < 128")
      case True
      then show ?thesis by (simp add: other(1) DecodeRune_ascii)
    next
      case False
      have "parse_chars (c # q) = Some (b, r)" using 1(2) other(1) by simp
      from parse_chars_ascii [OF this] False have "\<exists>x \<in> set q. code x < 128" by auto
      with DecodeRune_compact [of c q t] False show ?thesis by (simp add: other(1))
    qed
    with IH p(2) c other show ?thesis by (simp add: parse_chars_Cons [of c])
  qed
qed

lemma compact_skip: "compact_value (skip_ws s) = compact_value s"
  by (induction s) (auto simp: skip_ws_def compact_value.simps(2))

lemma skip_ws_head: "skip_ws s = c # cs \<Longrightarrow> \<not> is_space c"
  unfolding skip_ws_def using hd_dropWhile [of is_space s] by auto

lemma skip_ws_tight [simp]: "\<not> is_space c \<Longrightarrow> skip_ws (c # cs) = c # cs"
  by (simp add: skip_ws_def)

lemma compact_head:
  assumes "skip_ws s = c # cs"
  obtains z where "compact_value s = c # z" "skip_ws (c # z @ t) = c # z @ t"
    "c \<noteq> CHR 0x22 \<Longrightarrow> z = compact_value cs" "c = CHR 0x22 \<Longrightarrow> z = compact_string cs"
proof -
  have c: "\<not> is_space c" using assms by (rule skip_ws_head)
  have "compact_value s = compact_value (c # cs)" using compact_skip [of s] assms by simp
  with c show thesis by (intro that [of "if c = CHR 0x22 then compact_string cs else compact_value cs"]) (simp_all add: compact_value.simps(2))
qed

text \<open>What may follow a number.\<close>

definition ends_number :: "bytes \<Rightarrow> bool" where
  "ends_number s \<longleftrightarrow>
     (case s of [] \<Rightarrow> True | c # _ \<Rightarrow> \<not> is_digit c \<and> c \<noteq> CHR ''.'' \<and> c \<noteq> CHR ''e'' \<and> c \<noteq> CHR ''E'')"

definition number_char :: "char \<Rightarrow> bool" where
  "number_char c \<longleftrightarrow> is_digit c \<or> c \<in> {CHR ''-'', CHR ''+'', CHR ''.'', CHR ''e'', CHR ''E''}"

definition starts_digit :: "bytes \<Rightarrow> bool" where
  "starts_digit s \<longleftrightarrow> s \<noteq> [] \<and> is_digit (hd s)"

lemma digits1_local:
  assumes "digits1 s = Some (d, r)"
  shows "s = d @ r" "d \<noteq> []" "\<forall>c \<in> set d. is_digit c"
    and "\<not> starts_digit x \<Longrightarrow> digits1 (d @ x) = Some (d, x)"
proof -
  have d: "d = takeWhile is_digit s" "r = dropWhile is_digit s" "d \<noteq> []"
    using assms by (auto simp: digits1_def split: if_splits)
  then show "s = d @ r" "d \<noteq> []" and all: "\<forall>c \<in> set d. is_digit c" by (auto dest: set_takeWhileD)
  assume "\<not> starts_digit x"
  then have "takeWhile is_digit x = []" "dropWhile is_digit x = x" by (cases x; simp add: starts_digit_def)+
  then show "digits1 (d @ x) = Some (d, x)" using all d(3) by (auto simp: digits1_def)
qed

lemma parse_int_local:
  assumes "parse_int s = Some (i, r)"
  shows "s = i @ r" "starts_digit i" "\<forall>c \<in> set i. is_digit c"
    and "\<not> starts_digit x \<Longrightarrow> parse_int (i @ x) = Some (i, x)"
proof -
  consider "i = ''0''" "s = CHR ''0'' # r" | "s \<noteq> []" "hd s \<noteq> CHR ''0''" "digits1 s = Some (i, r)"
    using assms by (auto simp: parse_int_def split: list.splits if_splits)
  then have "s = i @ r \<and> starts_digit i \<and> (\<forall>c \<in> set i. is_digit c) \<and> (\<not> starts_digit x \<longrightarrow> parse_int (i @ x) = Some (i, x))"
  proof cases
    case 1
    then show ?thesis by (simp add: starts_digit_def is_digit_def parse_int_def)
  next
    case 2
    note d = digits1_local [OF 2(3)]
    obtain a i' where i: "i = a # i'" using d(2) by (cases i) auto
    then have "a \<noteq> CHR ''0''" using 2(2) d(1) by auto
    then show ?thesis using d i by (auto simp: starts_digit_def parse_int_def)
  qed
  then show "s = i @ r" "starts_digit i" "\<forall>c \<in> set i. is_digit c"
    and "\<not> starts_digit x \<Longrightarrow> parse_int (i @ x) = Some (i, x)" by auto
qed

lemma parse_frac_local:
  assumes "parse_frac s = Some (f, r)"
  shows "s = f @ r" "f = [] \<or> hd f = CHR ''.''" "\<forall>c \<in> set f. number_char c"
    and "\<not> starts_digit x \<Longrightarrow> (\<And>y. x \<noteq> CHR ''.'' # y) \<Longrightarrow> parse_frac (f @ x) = Some (f, x)"
proof -
  consider "f = []" "s = r" | d t where "s = CHR ''.'' # t" "f = CHR ''.'' # d" "digits1 t = Some (d, r)"
    using assms by (auto simp: parse_frac_def split: list.splits if_splits option.splits)
  then have "s = f @ r \<and> (f = [] \<or> hd f = CHR ''.'') \<and> (\<forall>c \<in> set f. number_char c) \<and>
    (\<not> starts_digit x \<longrightarrow> (\<forall>y. x \<noteq> CHR ''.'' # y) \<longrightarrow> parse_frac (f @ x) = Some (f, x))"
  proof cases
    case 1
    then show ?thesis by (auto simp: parse_frac_def split: list.splits)
  next
    case 2
    then show ?thesis using digits1_local [OF 2(3)] by (auto simp: parse_frac_def number_char_def)
  qed
  then show "s = f @ r" "f = [] \<or> hd f = CHR ''.''" "\<forall>c \<in> set f. number_char c"
    and "\<not> starts_digit x \<Longrightarrow> (\<And>y. x \<noteq> CHR ''.'' # y) \<Longrightarrow> parse_frac (f @ x) = Some (f, x)" by auto
qed

lemma parse_exp_local:
  assumes "parse_exp s = Some (e, r)"
  shows "s = e @ r" "e = [] \<or> hd e = CHR ''e'' \<or> hd e = CHR ''E''" "\<forall>c \<in> set e. number_char c"
    and "ends_number x \<Longrightarrow> parse_exp (e @ x) = Some (e, x)"
proof -
  consider "e = []" "s = r"
    | c sign d t where "c = CHR ''e'' \<or> c = CHR ''E''" "sign = [] \<or> sign = ''+'' \<or> sign = ''-''" "s = c # sign @ t"
      "e = c # sign @ d" "digits1 t = Some (d, r)" "sign = [] \<longrightarrow> t \<noteq> [] \<longrightarrow> hd t \<noteq> CHR ''+'' \<and> hd t \<noteq> CHR ''-''"
  proof -
    show ?thesis
    proof (cases s)
      case (Cons c cs)
      show ?thesis
      proof (cases "c = CHR ''e'' \<or> c = CHR ''E''")
        case True
        define sign where "sign = (if cs \<noteq> [] \<and> (hd cs = CHR ''+'' \<or> hd cs = CHR ''-'') then [hd cs] else [])"
        then obtain d where d: "digits1 (drop (length sign) cs) = Some (d, r)" "e = c # sign @ d"
          using assms True Cons by (auto simp: parse_exp_def Let_def split: option.splits)
        have "cs = sign @ drop (length sign) cs" "sign = [] \<or> sign = ''+'' \<or> sign = ''-''"
          by (auto simp: sign_def neq_Nil_conv)
        then show thesis using that(2) [of c sign "drop (length sign) cs" d] True d Cons by (auto simp: sign_def split: if_splits)
      next
        case False
        then show thesis using assms Cons that(1) by (auto simp: parse_exp_def)
      qed
    qed (use assms that(1) in \<open>simp add: parse_exp_def\<close>)
  qed
  then have "s = e @ r \<and> (e = [] \<or> hd e = CHR ''e'' \<or> hd e = CHR ''E'') \<and> (\<forall>c \<in> set e. number_char c) \<and>
    (ends_number x \<longrightarrow> parse_exp (e @ x) = Some (e, x))"
  proof cases
    case 1
    then show ?thesis by (auto simp: parse_exp_def ends_number_def split: list.splits)
  next
    case 2
    note d = digits1_local [OF 2(5)]
    have "\<not> starts_digit x" if "ends_number x" using that by (cases x) (auto simp: ends_number_def starts_digit_def)
    moreover have "hd d \<noteq> CHR ''+'' \<and> hd d \<noteq> CHR ''-''" using d(2,3) by (cases d) (auto simp: is_digit_def)
    ultimately show ?thesis using d 2(1-4) by (auto simp: parse_exp_def number_char_def)
  qed
  then show "s = e @ r" "e = [] \<or> hd e = CHR ''e'' \<or> hd e = CHR ''E''" "\<forall>c \<in> set e. number_char c"
    and "ends_number x \<Longrightarrow> parse_exp (e @ x) = Some (e, x)" by auto
qed

lemma parse_number_local:
  assumes "parse_number s = Some (num, r)"
  shows "s = num @ r" "\<forall>c \<in> set num. number_char c" "num \<noteq> []" "hd num = CHR ''-'' \<or> is_digit (hd num)"
    and "ends_number x \<Longrightarrow> parse_number (num @ x) = Some (num, x)"
proof -
  define sign where "sign = (if s \<noteq> [] \<and> hd s = CHR ''-'' then ''-'' else [])"
  obtain i f e r1 r2 where p: "parse_int (drop (length sign) s) = Some (i, r1)" "parse_frac r1 = Some (f, r2)"
      "parse_exp r2 = Some (e, r)" and num: "num = sign @ i @ f @ e"
    using assms by (auto simp: parse_number_def Let_def sign_def split: option.splits)
  note int = parse_int_local [OF p(1)] and frac = parse_frac_local [OF p(2)] and exp = parse_exp_local [OF p(3)]
  have s: "s = sign @ drop (length sign) s" by (auto simp: sign_def neq_Nil_conv)
  then show st: "s = num @ r" unfolding num using int(1) frac(1) exp(1) by simp
  have i: "i \<noteq> []" "is_digit (hd i)" using int(2) by (simp_all add: starts_digit_def)
  show "\<forall>c \<in> set num. number_char c"
    unfolding num using int(3) frac(3) exp(3) by (auto simp: sign_def number_char_def)
  show "num \<noteq> []" "hd num = CHR ''-'' \<or> is_digit (hd num)" unfolding num using i by (auto simp: sign_def)
  assume x: "ends_number x"
  have e: "\<not> starts_digit (e @ x) \<and> (\<forall>y. e @ x \<noteq> CHR ''.'' # y)"
    using exp(2) x by (cases e; cases x) (auto simp: starts_digit_def is_digit_def ends_number_def)
  then have f: "\<not> starts_digit (f @ e @ x)"
    using frac(2) by (cases f) (auto simp: starts_digit_def is_digit_def)
  have "(if num @ x \<noteq> [] \<and> hd (num @ x) = CHR ''-'' then ''-'' else []) = sign"
    using i by (cases i) (auto simp: num sign_def is_digit_def)
  moreover have "parse_int (i @ f @ e @ x) = Some (i, f @ e @ x)" using int(4) f by blast
  moreover have "parse_frac (f @ e @ x) = Some (f, e @ x)" using frac(4) e by blast
  moreover have "parse_exp (e @ x) = Some (e, x)" using exp(4) x by blast
  ultimately show "parse_number (num @ x) = Some (num, x)"
    unfolding parse_number_def Let_def by (simp add: num)
qed

lemma compact_append:
  "\<forall>c \<in> set w. \<not> is_space c \<and> c \<noteq> CHR 0x22 \<Longrightarrow> compact_value (w @ s) = w @ compact_value s"
  by (induction w) (auto simp: compact_value.simps(2))

lemma compact_number: "\<forall>c \<in> set w. number_char c \<Longrightarrow> compact_value (w @ s) = w @ compact_value s"
  by (rule compact_append) (auto simp: number_char_def is_digit_def is_space_def)

lemma starts_with_iff: "starts_with w s \<longleftrightarrow> (\<exists>r. s = w @ r)"
  by (metis append_eq_conv_conj append_take_drop_id starts_with_def)

lemma compact_literal:
  assumes "w \<in> {''null'', ''true'', ''false''}" and "starts_with w s"
  shows "compact_value s = w @ compact_value (drop (length w) s)"
proof -
  obtain r where "s = w @ r" using assms(2) starts_with_iff by blast
  moreover have "compact_value (w @ r) = w @ compact_value r"
    by (rule compact_append) (use assms(1) in \<open>auto simp: is_space_def\<close>)
  ultimately show ?thesis by simp
qed

lemma parse_scalar_literal:
  "parse_scalar (''null'' @ r) = Some (JNull, r)" "parse_scalar (''true'' @ r) = Some (JBool True, r)"
  "parse_scalar (''false'' @ r) = Some (JBool False, r)"
  by (simp_all add: parse_scalar_def starts_with_def)

lemma parse_scalar_compact:
  assumes "parse_scalar s = Some (v, r)" and "\<not> is_space (hd s)" and "ends_number (compact_value r @ t)"
  shows "parse_scalar (compact_value s @ t) = Some (v, compact_value r @ t)"
proof -
  have ne: "s \<noteq> []" using assms(1) by (auto simp: parse_scalar_def)
  consider (str) b where "hd s = CHR 0x22" "parse_chars (tl s) = Some (b, r)" "v = JString b"
    | (null) "starts_with ''null'' s" "v = JNull" "r = drop 4 s"
    | (tt) "starts_with ''true'' s" "v = JBool True" "r = drop 4 s"
    | (ff) "starts_with ''false'' s" "v = JBool False" "r = drop 5 s"
    | (nr) b where "parse_number s = Some (b, r)" "v = JNumber b"
    using assms(1) ne by (auto simp: parse_scalar_def split: if_splits)
  then show ?thesis
  proof cases
    case str
    then have "compact_value s = CHR 0x22 # compact_string (tl s)"
      using ne by (cases s) (auto simp: compact_value.simps(2) is_space_def)
    with str parse_chars_compact [OF str(2)] show ?thesis by (simp add: parse_scalar_def)
  next
    case null
    then show ?thesis using compact_literal [of "''null''" s] parse_scalar_literal(1) by (simp add: eval_nat_numeral)
  next
    case tt
    then show ?thesis using compact_literal [of "''true''" s] parse_scalar_literal(2) by (simp add: eval_nat_numeral)
  next
    case ff
    then show ?thesis using compact_literal [of "''false''" s] parse_scalar_literal(3) by (simp add: eval_nat_numeral)
  next
    case nr
    note l = parse_number_local [OF nr(1)]
    have "compact_value s @ t = b @ compact_value r @ t" using l(1,2) compact_number by simp
    moreover have "parse_number (b @ compact_value r @ t) = Some (b, compact_value r @ t)" using l(5) assms(3) .
    moreover have "b \<noteq> []" "hd b \<noteq> CHR 0x22" "hd b \<noteq> CHR ''n''" "hd b \<noteq> CHR ''t''" "hd b \<noteq> CHR ''f''"
      using l(3,4) by (auto simp: is_digit_def)
    ultimately show ?thesis using nr(2) by (cases b) (auto simp: parse_scalar_def starts_with_def)
  qed
qed

lemma ends_number_mark: "c \<in> {CHR '','', CHR '']'', CHR ''}''} \<Longrightarrow> ends_number (c # s)"
  by (auto simp: ends_number_def is_digit_def)

lemma compact_mark:
  assumes "skip_ws cs \<noteq> []"
  shows "starts_with [x] (skip_ws (compact_value cs @ t)) \<longleftrightarrow> starts_with [x] (skip_ws cs)"
    and "starts_with [x] (skip_ws cs) \<Longrightarrow> x \<noteq> CHR 0x22 \<Longrightarrow>
      tl (skip_ws (compact_value cs @ t)) = compact_value (tl (skip_ws cs)) @ t"
proof -
  obtain y ys where y: "skip_ws cs = y # ys" using assms by (cases "skip_ws cs") auto
  obtain w where w: "compact_value cs = y # w" "skip_ws (y # w @ t) = y # w @ t" "y \<noteq> CHR 0x22 \<Longrightarrow> w = compact_value ys"
    using compact_head [OF y, of t] by blast
  show "starts_with [x] (skip_ws (compact_value cs @ t)) \<longleftrightarrow> starts_with [x] (skip_ws cs)"
    using w(2) by (simp add: w(1) y starts_with_def)
  show "tl (skip_ws (compact_value cs @ t)) = compact_value (tl (skip_ws cs)) @ t"
    if "starts_with [x] (skip_ws cs)" "x \<noteq> CHR 0x22"
    using w(2,3) that by (simp add: w(1) y starts_with_def)
qed

text \<open>Compaction of a value followed by something that does not continue a number: the same
  value, and what follows.\<close>

lemma parse_compact:
  "parse_value n d s = Some (v, r) \<Longrightarrow> ends_number (compact_value r @ t) \<Longrightarrow>
     parse_value n d (compact_value s @ t) = Some (v, compact_value r @ t)"
  "parse_elements n d s = Some (vs, r) \<Longrightarrow> parse_elements n d (compact_value s @ t) = Some (vs, compact_value r @ t)"
  "parse_members n d s = Some (ms, r) \<Longrightarrow> parse_members n d (compact_value s @ t) = Some (ms, compact_value r @ t)"
proof (induction n d s and n d s and n d s arbitrary: v r and vs r and ms r
    rule: parse_value_parse_elements_parse_members.induct)
  case (2 n d s)
  obtain c cs where s: "skip_ws s = c # cs" using 2(3) by (cases "skip_ws s") auto
  obtain z where z: "compact_value s = c # z" "skip_ws (c # z @ t) = c # z @ t" "c \<noteq> CHR 0x22 \<Longrightarrow> z = compact_value cs"
    using compact_head [OF s, of t] by blast
  have sp: "\<not> is_space c" using s by (rule skip_ws_head)
  note mark = compact_mark(1) [of cs _ t] and rest = compact_mark(2) [of cs _ t]
  consider (obj) "c = CHR ''{''" | (arr) "c = CHR ''[''" | (sc) "c \<noteq> CHR ''{''" "c \<noteq> CHR ''[''" by blast
  then show ?case
  proof cases
    case obj
    have z': "compact_value s @ t = c # compact_value cs @ t" using z(1,3) obj by simp
    have d: "d \<noteq> 0" using 2(3) obj s by (auto split: if_splits)
    show ?thesis
    proof (cases "starts_with ''}'' (skip_ws cs)")
      case True
      then have ne: "skip_ws cs \<noteq> []" by (auto simp: starts_with_def)
      from 2(3) True obj s d have "v = JObject []" "r = tl (skip_ws cs)" by auto
      with True d mark [OF ne] rest [OF ne True] obj sp show ?thesis by (simp add: z')
    next
      case False
      then obtain ms where ms: "parse_members n (d - 1) cs = Some (ms, r)" "v = JObject ms" using 2(3) obj s d by auto
      have ne: "skip_ws cs \<noteq> []" using ms(1) by (cases n) (auto split: list.splits)
      from 2(1) [OF s obj d False ms(1)] False d mark [OF ne] obj sp ms(2) show ?thesis by (simp add: z')
    qed
  next
    case arr
    have z': "compact_value s @ t = c # compact_value cs @ t" using z(1,3) arr by simp
    have d: "d \<noteq> 0" using 2(3) arr s by (auto split: if_splits)
    show ?thesis
    proof (cases "starts_with '']'' (skip_ws cs)")
      case True
      then have ne: "skip_ws cs \<noteq> []" by (auto simp: starts_with_def)
      from 2(3) True arr s d have "v = JArray []" "r = tl (skip_ws cs)" by auto
      with True d mark [OF ne] rest [OF ne True] arr sp show ?thesis by (simp add: z')
    next
      case False
      then obtain vs where vs: "parse_elements n (d - 1) cs = Some (vs, r)" "v = JArray vs" using 2(3) arr s d by auto
      have c: "c \<noteq> CHR ''{''" using arr by simp
      have ne: "skip_ws cs \<noteq> []"
        using vs(1) by (cases n; cases "n - 1") (auto split: list.splits option.splits)
      from 2(2) [OF s c arr d False vs(1)] False d mark [OF ne] arr sp vs(2) show ?thesis by (simp add: z')
    qed
  next
    case sc
    have "parse_scalar (c # cs) = Some (v, r)" using 2(3) sc s by simp
    then have "parse_scalar (compact_value (c # cs) @ t) = Some (v, compact_value r @ t)"
      by (rule parse_scalar_compact) (use sp 2(4) in simp_all)
    moreover have "compact_value (c # cs) = c # z" using z(1) compact_skip [of s] s by simp
    ultimately show ?thesis using z(2) sc by (simp add: z(1))
  qed
next
  case (4 n d s)
  obtain w x c cs where p: "parse_value n d s = Some (w, x)" and x: "skip_ws x = c # cs" and c: "c = CHR '','' \<or> c = CHR '']''"
    using 4(3) by (auto split: option.splits list.splits if_splits)
  obtain z where z: "compact_value x = c # z" "skip_ws (c # z @ t) = c # z @ t" "c \<noteq> CHR 0x22 \<Longrightarrow> z = compact_value cs"
    using compact_head [OF x, of t] by blast
  have z': "compact_value x @ t = c # compact_value cs @ t" "skip_ws (c # compact_value cs @ t) = c # compact_value cs @ t"
    using z c by auto
  have v: "parse_value n d (compact_value s @ t) = Some (w, c # compact_value cs @ t)"
    using 4(1) [OF p] ends_number_mark [of c] c unfolding z'(1) by blast
  show ?case
  proof (cases "c = CHR '',''")
    case True
    then obtain us where us: "parse_elements n d cs = Some (us, r)" "vs = w # us" using 4(3) p x by auto
    from 4(2) [OF p refl x True us(1)] us(2) v z'(2) True show ?thesis by simp
  next
    case False
    then show ?thesis using 4(3) p x v z'(2) c by auto
  qed
next
  case (6 n d s)
  obtain q k u w x c cs where q: "skip_ws s = CHR 0x22 # q" "parse_chars q = Some (k, u)"
    and u: "starts_with '':'' (skip_ws u)" "parse_value n d (tl (skip_ws u)) = Some (w, x)"
    and x: "skip_ws x = c # cs" and c: "c = CHR '','' \<or> c = CHR ''}''"
    using 6(3) by (auto split: option.splits list.splits if_splits)
  have sq: "compact_value s @ t = CHR 0x22 # compact_string q @ t" "skip_ws (CHR 0x22 # compact_string q @ t) = CHR 0x22 # compact_string q @ t"
    using compact_head [OF q(1), of t] by auto
  have key: "parse_chars (compact_string q @ t) = Some (k, compact_value u @ t)" by (rule parse_chars_compact [OF q(2)])
  have ne: "skip_ws u \<noteq> []" using u(1) by (auto simp: starts_with_def)
  obtain z where z: "compact_value x = c # z" "skip_ws (c # z @ t) = c # z @ t" "c \<noteq> CHR 0x22 \<Longrightarrow> z = compact_value cs"
    using compact_head [OF x, of t] by blast
  have z': "compact_value x @ t = c # compact_value cs @ t" "skip_ws (c # compact_value cs @ t) = c # compact_value cs @ t"
    using z c by auto
  have v: "parse_value n d (compact_value (tl (skip_ws u)) @ t) = Some (w, c # compact_value cs @ t)"
    using 6(1) [OF q(1) _ q(2) refl _ u(2)] u(1) ends_number_mark [of c] c unfolding z'(1) by blast
  have tl: "tl (skip_ws (compact_value u @ t)) = compact_value (tl (skip_ws u)) @ t" "starts_with '':'' (skip_ws (compact_value u @ t))"
    using compact_mark [OF ne, of "CHR '':''" t] u(1) by auto
  show ?case
  proof (cases "c = CHR '',''")
    case True
    then obtain us where us: "parse_members n d cs = Some (us, r)" "ms = (k, w) # us" using 6(3) q u x by auto
    have "parse_members n d (compact_value cs @ t) = Some (us, compact_value r @ t)"
      by (rule 6(2) [OF q(1) _ q(2) refl _ u(2) refl x True us(1)]) (use u(1) in simp_all)
    then show ?thesis using us(2) v z'(2) True key sq tl by simp
  next
    case False
    then show ?thesis using 6(3) q u x v z'(2) c key sq tl by auto
  qed
qed simp_all

section \<open>Objects\<close>

text \<open>The text that \<open>json.Marshal\<close> writes for a struct, from the texts of its fields.\<close>

definition marshal_member :: "string \<times> string \<Rightarrow> string" where
  "marshal_member m = marshal_string (fst m) @ '':'' @ snd m"

fun marshal_members :: "(string \<times> string) list \<Rightarrow> string" where
  "marshal_members [] = []"
| "marshal_members [m] = marshal_member m"
| "marshal_members (m # ms) = marshal_member m @ '','' @ marshal_members ms"

definition marshal_object :: "(string \<times> string) list \<Rightarrow> string" where
  "marshal_object ms = ''{'' @ marshal_members ms @ ''}''"

definition json_Valid :: "bytes \<Rightarrow> bool" where
  "json_Valid s = (case parse_json s of None \<Rightarrow> False | Some (_, r) \<Rightarrow> skip_ws r = [])"

text \<open>A text that reads as a value wherever nothing follows that would continue a number, with \<open>d\<close>
  levels of nesting allowed.\<close>

definition text_of :: "nat \<Rightarrow> bytes \<Rightarrow> json \<Rightarrow> bool" where
  "text_of d s v \<longleftrightarrow>
     (\<forall>n t. 2 * length (s @ t) < n \<longrightarrow> ends_number t \<longrightarrow> parse_value n d (s @ t) = Some (v, t))"

lemma text_ofD:
  "text_of d s v \<Longrightarrow> 2 * length (s @ t) < n \<Longrightarrow> ends_number t \<Longrightarrow> parse_value n d (s @ t) = Some (v, t)"
  unfolding text_of_def by blast

lemma quote_not_space [simp]: "\<not> is_space (CHR 0x22)" "\<not> is_space (CHR ''{'')" "\<not> is_space (CHR '','')"
  "\<not> is_space (CHR ''}'')" "\<not> is_space (CHR '':'')"
  by (simp_all add: is_space_def)

lemma marshal_string_text:
  assumes "utf8_Valid s"
  shows "text_of d (marshal_string s) (JString s)"
proof -
  have "parse_value n d (marshal_string s @ t) = Some (JString s, t)" if "2 * length (marshal_string s @ t) < n" for n t
    using that parse_encode_chars [OF assms, of t]
    by (cases n) (simp_all add: marshal_string_def parse_scalar_def)
  then show ?thesis by (simp add: text_of_def)
qed

lemma compact_blank: "skip_ws r = [] \<Longrightarrow> compact_value r = []"
  using compact_skip [of r] by simp

lemma compact_text:
  assumes "parse_value n d s = Some (v, r)" and "2 * length s < n" and "skip_ws r = []"
  shows "text_of d (compact_value s) v"
  unfolding text_of_def
proof (intro allI impI)
  fix m t
  assume m: "2 * length (compact_value s @ t) < m" and t: "ends_number t"
  define k where "k = max m n"
  have "parse_value k d s = Some (v, r)" using assms(1) parse_fuel(1) [of s k n d] assms(2) by (simp add: k_def)
  then have "parse_value k d (compact_value s @ t) = Some (v, t)"
    using parse_compact(1) [of k d s v r t] compact_blank [OF assms(3)] t by simp
  moreover have "parse_value k d (compact_value s @ t) = parse_value m d (compact_value s @ t)"
    by (rule parse_fuel(1)) (use m in \<open>simp_all add: k_def\<close>)
  ultimately show "parse_value m d (compact_value s @ t) = Some (v, t)" by simp
qed

lemma starts_colon [simp]: "starts_with '':'' (CHR '':'' # s)"
  by (simp add: starts_with_def)

text \<open>A member is read up to the mark that follows it.\<close>

lemma read_member:
  assumes "utf8_Valid (fst m)" and "text_of d (snd m) v" and "c = CHR '','' \<or> c = CHR ''}''"
    and n: "2 * length (marshal_member m @ c # t) < n"
  shows "parse_members (Suc n) d (marshal_member m @ c # t) =
    (if c = CHR '','' then map_option (\<lambda>(ms, u). ((fst m, v) # ms, u)) (parse_members n d t) else Some ([(fst m, v)], t))"
proof -
  have key: "parse_chars (encode_chars (fst m) @ CHR 0x22 # CHR '':'' # snd m @ c # t) = Some (fst m, CHR '':'' # snd m @ c # t)"
    by (rule parse_encode_chars [OF assms(1)])
  have "parse_value n d (snd m @ c # t) = Some (v, c # t)"
    using assms(2) by (rule text_ofD) (use n assms(3) ends_number_mark [of c t] in \<open>auto simp: marshal_member_def\<close>)
  with key assms(3) show ?thesis by (auto simp: marshal_member_def marshal_string_def)
qed

lemma read_members:
  assumes "ms \<noteq> []" and "list_all2 (\<lambda>m kv. utf8_Valid (fst m) \<and> fst kv = fst m \<and> text_of d (snd m) (snd kv)) ms kvs"
    and "2 * length (marshal_members ms @ CHR ''}'' # t) < n"
  shows "parse_members (Suc n) d (marshal_members ms @ CHR ''}'' # t) = Some (kvs, t)"
  using assms
proof (induction ms arbitrary: kvs n rule: marshal_members.induct)
  case (2 m)
  then obtain kv where "kvs = [kv]" "utf8_Valid (fst m)" "fst kv = fst m" "text_of d (snd m) (snd kv)"
    by (auto simp: list_all2_Cons1)
  then show ?case using read_member [of m d "snd kv" "CHR ''}''" t n] 2(3) by (cases kv) auto
next
  case (3 m m' ms)
  then obtain kv kvs' where kv: "kvs = kv # kvs'" "utf8_Valid (fst m)" "fst kv = fst m" "text_of d (snd m) (snd kv)"
    and rest: "list_all2 (\<lambda>m kv. utf8_Valid (fst m) \<and> fst kv = fst m \<and> text_of d (snd m) (snd kv)) (m' # ms) kvs'"
    by (auto simp: list_all2_Cons1)
  obtain k where n: "n = Suc k" "2 * length (marshal_members (m' # ms) @ CHR ''}'' # t) < k"
    using 3(4) by (cases n) auto
  have "parse_members n d (marshal_members (m' # ms) @ CHR ''}'' # t) = Some (kvs', t)"
    unfolding n(1) by (rule 3(1) [OF _ rest n(2)]) simp
  with read_member [OF kv(2,4), of "CHR '',''" "marshal_members (m' # ms) @ CHR ''}'' # t" n] 3(4) kv(1,3)
  show ?case by (cases kv) auto
qed simp

lemma marshal_members_head: "ms \<noteq> [] \<Longrightarrow> \<exists>s. marshal_members ms = CHR 0x22 # s"
  by (cases ms rule: marshal_members.cases) (simp_all add: marshal_member_def marshal_string_def)

lemma marshal_object_text:
  assumes "ms \<noteq> []" and "list_all2 (\<lambda>m kv. utf8_Valid (fst m) \<and> fst kv = fst m \<and> text_of d (snd m) (snd kv)) ms kvs"
  shows "text_of (Suc d) (marshal_object ms) (JObject kvs)"
  unfolding text_of_def
proof (intro allI impI)
  fix n t
  assume "2 * length (marshal_object ms @ t) < n"
  then obtain k where n: "n = Suc (Suc k)" "2 * length (marshal_members ms @ CHR ''}'' # t) < k"
    by (cases n; cases "n - 1") (auto simp: marshal_object_def)
  have "\<not> starts_with ''}'' (skip_ws (marshal_members ms @ CHR ''}'' # t))"
    using marshal_members_head [OF assms(1)] by (auto simp: starts_with_def)
  with read_members [OF assms n(2)] show "parse_value n (Suc d) (marshal_object ms @ t) = Some (JObject kvs, t)"
    by (simp add: n(1) marshal_object_def)
qed

lemma text_of_json: "text_of maxNestingDepth s v \<Longrightarrow> parse_json s = Some (v, [])"
  using text_ofD [of maxNestingDepth s v "[]" "Suc (2 * length s)"] unfolding parse_json_def
  by (simp add: ends_number_def del: parse_value.simps)

text \<open>A deeper limit reads the same value.\<close>

lemma parse_deeper:
  "parse_value n d s = Some v \<Longrightarrow> parse_value n (Suc d) s = Some v"
  "parse_elements n d s = Some vs \<Longrightarrow> parse_elements n (Suc d) s = Some vs"
  "parse_members n d s = Some ms \<Longrightarrow> parse_members n (Suc d) s = Some ms"
proof (induction n d s and n d s and n d s arbitrary: v and vs and ms
    rule: parse_value_parse_elements_parse_members.induct)
  case (2 n d s)
  obtain c cs where s: "skip_ws s = c # cs" using 2(3) by (cases "skip_ws s") auto
  show ?case
  proof (cases "d = 0")
    case True
    with 2(3) s show ?thesis by (auto split: if_splits)
  next
    case False
    have obj: "parse_members n (Suc (d - 1)) cs = Some ms"
      if "c = CHR ''{''" "\<not> starts_with ''}'' (skip_ws cs)" "parse_members n (d - 1) cs = Some ms" for ms
      using 2(1) [OF s that(1) False that(2,3)] .
    have arr: "parse_elements n (Suc (d - 1)) cs = Some vs"
      if "c = CHR ''[''" "\<not> starts_with '']'' (skip_ws cs)" "parse_elements n (d - 1) cs = Some vs" for vs
      by (rule 2(2) [OF s _ that(1) False that(2,3)]) (simp add: that(1))
    show ?thesis using 2(3) False obj arr by (auto simp: s split: if_splits)
  qed
next
  case (4 n d s)
  then show ?case by (fastforce split: option.splits list.splits if_splits)
next
  case (6 n d s)
  then show ?case by (fastforce split: option.splits list.splits if_splits)
qed simp_all

end
