(* ===== verification/SDK_Emit.thy ===== *)
theory SDK_Emit
  imports Go_Compact Go_Time Pg_State "HOL-Library.Monad_Syntax"
begin

text \<open>
  The producer side of the SDK, \<open>sdk/go/writerelay.go\<close>, and the function \<open>writerelay.emit\<close> that
  \<open>sql/postgres/001_install.sql\<close> installs. An event that the SDK sends and the function emits passes
  the relay's own validation with the identity the application gave it. The timestamp parser and
  the text of a \<open>jsonb\<close> value are parameters.
\<close>

section \<open>The SDK\<close>

datatype sdk_error = ErrInvalidEvent string | ErrNilTransaction | ErrDatabase string

text \<open>\<open>None\<close> is the nil of \<open>Subject\<close> and \<open>Data\<close>.\<close>

record Event =
  sd_ID :: string
  sd_Source :: string
  sd_Type :: string
  sd_SpecVersion :: string
  sd_Subject :: "string option"
  sd_Time :: string
  sd_DataContentType :: string
  sd_Data :: "bytes option"

definition validString :: "string \<Rightarrow> bool" where
  "validString value \<longleftrightarrow> utf8_Valid value \<and> CHR 0x00 \<notin> set value"

text \<open>The escapes of a JSON text: none denotes U+0000 and surrogates come in pairs. A code that is
  not hexadecimal counts as 0, as the ignored error of \<open>ParseUint\<close> makes it; the text has been
  checked to be JSON, so that an escape is never cut off.\<close>

definition escape_code :: "bytes \<Rightarrow> nat" where
  "escape_code s = (case hex4 (take 4 s) of None \<Rightarrow> 0 | Some (u, _) \<Rightarrow> u)"

fun escapes_ok :: "bytes \<Rightarrow> bool" where
  "escapes_ok [] = True"
| "escapes_ok (c # s) =
     (if c \<noteq> CHR 0x5C then escapes_ok s
      else if take 1 s \<noteq> ''u'' then escapes_ok (drop 1 s)
      else
        (let u = escape_code (drop 1 s); rest = drop 5 s in
         if u = 0 \<or> 0xDC00 \<le> u \<and> u \<le> 0xDFFF then False
         else if 0xD800 \<le> u \<and> u \<le> 0xDBFF then
           length rest \<ge> 6 \<and> take 2 rest = [CHR 0x5C, CHR ''u''] \<and>
           0xDC00 \<le> escape_code (drop 2 rest) \<and> escape_code (drop 2 rest) \<le> 0xDFFF \<and> escapes_ok (drop 6 rest)
         else escapes_ok rest))"

definition validJSON :: "bytes \<Rightarrow> bool" where
  "validJSON data \<longleftrightarrow> utf8_Valid data \<and> json_Valid data \<and> escapes_ok data"

text \<open>The regular expression \<open>timestamp\<close>.\<close>

definition match_digits :: "nat \<Rightarrow> string \<Rightarrow> string option" where
  "match_digits n s = (if n \<le> length s \<and> list_all is_digit (take n s) then Some (drop n s) else None)"

definition match_char :: "char \<Rightarrow> string \<Rightarrow> string option" where
  "match_char c s = (case s of [] \<Rightarrow> None | a # r \<Rightarrow> if a = c then Some r else None)"

definition match_fraction :: "string \<Rightarrow> string option" where
  "match_fraction s = (case match_char (CHR ''.'') s of None \<Rightarrow> Some s | Some r \<Rightarrow> map_option snd (digits1 r))"

definition match_zone :: "string \<Rightarrow> bool" where
  "match_zone s \<longleftrightarrow> s = ''Z'' \<or>
     (take 1 s = ''+'' \<or> take 1 s = ''-'') \<and>
     do { s \<leftarrow> match_digits 2 (drop 1 s); s \<leftarrow> match_char (CHR '':'') s; match_digits 2 s } = Some []"

definition timestamp_MatchString :: "string \<Rightarrow> bool" where
  "timestamp_MatchString s \<longleftrightarrow>
     (case do { s \<leftarrow> match_digits 4 s; s \<leftarrow> match_char (CHR ''-'') s; s \<leftarrow> match_digits 2 s; s \<leftarrow> match_char (CHR ''-'') s;
        s \<leftarrow> match_digits 2 s; s \<leftarrow> match_char (CHR ''T'') s; s \<leftarrow> match_digits 2 s; s \<leftarrow> match_char (CHR '':'') s;
        s \<leftarrow> match_digits 2 s; s \<leftarrow> match_char (CHR '':'') s; s \<leftarrow> match_digits 2 s; match_fraction s } of
        None \<Rightarrow> False | Some s \<Rightarrow> match_zone s)"

text \<open>The checks of \<open>Time\<close>: the comparison of the offset is that of Go strings.\<close>

definition time_error :: "(string \<Rightarrow> time option) \<Rightarrow> string \<Rightarrow> string option" where
  "time_error parseTime t =
     (if t = [] then None
      else if parseTime t = None \<or> \<not> timestamp_MatchString t then Some ''time must be RFC 3339''
      else if last t = CHR ''Z'' then None
      else
        (let offset = drop (length t - 5) t in
         if text_less ''23'' (take 2 offset) \<or> text_less ''59'' (drop 3 offset)
         then Some ''time has an invalid timezone offset'' else None))"

text \<open>\<open>json.Marshal\<close> of the struct: the order and the \<open>omitempty\<close> of its tags. It fails when the
  raw data is not one JSON value.\<close>

definition event_members :: "Event \<Rightarrow> (string \<times> string) list" where
  "event_members event =
     [(''id'', marshal_string (sd_ID event)), (''source'', marshal_string (sd_Source event)),
      (''type'', marshal_string (sd_Type event)), (''specversion'', marshal_string (sd_SpecVersion event))] @
     (case sd_Subject event of None \<Rightarrow> [] | Some s \<Rightarrow> [(''subject'', marshal_string s)]) @
     (if sd_Time event = [] then [] else [(''time'', marshal_string (sd_Time event))]) @
     (if sd_DataContentType event = [] then [] else [(''datacontenttype'', marshal_string (sd_DataContentType event))]) @
     (case sd_Data event of None \<Rightarrow> [] | Some data \<Rightarrow> if data = [] then [] else [(''data'', compact_value data)])"

definition json_Marshal :: "Event \<Rightarrow> string option" where
  "json_Marshal event =
     (if \<exists>data \<in> set_option (sd_Data event). data \<noteq> [] \<and> \<not> json_Valid data then None
      else Some (marshal_object (event_members event)))"

definition required_error :: "(string \<times> string) list \<Rightarrow> string option" where
  "required_error required =
     map_option (\<lambda>(name, _). name @ '' must be a non-empty UTF-8 string without NUL'')
       (find (\<lambda>(_, value). value = [] \<or> \<not> validString value) required)"

text \<open>The envelope with its defaults filled in.\<close>

definition with_defaults :: "Event \<Rightarrow> Event" where
  "with_defaults event = event
     \<lparr>sd_SpecVersion := (if sd_SpecVersion event = [] then ''1.0'' else sd_SpecVersion event),
      sd_DataContentType :=
        (if sd_Data event \<noteq> None \<and> sd_DataContentType event = [] then ''application/json'' else sd_DataContentType event)\<rparr>"

definition encode :: "(string \<Rightarrow> time option) \<Rightarrow> Event \<Rightarrow> sdk_error + string" where
  "encode parseTime event =
     (case required_error [(''id'', sd_ID event), (''source'', sd_Source event), (''type'', sd_Type event)] of
        Some err \<Rightarrow> Inl (ErrInvalidEvent err)
      | None \<Rightarrow>
          if sd_SpecVersion (with_defaults event) \<noteq> ''1.0'' then Inl (ErrInvalidEvent ''specversion must be 1.0'')
          else if \<exists>s \<in> set_option (sd_Subject event). \<not> validString s
            then Inl (ErrInvalidEvent ''subject must be UTF-8 without NUL'')
          else if \<not> validString (sd_DataContentType event)
            then Inl (ErrInvalidEvent ''datacontenttype must be UTF-8 without NUL'')
          else (case time_error parseTime (sd_Time event) of
                  Some err \<Rightarrow> Inl (ErrInvalidEvent err)
                | None \<Rightarrow>
                    if \<exists>data \<in> set_option (sd_Data event). \<not> validJSON data
                      then Inl (ErrInvalidEvent ''data must be valid UTF-8 JSON without NUL or unpaired surrogates'')
                    else (case json_Marshal (with_defaults event) of
                            None \<Rightarrow> Inl (ErrInvalidEvent ''cannot encode envelope'')
                          | Some payload \<Rightarrow> Inr payload)))"

text \<open>The transaction argument: absent, a nil pointer inside the interface, or a transaction. The
  database answers a statement with an error or without. The first component of the result are
  the payloads that were sent.\<close>

datatype tx_argument = NilInterface | NilPointer | Transaction

definition Emit ::
    "(string \<Rightarrow> time option) \<Rightarrow> (string \<Rightarrow> string option) \<Rightarrow> tx_argument \<Rightarrow> Event \<Rightarrow> string list \<times> sdk_error option" where
  "Emit parseTime exec tx event =
     (if tx = NilInterface \<or> tx = NilPointer then ([], Some ErrNilTransaction)
      else (case encode parseTime event of
              Inl err \<Rightarrow> ([], Some err)
            | Inr payload \<Rightarrow> ([payload], map_option ErrDatabase (exec payload))))"

definition EmitSQL ::
    "(string \<Rightarrow> time option) \<Rightarrow> (string \<Rightarrow> string option) \<Rightarrow> bool \<Rightarrow> Event \<Rightarrow> string list \<times> sdk_error option" where
  "EmitSQL parseTime exec tx_nil event =
     (if tx_nil then ([], Some ErrNilTransaction)
      else (case encode parseTime event of
              Inl err \<Rightarrow> ([], Some err)
            | Inr payload \<Rightarrow> ([payload], map_option ErrDatabase (exec payload))))"

section \<open>The installed function\<close>

datatype emit_error = InvalidParameter string | LimitExceeded string

text \<open>\<open>event->name\<close> of a \<open>jsonb\<close> object, whose keys are distinct.\<close>

definition jsonb_field :: "json \<Rightarrow> string \<Rightarrow> json option" where
  "jsonb_field event name = (case event of JObject ms \<Rightarrow> map_of ms name | _ \<Rightarrow> None)"

definition is_object :: "json \<Rightarrow> bool" where
  "is_object event = (case event of JObject _ \<Rightarrow> True | _ \<Rightarrow> False)"

definition required_text :: "json \<Rightarrow> string \<Rightarrow> bool" where
  "required_text event name \<longleftrightarrow> (case jsonb_field event name of Some (JString v) \<Rightarrow> v \<noteq> [] | _ \<Rightarrow> False)"

definition maxEmitBytes :: nat where
  "maxEmitBytes = 262144"

text \<open>The function is STRICT: a null argument emits nothing. The position is the one at which the
  server writes the message.\<close>

definition emit :: "(json \<Rightarrow> bytes) \<Rightarrow> lsn \<Rightarrow> json option \<Rightarrow> emit_error + LogicalDecodingMessage option" where
  "emit jsonb_text lsn argument = (case argument of
     None \<Rightarrow> Inr None
   | Some event \<Rightarrow>
       if \<not> is_object event then Inl (InvalidParameter ''event must be a JSON object'')
       else if jsonb_field event ''specversion'' \<noteq> Some (JString ''1.0'')
         then Inl (InvalidParameter ''specversion must be 1.0'')
       else if \<not> required_text event ''id'' then Inl (InvalidParameter ''event id is required'')
       else if \<not> required_text event ''source'' then Inl (InvalidParameter ''event source is required'')
       else if \<not> required_text event ''type'' then Inl (InvalidParameter ''event type is required'')
       else if length (jsonb_text event) > maxEmitBytes then Inl (LimitExceeded ''event exceeds 262144-byte limit'')
       else Inr (Some \<lparr>ld_LSN = lsn, ld_Transactional = True, ld_Prefix = ''writerelay.v1'', ld_Content = jsonb_text event\<rparr>))"

section \<open>What the SDK sends\<close>

lemma encode_Inr:
  assumes "encode parseTime event = Inr payload"
  shows "sd_ID event \<noteq> []" "sd_Source event \<noteq> []" "sd_Type event \<noteq> []"
    and "utf8_Valid (sd_ID event)" "utf8_Valid (sd_Source event)" "utf8_Valid (sd_Type event)"
    and "sd_SpecVersion (with_defaults event) = ''1.0''"
    and "\<And>s. sd_Subject event = Some s \<Longrightarrow> utf8_Valid s" "utf8_Valid (sd_DataContentType event)"
    and "time_error parseTime (sd_Time event) = None"
    and "\<And>data. sd_Data event = Some data \<Longrightarrow> validJSON data"
    and "payload = marshal_object (event_members (with_defaults event))"
  using assms
  by (auto simp: encode_def required_error_def validString_def json_Marshal_def split: option.splits if_splits)

text \<open>A valid timestamp is ASCII.\<close>

lemma ascii_Valid: "\<forall>c \<in> set s. code c < 128 \<Longrightarrow> utf8_Valid s"
  by (induction s) (simp_all add: utf8_Valid_ascii)

lemma match_digits_ascii: "match_digits n s = Some r \<Longrightarrow> \<forall>c \<in> set r. code c < 128 \<Longrightarrow> \<forall>c \<in> set s. code c < 128"
proof -
  assume m: "match_digits n s = Some r" and r: "\<forall>c \<in> set r. code c < 128"
  then have "set s = set (take n s) \<union> set r" by (metis append_take_drop_id match_digits_def option.inject option.simps(3) set_append)
  with m r show ?thesis by (auto simp: match_digits_def list_all_iff is_digit_def split: if_splits)
qed

lemma match_char_ascii:
  "match_char c s = Some r \<Longrightarrow> \<forall>c \<in> set r. code c < 128 \<Longrightarrow> code c < 128 \<Longrightarrow> \<forall>c \<in> set s. code c < 128"
  by (auto simp: match_char_def split: list.splits if_splits)

lemma match_fraction_ascii: "match_fraction s = Some r \<Longrightarrow> \<forall>c \<in> set r. code c < 128 \<Longrightarrow> \<forall>c \<in> set s. code c < 128"
proof (cases "match_char (CHR ''.'') s")
  case (Some t)
  assume f: "match_fraction s = Some r" and r: "\<forall>c \<in> set r. code c < 128"
  then obtain d where "digits1 t = Some (d, r)" using Some by (auto simp: match_fraction_def)
  then have "\<forall>c \<in> set t. code c < 128" using digits1_local(1,3) [of t d r] r by (auto simp: is_digit_def)
  with match_char_ascii [OF Some] show ?thesis by simp
qed (simp add: match_fraction_def)

lemma match_zone_ascii: "match_zone s \<Longrightarrow> \<forall>c \<in> set s. code c < 128"
proof -
  assume "match_zone s"
  then consider "s = ''Z''"
    | u v where "take 1 s = ''+'' \<or> take 1 s = ''-''" "match_digits 2 (drop 1 s) = Some u" "match_char (CHR '':'') u = Some v"
        "match_digits 2 v = Some []"
    by (auto simp: match_zone_def bind_eq_Some_conv)
  then show ?thesis
  proof cases
    case 2
    have "\<forall>c \<in> set v. code c < 128" by (rule match_digits_ascii [OF 2(4)]) simp
    then have "\<forall>c \<in> set u. code c < 128" by (rule match_char_ascii [OF 2(3)]) simp
    then have "\<forall>c \<in> set (drop 1 s). code c < 128" by (rule match_digits_ascii [OF 2(2)])
    moreover have "\<forall>c \<in> set (take 1 s). code c < 128" using 2(1) by auto
    ultimately show ?thesis by (metis Un_iff append_take_drop_id set_append)
  qed simp
qed

lemma timestamp_ascii:
  assumes "timestamp_MatchString s"
  shows "\<forall>c \<in> set s. code c < 128"
proof -
  obtain s1 s2 s3 s4 s5 s6 s7 s8 s9 s10 s11 s12 where m:
    "match_digits 4 s = Some s1" "match_char (CHR ''-'') s1 = Some s2" "match_digits 2 s2 = Some s3"
    "match_char (CHR ''-'') s3 = Some s4" "match_digits 2 s4 = Some s5" "match_char (CHR ''T'') s5 = Some s6"
    "match_digits 2 s6 = Some s7" "match_char (CHR '':'') s7 = Some s8" "match_digits 2 s8 = Some s9"
    "match_char (CHR '':'') s9 = Some s10" "match_digits 2 s10 = Some s11" "match_fraction s11 = Some s12" "match_zone s12"
    using assms unfolding timestamp_MatchString_def
    by (auto simp only: bind_eq_Some_conv split: option.splits)
  note d = match_digits_ascii and c = match_char_ascii
  show ?thesis
    by (intro d [OF m(1)] c [OF m(2)] d [OF m(3)] c [OF m(4)] d [OF m(5)] c [OF m(6)] d [OF m(7)] c [OF m(8)] d [OF m(9)]
        c [OF m(10)] d [OF m(11)] match_fraction_ascii [OF m(12)] match_zone_ascii [OF m(13)]) simp_all
qed

lemma time_valid: "time_error parseTime t = None \<Longrightarrow> utf8_Valid t \<and> (t \<noteq> [] \<longrightarrow> parseTime t \<noteq> None)"
  using ascii_Valid timestamp_ascii by (auto simp: time_error_def split: if_splits)

text \<open>Nothing is sent without a transaction or for an event that fails validation, and at most one
  statement otherwise.\<close>

lemma Emit_sends:
  assumes "Emit parseTime exec tx event = (sent, err)"
  shows "(sent = [] \<and> (err = Some ErrNilTransaction \<or> (\<exists>m. err = Some (ErrInvalidEvent m)))) \<or>
    (\<exists>payload. tx = Transaction \<and> encode parseTime event = Inr payload \<and> sent = [payload] \<and>
       err = map_option ErrDatabase (exec payload))"
proof -
  have "\<exists>m. e = ErrInvalidEvent m" if "encode parseTime event = Inl e" for e
    using that by (auto simp: encode_def split: option.splits if_splits)
  then show ?thesis using assms by (cases tx) (auto simp: Emit_def split: sum.splits)
qed

lemma EmitSQL_Emit: "EmitSQL parseTime exec False event = Emit parseTime exec Transaction event"
  by (simp add: EmitSQL_def Emit_def)

text \<open>The data leaves room for the level of the envelope around it: one less than the decoder's limit.\<close>

definition nests_below_limit :: "Event \<Rightarrow> bool" where
  "nests_below_limit event \<longleftrightarrow>
     (case sd_Data event of None \<Rightarrow> True
      | Some data \<Rightarrow> parse_value (Suc (2 * length data)) (maxNestingDepth - 1) data \<noteq> None)"

lemma data_text:
  assumes "json_Valid data" and "parse_value (Suc (2 * length data)) (maxNestingDepth - 1) data \<noteq> None"
  shows "\<exists>v. text_of (maxNestingDepth - 1) (compact_value data) v"
proof -
  obtain v r where v: "parse_value (Suc (2 * length data)) (maxNestingDepth - 1) data = Some (v, r)" using assms(2) by auto
  have "Suc (maxNestingDepth - 1) = maxNestingDepth" by (simp add: maxNestingDepth_def)
  with parse_deeper(1) [OF v] assms(1) have "skip_ws r = []" by (simp add: json_Valid_def parse_json_def del: parse_value.simps)
  with compact_text [OF v] show ?thesis by auto
qed

text \<open>The members of the envelope as values, without the data.\<close>

definition event_values :: "Event \<Rightarrow> (string \<times> json) list" where
  "event_values event =
     [(''id'', JString (sd_ID event)), (''source'', JString (sd_Source event)),
      (''type'', JString (sd_Type event)), (''specversion'', JString (sd_SpecVersion event))] @
     (case sd_Subject event of None \<Rightarrow> [] | Some s \<Rightarrow> [(''subject'', JString s)]) @
     (if sd_Time event = [] then [] else [(''time'', JString (sd_Time event))]) @
     (if sd_DataContentType event = [] then [] else [(''datacontenttype'', JString (sd_DataContentType event))])"

lemma name_Valid: "utf8_Valid ''id''" "utf8_Valid ''source''" "utf8_Valid ''type''" "utf8_Valid ''specversion''"
  "utf8_Valid ''subject''" "utf8_Valid ''time''" "utf8_Valid ''datacontenttype''" "utf8_Valid ''data''" "utf8_Valid ''1.0''"
  "utf8_Valid ''application/json''"
  by (simp_all add: utf8_Valid_ascii)

lemma envelope_read:
  assumes "encode parseTime event = Inr payload" and "nests_below_limit event"
  shows "\<exists>data. parse_json payload = Some (JObject (event_values (with_defaults event) @ data), []) \<and> set (map fst data) \<subseteq> {''data''}"
proof -
  note e = encode_Inr [OF assms(1)]
  let ?d = "maxNestingDepth - 1" and ?ev = "with_defaults event"
  have ev: "sd_ID ?ev = sd_ID event" "sd_Source ?ev = sd_Source event" "sd_Type ?ev = sd_Type event"
      "sd_Subject ?ev = sd_Subject event" "sd_Time ?ev = sd_Time event" "sd_Data ?ev = sd_Data event"
    by (simp_all add: with_defaults_def)
  have dct: "utf8_Valid (sd_DataContentType ?ev)" using e(9) name_Valid by (simp add: with_defaults_def)
  let ?rel = "\<lambda>m kv. utf8_Valid (fst m) \<and> fst kv = fst m \<and> text_of ?d (snd m) (snd kv)"
  define plain where "plain = event_members (?ev\<lparr>sd_Data := None\<rparr>)"
  have "list_all2 ?rel plain (event_values ?ev)"
    using e(4-6,8) dct time_valid [OF e(10)]
    by (auto simp: plain_def event_members_def event_values_def ev e(7) name_Valid marshal_string_text split: option.splits)
  moreover obtain texts data where "event_members ?ev = plain @ texts" "list_all2 ?rel texts data" "set (map fst data) \<subseteq> {''data''}"
  proof (cases "sd_Data event")
    case None
    then show thesis using that [of "[]" "[]"] by (simp add: event_members_def plain_def ev)
  next
    case (Some raw)
    then have raw: "json_Valid raw" using e(11) by (simp add: validJSON_def)
    then obtain v where "text_of ?d (compact_value raw) v"
      using data_text assms(2) Some by (auto simp: nests_below_limit_def)
    moreover have "raw \<noteq> []" using raw by (auto simp: json_Valid_def parse_json_def skip_ws_def)
    ultimately show thesis
      using that [of "[(''data'', compact_value raw)]" "[(''data'', v)]"] Some
      by (simp add: event_members_def plain_def ev name_Valid)
  qed
  ultimately have "list_all2 ?rel (event_members ?ev) (event_values ?ev @ data)" by (simp add: list_all2_appendI)
  moreover have "event_members ?ev \<noteq> []" by (simp add: event_members_def)
  ultimately have "text_of (Suc ?d) payload (JObject (event_values ?ev @ data))"
    unfolding e(12) by (rule marshal_object_text [rotated])
  then have "parse_json payload = Some (JObject (event_values ?ev @ data), [])"
    by (intro text_of_json) (simp add: maxNestingDepth_def)
  then show ?thesis using \<open>set (map fst data) \<subseteq> {''data''}\<close> by blast
qed

section \<open>The relay accepts what the SDK sends\<close>

text \<open>What the relay is to read from an event.\<close>

definition event_metadata :: "(string \<Rightarrow> time option) \<Rightarrow> Event \<Rightarrow> Metadata" where
  "event_metadata parseTime event =
     \<lparr>md_SpecVersion = ''1.0'', md_ID = sd_ID event, md_Source = sd_Source event, md_Type = sd_Type event,
      md_Subject = (case sd_Subject event of None \<Rightarrow> [] | Some s \<Rightarrow> s),
      md_Time = (if sd_Time event = [] then None else parseTime (sd_Time event)),
      md_DataContentType = sd_DataContentType (with_defaults event)\<rparr>"

definition envelope_names :: "string set" where
  "envelope_names = {''specversion'', ''id'', ''source'', ''type'', ''subject'', ''datacontenttype'', ''time''}"

text \<open>The same string under a name, or absent from both.\<close>

definition same_strings :: "(string \<Rightarrow> json option) \<Rightarrow> (string \<Rightarrow> json option) \<Rightarrow> bool" where
  "same_strings a b \<longleftrightarrow>
     (\<forall>name. (a name = None \<longleftrightarrow> b name = None) \<and> (\<forall>s. a name = Some (JString s) \<longleftrightarrow> b name = Some (JString s)))"

lemma event_values_lookup:
  "map_of (event_values ev) ''specversion'' = Some (JString (sd_SpecVersion ev))"
  "map_of (event_values ev) ''id'' = Some (JString (sd_ID ev))"
  "map_of (event_values ev) ''source'' = Some (JString (sd_Source ev))"
  "map_of (event_values ev) ''type'' = Some (JString (sd_Type ev))"
  "map_of (event_values ev) ''subject'' = map_option JString (sd_Subject ev)"
  "map_of (event_values ev) ''datacontenttype'' =
     (if sd_DataContentType ev = [] then None else Some (JString (sd_DataContentType ev)))"
  "map_of (event_values ev) ''time'' = (if sd_Time ev = [] then None else Some (JString (sd_Time ev)))"
  by (simp_all add: event_values_def split: option.split)

lemma object_map_distinct: "distinct (map fst ms) \<Longrightarrow> object_map ms = map_of ms"
  by (simp add: object_map_def map_of_inject_set rev_map [symmetric])

lemma event_values_object:
  assumes "set (map fst data) \<subseteq> {''data''}" and "name \<noteq> ''data''"
  shows "object_map (event_values ev @ data) name = map_of (event_values ev) name"
proof -
  have "object_map (event_values ev) = map_of (event_values ev)"
    by (rule object_map_distinct) (simp add: event_values_def split: option.split)
  moreover have "map_of (rev data) name = None" using assms by (auto simp: map_of_eq_None_iff)
  ultimately show ?thesis by (simp add: object_map_def map_add_def)
qed

lemma read_envelope:
  assumes "encode parseTime event = Inr payload"
    and "\<forall>name \<in> envelope_names. obj name = map_of (event_values (with_defaults event)) name"
  shows "read_metadata parseTime obj = Inr (event_metadata parseTime event)"
proof -
  note e = encode_Inr [OF assms(1)]
  have obj: "obj name = map_of (event_values (with_defaults event)) name" if "name \<in> envelope_names" for name
    using assms(2) that by blast
  let ?ev = "with_defaults event"
  have ev: "sd_ID ?ev = sd_ID event" "sd_Source ?ev = sd_Source event" "sd_Type ?ev = sd_Type event"
      "sd_Subject ?ev = sd_Subject event" "sd_Time ?ev = sd_Time event"
    by (simp_all add: with_defaults_def)
  have look: "obj ''specversion'' = Some (JString ''1.0'')" "obj ''id'' = Some (JString (sd_ID event))"
      "obj ''source'' = Some (JString (sd_Source event))" "obj ''type'' = Some (JString (sd_Type event))"
      "obj ''subject'' = map_option JString (sd_Subject event)"
      "obj ''datacontenttype'' = (if sd_DataContentType ?ev = [] then None else Some (JString (sd_DataContentType ?ev)))"
      "obj ''time'' = (if sd_Time event = [] then None else Some (JString (sd_Time event)))"
    by (simp_all add: obj envelope_names_def event_values_lookup e(7) ev)
  have req: "requiredString obj ''specversion'' = Inr ''1.0''" "requiredString obj ''id'' = Inr (sd_ID event)"
      "requiredString obj ''source'' = Inr (sd_Source event)" "requiredString obj ''type'' = Inr (sd_Type event)"
    using e(1-3) by (simp_all add: requiredString_Inr look)
  have "optionalString obj ''subject'' True = Inr (case sd_Subject event of None \<Rightarrow> [] | Some s \<Rightarrow> s)"
      "optionalString obj ''datacontenttype'' False = Inr (sd_DataContentType ?ev)"
    by (auto simp: optionalString_Inr look split: option.splits)
  moreover have "optionalTime parseTime obj = Inr (if sd_Time event = [] then None else parseTime (sd_Time event))"
    using time_valid [OF e(10)] by (auto simp: optionalTime_Inr look)
  ultimately show ?thesis by (simp add: read_metadata_def req event_metadata_def)
qed


text \<open>
  What PostgreSQL documents of \<open>jsonb\<close>: casting a JSON object keeps its keys and its strings, of
  duplicate keys the last value, and the text of a \<open>jsonb\<close> object is a JSON object again.
\<close>

definition jsonb_stores :: "(bytes \<Rightarrow> json option) \<Rightarrow> (json \<Rightarrow> bytes) \<Rightarrow> bytes \<Rightarrow> (string \<times> json) list \<Rightarrow> bool" where
  "jsonb_stores jsonb_in jsonb_text payload js \<longleftrightarrow>
     jsonb_in payload = Some (JObject js) \<and>
     (\<forall>ms rest. parse_json payload = Some (JObject ms, rest) \<longrightarrow> same_strings (object_map ms) (map_of js)) \<and>
     (\<exists>ms rest. parse_json (jsonb_text (JObject js)) = Some (JObject ms, rest) \<and> skip_ws rest = [] \<and>
        same_strings (map_of js) (object_map ms))"

text \<open>The relay is inside the transaction and has room for one more event of the size \<open>emit\<close> allows.\<close>

definition has_room :: "StateMachine \<Rightarrow> LogicalDecodingMessage \<Rightarrow> bool" where
  "has_room s msg \<longleftrightarrow> sm_prefix s = ''writerelay.v1'' \<and> sm_inTransaction s \<and> int maxEmitBytes \<le> sm_maxEventBytes s \<and>
     int (length (sm_events s)) < sm_maxEvents s \<and> int (length (ld_Content msg)) \<le> sm_maxBytes s - sm_bufferedBytes s"

definition emitted_message :: "(json \<Rightarrow> bytes) \<Rightarrow> lsn \<Rightarrow> (string \<times> json) list \<Rightarrow> LogicalDecodingMessage" where
  "emitted_message jsonb_text lsn js =
     \<lparr>ld_LSN = lsn, ld_Transactional = True, ld_Prefix = ''writerelay.v1'', ld_Content = jsonb_text (JObject js)\<rparr>"

lemma same_strings_lookup:
  assumes "same_strings a b" and "a name = map_of (event_values ev) name" and "name \<in> envelope_names"
  shows "b name = map_of (event_values ev) name"
proof -
  have "map_of (event_values ev) name = None \<or> (\<exists>s. map_of (event_values ev) name = Some (JString s))"
    using assms(3)
    by (cases "sd_Time ev = []"; cases "sd_DataContentType ev = []") (auto simp: envelope_names_def event_values_lookup)
  with assms(1,2) show ?thesis unfolding same_strings_def by metis
qed

text \<open>What the installed function and the relay make of an encoded event.\<close>

lemma emit_message:
  assumes "encode parseTime event = Inr payload" and "nests_below_limit event"
    and "jsonb_stores jsonb_in jsonb_text payload js" and "length (jsonb_text (JObject js)) \<le> maxEmitBytes"
    and "has_room s (emitted_message jsonb_text lsn js)"
  shows "emit jsonb_text lsn (jsonb_in payload) = Inr (Some (emitted_message jsonb_text lsn js)) \<and>
    consumeLogicalMessage x parseTime (emitted_message jsonb_text lsn js) s =
      Inr (s\<lparr>sm_events := sm_events s @ [buffered_event x (event_metadata parseTime event) (emitted_message jsonb_text lsn js)],
             sm_bufferedBytes := sm_bufferedBytes s + int (length (jsonb_text (JObject js)))\<rparr>)"
proof -
  note e = encode_Inr [OF assms(1)]
  let ?ev = "with_defaults event"
  obtain data where p: "parse_json payload = Some (JObject (event_values ?ev @ data), [])"
    and data: "set (map fst data) \<subseteq> {''data''}"
    using envelope_read [OF assms(1,2)] by blast
  obtain ms rest where stored: "jsonb_in payload = Some (JObject js)"
    and kept: "same_strings (object_map (event_values ?ev @ data)) (map_of js)"
    and printed: "parse_json (jsonb_text (JObject js)) = Some (JObject ms, rest)" "skip_ws rest = []" "same_strings (map_of js) (object_map ms)"
    using assms(3) p by (auto simp: jsonb_stores_def)
  have js: "map_of js name = map_of (event_values ?ev) name" if "name \<in> envelope_names" for name
  proof (rule same_strings_lookup [OF kept _ that])
    have "name \<noteq> ''data''" using that by (auto simp: envelope_names_def)
    then show "object_map (event_values ?ev @ data) name = map_of (event_values ?ev) name"
      by (rule event_values_object [OF data])
  qed
  have obj: "\<forall>name \<in> envelope_names. object_map ms name = map_of (event_values ?ev) name"
    using same_strings_lookup [OF printed(3)] js by blast
  have "decode_root (jsonb_text (JObject js)) = Inr (object_map ms)" using printed(1,2) by (simp add: decode_root_Inr)
  with read_envelope [OF assms(1) obj] assms(4,5)
  have "Validate parseTime (jsonb_text (JObject js)) (sm_maxEventBytes s) = Inr (event_metadata parseTime event)"
    by (simp add: Validate_def has_room_def maxEmitBytes_def)
  then have "consumeLogicalMessage x parseTime (emitted_message jsonb_text lsn js) s =
      Inr (s\<lparr>sm_events := sm_events s @ [buffered_event x (event_metadata parseTime event) (emitted_message jsonb_text lsn js)],
             sm_bufferedBytes := sm_bufferedBytes s + int (length (jsonb_text (JObject js)))\<rparr>)"
    using assms(5) by (simp add: consumeLogicalMessage_def has_room_def emitted_message_def)
  moreover have "emit jsonb_text lsn (Some (JObject js)) = Inr (Some (emitted_message jsonb_text lsn js))"
    using e(1-3,7) js assms(4)
    by (simp add: emit_def is_object_def jsonb_field_def required_text_def envelope_names_def event_values_lookup
        emitted_message_def with_defaults_def)
  ultimately show ?thesis by (simp add: stored)
qed


text \<open>The installed function checks the identity and the size, not \<open>time\<close>.\<close>

lemma emit_Inr:
  assumes "map_of js ''specversion'' = Some (JString ''1.0'')"
    and "\<forall>name \<in> {''id'', ''source'', ''type''}. \<exists>v. v \<noteq> [] \<and> map_of js name = Some (JString v)"
    and "length (jsonb_text (JObject js)) \<le> maxEmitBytes"
  shows "emit jsonb_text lsn (Some (JObject js)) = Inr (Some (emitted_message jsonb_text lsn js))"
  using assms by (auto simp: emit_def is_object_def jsonb_field_def required_text_def emitted_message_def)

text \<open>(C35) The check in the database is weaker than the relay's: an event with a \<open>time\<close> that is not a
  timestamp, written by a caller other than the SDK, is emitted, and the relay then stops with
  the error for invalid protected events, whatever it had buffered.\<close>

theorem emit_unchecked_time:
  assumes "map_of js ''specversion'' = Some (JString ''1.0'')"
    and "\<forall>name \<in> {''id'', ''source'', ''type''}. \<exists>v. v \<noteq> [] \<and> map_of js name = Some (JString v)"
    and "map_of js ''time'' = Some (JString t)" and "parseTime t = None"
    and "length (jsonb_text (JObject js)) \<le> maxEmitBytes"
    and "parse_json (jsonb_text (JObject js)) = Some (JObject ms, rest)" "same_strings (map_of js) (object_map ms)"
    and "has_room s (emitted_message jsonb_text lsn js)"
  shows "emit jsonb_text lsn (Some (JObject js)) = Inr (Some (emitted_message jsonb_text lsn js)) \<and>
    consumeLogicalMessage x parseTime (emitted_message jsonb_text lsn js) s = Inl (ErrProtectedEvent ''invalid envelope'')"
proof -
  have "object_map ms ''time'' = Some (JString t)" using assms(3,7) unfolding same_strings_def by blast
  then have "\<not> envelope_ok parseTime (object_map ms)" using assms(4) by (auto simp: envelope_ok_def)
  then have "\<nexists>m. read_metadata parseTime (object_map ms) = Inr m" by (simp add: read_metadata_ok)
  then have "\<nexists>m. Validate parseTime (jsonb_text (JObject js)) (sm_maxEventBytes s) = Inr m"
    using assms(6) by (auto simp: Validate_def decode_root_Inr split: sum.splits if_splits)
  then obtain err where "Validate parseTime (jsonb_text (JObject js)) (sm_maxEventBytes s) = Inl err"
    by (cases "Validate parseTime (jsonb_text (JObject js)) (sm_maxEventBytes s)") auto
  then have "consumeLogicalMessage x parseTime (emitted_message jsonb_text lsn js) s = Inl (ErrProtectedEvent ''invalid envelope'')"
    using assms(8) by (simp add: consumeLogicalMessage_def has_room_def emitted_message_def)
  with emit_Inr [of js jsonb_text, OF assms(1,2,5)] show ?thesis by simp
qed

section \<open>No NUL reaches the database\<close>

declare escapes_ok.simps(2) [simp del]

lemma escapes_plain [simp]: "c \<noteq> CHR 0x5C \<Longrightarrow> escapes_ok (c # s) = escapes_ok s"
  by (simp add: escapes_ok.simps(2))

lemma escapes_append: "\<forall>c \<in> set w. c \<noteq> CHR 0x5C \<Longrightarrow> escapes_ok (w @ s) = escapes_ok s"
  by (induction w) auto

lemma escapes_skip: "escapes_ok s \<Longrightarrow> escapes_ok (skip_ws s)"
  by (induction s) (auto simp: skip_ws_def is_space_def)

lemma char_of_not_nul: "0 < m \<Longrightarrow> m < 256 \<Longrightarrow> char_of m \<noteq> CHR 0x00" for m :: nat
proof
  assume m: "0 < m" "m < 256" and "char_of m = CHR 0x00"
  then have "code (char_of m) = code (CHR 0x00)" by simp
  with m show False by simp
qed

lemma EncodeRune_no_nul: "n \<noteq> 0 \<Longrightarrow> CHR 0x00 \<notin> set (EncodeRune n)"
proof -
  assume "n \<noteq> 0"
  define r where "r = (if n > 1114111 \<or> 55296 \<le> n \<and> n \<le> 57343 then RuneError else n)"
  have r: "0 < r" "r \<le> 1114111" using \<open>n \<noteq> 0\<close> by (auto simp: r_def RuneError_def)
  show ?thesis unfolding EncodeRune_def Let_def r_def [symmetric]
    using r by (auto dest!: sym [of "CHR 0x00"] simp: char_of_not_nul)
qed

text \<open>The bytes of a rune that is not ASCII.\<close>

lemma rune_bytes:
  assumes "128 \<le> code c"
  shows "\<forall>x \<in> set (take (snd (DecodeRune (c # cs))) (c # cs)). 128 \<le> code x"
proof (cases "DecodeRune (c # cs) = (RuneError, 1)")
  case True
  then show ?thesis using assms by simp
next
  case False
  from assms False show ?thesis
  proof (cases rule: DecodeRune_cases)
    case (two a as)
    then show ?thesis using assms by simp
  next
    case (three a b bs)
    then show ?thesis using assms second_bounds(1) [of "code c"] by simp
  next
    case (four a b e es)
    then show ?thesis using assms second_bounds(1) [of "code c"] by simp
  qed
qed

lemma rune_no_nul:
  assumes "128 \<le> code c"
  shows "CHR 0x00 \<notin> set (EncodeRune (fst (DecodeRune (c # cs))))"
proof (cases "DecodeRune (c # cs) = (RuneError, 1)")
  case True
  then show ?thesis by (simp add: EncodeRune_no_nul RuneError_def)
next
  case False
  then show ?thesis using Encode_Decode [OF assms False] rune_bytes [OF assms, of cs] by auto
qed

lemma hex4_code: "hex4 s = Some (u, r) \<Longrightarrow> escape_code s = u \<and> r = drop 4 s"
  by (auto simp: hex4_def escape_code_def split: list.splits option.splits)

lemma escape_no_nul:
  assumes "parse_escape s = Some (out, rest)" and "escapes_ok (CHR 0x5C # s)"
  shows "CHR 0x00 \<notin> set out \<and> escapes_ok rest"
proof -
  obtain e r where s: "s = e # r" using assms(1) by (cases s) (auto simp: parse_escape_def)
  show ?thesis
  proof (cases "e = CHR ''u''")
    case False
    then have "escapes_ok r" using assms(2) by (simp add: s escapes_ok.simps(2))
    with False assms(1) show ?thesis by (auto simp: s parse_escape_def split: if_splits)
  next
    case True
    obtain u r' where u: "hex4 r = Some (u, r')" "out = EncodeRune (fst (escape_rune u r'))" "rest = snd (escape_rune u r')"
      using assms(1) True by (auto simp: s parse_escape_def split: option.splits prod.splits)
    have r': "escape_code r = u" "r' = drop 4 r" using hex4_code [OF u(1)] by auto
    note ok = assms(2) [unfolded s True escapes_ok.simps(2) Let_def]
    show ?thesis
    proof (cases "55296 \<le> u \<and> u \<le> 56319")
      case False
      then have "u \<noteq> 0" "\<not> (55296 \<le> u \<and> u \<le> 57343)" "escapes_ok r'" using ok r' by (auto split: if_splits)
      moreover from this have "escape_rune u r' = (u, r')" by (auto simp: escape_rune_def)
      ultimately show ?thesis using u(2,3) by (simp add: EncodeRune_no_nul)
    next
      case high: True
      then have low: "6 \<le> length r'" "take 2 r' = [CHR 0x5C, CHR ''u'']" "56320 \<le> escape_code (drop 2 r')"
          "escape_code (drop 2 r') \<le> 57343" "escapes_ok (drop 6 r')"
        using ok r' by (auto split: if_splits)
      have "r' = take 2 r' @ drop 2 r'" by simp
      then obtain q where q: "r' = CHR 0x5C # CHR ''u'' # q" using low(2) by (metis append_Cons append_Nil)
      obtain v t where "hex4 (take 4 q) = Some (v, t)" using low(3) by (auto simp: q escape_code_def split: option.splits)
      then have "hex4 q = Some (escape_code q, drop 4 q)"
        by (auto simp: hex4_def escape_code_def split: list.splits option.splits)
      then have "escape_rune u r' = ((u - 55296) * 1024 + (escape_code q - 56320) + 65536, drop 6 r')"
        using low(3,4) high by (auto simp: q escape_rune_def)
      then show ?thesis using u(2,3) low(5) by (simp add: EncodeRune_no_nul)
    qed
  qed
qed

lemma chars_no_nul:
  "parse_chars s = Some (b, r) \<Longrightarrow> escapes_ok s \<Longrightarrow> CHR 0x00 \<notin> set b \<and> escapes_ok r"
proof (induction s arbitrary: b r rule: length_induct)
  case (1 s)
  obtain c cs where s: "s = c # cs" using 1(2) by (cases s) auto
  consider "c = CHR 0x22" | "c = CHR 0x5C" | "c \<noteq> CHR 0x22" "c \<noteq> CHR 0x5C" by blast
  then show ?case
  proof cases
    case 1
    with \<open>parse_chars s = Some (b, r)\<close> \<open>escapes_ok s\<close> show ?thesis by (simp add: s parse_chars_Cons)
  next
    case 2
    with 1(2) obtain out rest b' where p: "parse_escape cs = Some (out, rest)" "parse_chars rest = Some (b', r)" "b = out @ b'"
      by (auto simp: s parse_chars_Cons split: option.splits)
    have "CHR 0x00 \<notin> set out \<and> escapes_ok rest" using escape_no_nul [OF p(1)] 1(3) 2 by (simp add: s)
    moreover have "length rest < length s" using parse_escape_shorter [OF p(1)] by (simp add: s)
    ultimately show ?thesis using 1(1) p(2,3) by auto
  next
    case 3
    let ?w = "snd (DecodeRune s)"
    obtain b' where c: "\<not> code c < 32" and p: "parse_chars (drop ?w s) = Some (b', r)" "b = EncodeRune (fst (DecodeRune s)) @ b'"
      using 1(2) 3 by (auto simp: s parse_chars_Cons [of c] split: option.splits if_splits)
    have rune: "CHR 0x00 \<notin> set (EncodeRune (fst (DecodeRune s))) \<and> (\<forall>x \<in> set (take ?w s). x \<noteq> CHR 0x5C)"
    proof (cases "code c < 128")
      case True
      have "c \<noteq> CHR 0x00" using c by auto
      then show ?thesis using True 3 by (auto simp: s DecodeRune_ascii EncodeRune_ascii)
    next
      case False
      then have big: "128 \<le> code c" by simp
      from rune_bytes [OF big, of cs] rune_no_nul [OF big, of cs] show ?thesis unfolding s by auto
    qed
    then have "escapes_ok (drop ?w s)"
      using 1(3) escapes_append [of "take ?w s" "drop ?w s"] by (metis append_take_drop_id)
    moreover have "length (drop ?w s) < length s" using DecodeRune_width [of s] s by simp
    ultimately have "CHR 0x00 \<notin> set b' \<and> escapes_ok r" using 1(1) p(1) by blast
    then show ?thesis using rune unfolding p(2) by simp
  qed
qed

fun no_nul :: "json \<Rightarrow> bool" where
  "no_nul (JString b) = (CHR 0x00 \<notin> set b)"
| "no_nul (JArray vs) = (\<forall>v \<in> set vs. no_nul v)"
| "no_nul (JObject ms) = (\<forall>m \<in> set ms. CHR 0x00 \<notin> set (fst m) \<and> no_nul (snd m))"
| "no_nul _ = True"

lemma scalar_no_nul:
  assumes "parse_scalar s = Some (v, r)" and "escapes_ok s"
  shows "no_nul v \<and> escapes_ok r"
proof -
  consider (str) b t where "s = CHR 0x22 # t" "parse_chars t = Some (b, r)" "v = JString b"
    | (lit) w where "starts_with w s" "w \<in> {''null'', ''true'', ''false''}" "no_nul v" "r = drop (length w) s"
    | (nr) b where "parse_number s = Some (b, r)" "v = JNumber b"
  proof -
    show ?thesis
    proof (cases s)
      case (Cons c cs)
      with assms(1) that(1) [of cs] that(2) [of "''null''"] that(2) [of "''true''"] that(2) [of "''false''"] that(3)
      show thesis by (auto simp: parse_scalar_def eval_nat_numeral split: if_splits)
    qed (use assms(1) in \<open>simp add: parse_scalar_def\<close>)
  qed
  then show ?thesis
  proof cases
    case str
    then show ?thesis using chars_no_nul assms(2) by auto
  next
    case lit
    obtain t where t: "s = w @ t" using lit(1) starts_with_iff by blast
    have "\<forall>c \<in> set w. c \<noteq> CHR 0x5C" using lit(2) by auto
    then show ?thesis using escapes_append [of w t] assms(2) t lit(3,4) by simp
  next
    case nr
    note l = parse_number_local(1,2) [OF nr(1)]
    have "\<forall>c \<in> set b. c \<noteq> CHR 0x5C" using l(2) by (auto simp: number_char_def is_digit_def)
    then show ?thesis using escapes_append [of b r] assms(2) l(1) nr(2) by simp
  qed
qed

lemma escapes_tl_skip: "escapes_ok s \<Longrightarrow> starts_with [x] (skip_ws s) \<Longrightarrow> x \<noteq> CHR 0x5C \<Longrightarrow> escapes_ok (tl (skip_ws s))"
  using escapes_skip [of s] by (cases "skip_ws s") (auto simp: starts_with_def)

lemma escapes_skip_Cons: "escapes_ok s \<Longrightarrow> skip_ws s = c # cs \<Longrightarrow> c \<noteq> CHR 0x5C \<Longrightarrow> escapes_ok cs"
  using escapes_skip [of s] by simp

lemma values_no_nul:
  "parse_value n d s = Some (v, r) \<Longrightarrow> escapes_ok s \<Longrightarrow> no_nul v \<and> escapes_ok r"
  "parse_elements n d s = Some (vs, r) \<Longrightarrow> escapes_ok s \<Longrightarrow> (\<forall>v \<in> set vs. no_nul v) \<and> escapes_ok r"
  "parse_members n d s = Some (ms, r) \<Longrightarrow> escapes_ok s \<Longrightarrow>
     (\<forall>m \<in> set ms. CHR 0x00 \<notin> set (fst m) \<and> no_nul (snd m)) \<and> escapes_ok r"
proof (induction n d s and n d s and n d s arbitrary: v r and vs r and ms r
    rule: parse_value_parse_elements_parse_members.induct)
  case (2 n d s)
  obtain c cs where s: "skip_ws s = c # cs" using 2(3) by (cases "skip_ws s") auto
  have sk: "escapes_ok (c # cs)" using escapes_skip [OF 2(4)] s by simp
  consider (obj) "c = CHR ''{''" | (arr) "c = CHR ''[''" | (sc) "c \<noteq> CHR ''{''" "c \<noteq> CHR ''[''" by blast
  then show ?case
  proof cases
    case obj
    then have cs: "escapes_ok cs" "d \<noteq> 0" using sk 2(3) s by (auto split: if_splits)
    then show ?thesis using 2(1) [OF s obj cs(2)] 2(3) s obj escapes_tl_skip [of cs "CHR ''}''"] by (auto split: if_splits)
  next
    case arr
    then have cs: "escapes_ok cs" "d \<noteq> 0" "c \<noteq> CHR ''{''" using sk 2(3) s by (auto split: if_splits)
    then show ?thesis using 2(2) [OF s cs(3) arr cs(2)] 2(3) s arr escapes_tl_skip [of cs "CHR '']''"] by (auto split: if_splits)
  next
    case sc
    then show ?thesis using scalar_no_nul [of "c # cs" v r] 2(3) s sk by simp
  qed
next
  case (4 n d s)
  obtain w x c cs where p: "parse_value n d s = Some (w, x)" "skip_ws x = c # cs" "c = CHR '','' \<or> c = CHR '']''"
    using 4(3) by (auto split: option.splits list.splits if_splits)
  have v: "no_nul w \<and> escapes_ok x" using 4(1) [OF p(1) 4(4)] .
  then have cs: "escapes_ok cs" using escapes_skip_Cons [OF _ p(2)] p(3) by auto
  show ?case
  proof (cases "c = CHR '',''")
    case True
    then obtain us where us: "parse_elements n d cs = Some (us, r)" "vs = w # us" using 4(3) p by auto
    from 4(2) [OF p(1) refl p(2) True us(1) cs] us(2) v show ?thesis by simp
  next
    case False
    then show ?thesis using 4(3) p v cs by auto
  qed
next
  case (6 n d s)
  obtain q k u w x c cs where q: "skip_ws s = CHR 0x22 # q" "parse_chars q = Some (k, u)"
    and u: "starts_with '':'' (skip_ws u)" "parse_value n d (tl (skip_ws u)) = Some (w, x)"
    and x: "skip_ws x = c # cs" and c: "c = CHR '','' \<or> c = CHR ''}''"
    using 6(3) by (auto split: option.splits list.splits if_splits)
  have key: "CHR 0x00 \<notin> set k \<and> escapes_ok u"
    using chars_no_nul [OF q(2)] escapes_skip_Cons [OF 6(4) q(1)] by simp
  have "escapes_ok (tl (skip_ws u))" using key u(1) escapes_tl_skip by auto
  then have v: "no_nul w \<and> escapes_ok x" using 6(1) [OF q(1) _ q(2) refl _ u(2)] u(1) by simp
  then have cs: "escapes_ok cs" using escapes_skip_Cons [OF _ x] c by auto
  show ?case
  proof (cases "c = CHR '',''")
    case True
    then obtain us where us: "parse_members n d cs = Some (us, r)" "ms = (k, w) # us" using 6(3) q u x by auto
    have "(\<forall>m \<in> set us. CHR 0x00 \<notin> set (fst m) \<and> no_nul (snd m)) \<and> escapes_ok r"
      by (rule 6(2) [OF q(1) _ q(2) refl _ u(2) refl x True us(1) cs]) (use u(1) in simp_all)
    then show ?thesis using us(2) v key by simp
  next
    case False
    then show ?thesis using 6(3) q u x v c key cs by auto
  qed
qed simp_all

text \<open>The data the SDK lets through holds no string and no key with a NUL character, which
  \<open>jsonb\<close> could not store; this holds for escapes as well as for the bytes themselves.\<close>

theorem validJSON_no_nul:
  assumes "validJSON data" and "parse_json data = Some (v, rest)"
  shows "no_nul v"
  using values_no_nul(1) [of "Suc (2 * length data)" maxNestingDepth data v rest] assms
  unfolding validJSON_def parse_json_def by blast

section \<open>Concrete events\<close>

definition quoted :: "string \<Rightarrow> string" where
  "quoted = map (\<lambda>c. if c = CHR 0x27 then CHR 0x22 else c)"

text \<open>A parser of timestamps that looks at the shape alone stands for the parameter.\<close>

definition shape_parser :: "string \<Rightarrow> time option" where
  "shape_parser t = (if timestamp_MatchString t then Some 0 else None)"

definition order_event :: Event where
  "order_event = \<lparr>sd_ID = ''evt-1'', sd_Source = ''urn:billing'', sd_Type = ''order.paid'', sd_SpecVersion = [],
     sd_Subject = Some ''order <7>'', sd_Time = ''2024-01-02T03:04:05.25+01:00'', sd_DataContentType = [],
     sd_Data = Some (quoted (''{ '' @ [CHR 0x27] @ ''n'' @ [CHR 0x27] @ '' : [1, -2.5e3, null, '' @ [CHR 0x27] @ ''<a>'' @ [CHR 0x27] @ ''] }''))\<rparr>"

definition order_payload :: string where
  "order_payload = (case encode shape_parser order_event of Inl _ \<Rightarrow> [] | Inr p \<Rightarrow> p)"

lemma order_encoded: "encode shape_parser order_event = Inr order_payload" "length order_payload \<le> 262144"
  "nests_below_limit order_event"
  by code_simp+


theorem validJSON_no_nul_witness:
  "\<exists>v rest. parse_json (the (sd_Data order_event)) = Some (v, rest) \<and> no_nul v"
proof -
  have v: "validJSON (the (sd_Data order_event))" by code_simp
  then obtain v rest where "parse_json (the (sd_Data order_event)) = Some (v, rest)"
    by (auto simp: validJSON_def json_Valid_def split: option.splits)
  with validJSON_no_nul [OF v] show ?thesis by blast
qed

text \<open>A \<open>jsonb\<close> of strings only, as a concrete instance of the parameters.\<close>

definition flat_in :: "bytes \<Rightarrow> json option" where
  "flat_in s = map_option fst (parse_json s)"

definition flat_text :: "json \<Rightarrow> bytes" where
  "flat_text j = (case j of
     JObject ms \<Rightarrow> marshal_object (map (\<lambda>(k, v). (k, case v of JString s \<Rightarrow> marshal_string s | _ \<Rightarrow> ''null'')) ms)
   | _ \<Rightarrow> ''null'')"

definition plain_event :: Event where
  "plain_event = order_event\<lparr>sd_Data := None\<rparr>"

definition plain_payload :: string where
  "plain_payload = (case encode shape_parser plain_event of Inl _ \<Rightarrow> [] | Inr p \<Rightarrow> p)"

definition plain_fields :: "(string \<times> json) list" where
  "plain_fields = event_values (with_defaults plain_event)"

definition waiting_machine :: StateMachine where
  "waiting_machine = (NewStateMachine ''writerelay.v1'' 262144 10000 8388608)\<lparr>sm_inTransaction := True, sm_transactionID := 77\<rparr>"

lemma same_strings_rev: "distinct (map fst ms) \<Longrightarrow> same_strings (object_map ms) (map_of ms) \<and> same_strings (map_of ms) (object_map ms)"
  by (simp add: same_strings_def object_map_distinct)

lemma plain_encoded:
  "encode shape_parser plain_event = Inr plain_payload" "nests_below_limit plain_event"
  "parse_json plain_payload = Some (JObject plain_fields, [])"
  "parse_json (flat_text (JObject plain_fields)) = Some (JObject plain_fields, [])"
  "length (flat_text (JObject plain_fields)) \<le> 1000" "distinct (map fst plain_fields)"
  by code_simp+


definition undated_fields :: "(string \<times> json) list" where
  "undated_fields = event_values (with_defaults (plain_event\<lparr>sd_Time := ''yesterday''\<rparr>))"

lemma undated_text:
  "parse_json (flat_text (JObject undated_fields)) = Some (JObject undated_fields, [])"
  "length (flat_text (JObject undated_fields)) \<le> 1000" "distinct (map fst undated_fields)" "shape_parser ''yesterday'' = None"
  by code_simp+

theorem emit_unchecked_time_witness:
  "emit flat_text 90 (Some (JObject undated_fields)) = Inr (Some (emitted_message flat_text 90 undated_fields)) \<and>
   consumeLogicalMessage example_externals shape_parser (emitted_message flat_text 90 undated_fields) waiting_machine =
     Inl (ErrProtectedEvent ''invalid envelope'')"
proof (rule emit_unchecked_time)
  show "map_of undated_fields ''specversion'' = Some (JString ''1.0'')" by code_simp
  show "map_of undated_fields ''time'' = Some (JString ''yesterday'')" by code_simp
  have "map_of undated_fields ''id'' = Some (JString ''evt-1'')" "map_of undated_fields ''source'' = Some (JString ''urn:billing'')"
    "map_of undated_fields ''type'' = Some (JString ''order.paid'')" by code_simp+
  then show "\<forall>name \<in> {''id'', ''source'', ''type''}. \<exists>v. v \<noteq> [] \<and> map_of undated_fields name = Some (JString v)" by simp
  show "shape_parser ''yesterday'' = None" by (rule undated_text)
  show "length (flat_text (JObject undated_fields)) \<le> maxEmitBytes" using undated_text(2) by (simp add: maxEmitBytes_def)
  show "parse_json (flat_text (JObject undated_fields)) = Some (JObject undated_fields, [])" by (rule undated_text)
  show "same_strings (map_of undated_fields) (object_map undated_fields)" using same_strings_rev [OF undated_text(3)] by simp
  show "has_room waiting_machine (emitted_message flat_text 90 undated_fields)"
    using undated_text(2) by (simp add: has_room_def waiting_machine_def NewStateMachine_def emitted_message_def maxEmitBytes_def)
qed

end
