(* ===== verification/Example_Apps.thy ===== *)
theory Example_Apps
  imports SDK_Inbox SDK_Emit Go_Flag
begin

text \<open>
  The example programs. The receiver, \<open>examples/go-receiver/main.go\<close>, stores an order for each webhook
  delivery inside an inbox transaction; the producer, \<open>examples/go-producer/main.go\<close>, writes an order
  and its event in one transaction. Sockets, signals and the connection pool are left out.
\<close>

section \<open>The receiver\<close>

record orderEvent =
  oe_SpecVersion :: string
  oe_ID :: string
  oe_Source :: string
  oe_Type :: string
  oe_Subject :: string

definition no_event :: orderEvent where
  "no_event = \<lparr>oe_SpecVersion = [], oe_ID = [], oe_Source = [], oe_Type = [], oe_Subject = []\<rparr>"

text \<open>
  \<open>encoding/json\<close> matches the name of a field without regard to case. Besides the ASCII letters, two
  characters fold to one: the long s and the Kelvin sign.
\<close>

function foldName :: "bytes \<Rightarrow> bytes" where
  "foldName s = (case s of
     [] \<Rightarrow> []
   | c # cs \<Rightarrow>
       if code c < 128 then (if 97 \<le> code c \<and> code c \<le> 122 then char_of (code c - 32) else c) # foldName cs
       else
         (let (r, w) = DecodeRune s in
          (if r = 0x17F then ''S'' else if r = 0x212A then ''K'' else take w s) @ foldName (drop w s)))"
  by pat_completeness auto

termination
proof (relation "measure length", goal_cases)
  case (3 s c cs p r w)
  then show ?case using DecodeRune_width [of s] by (metis One_nat_def Suc_le_eq diff_less in_measure length_drop length_greater_0_conv list.discI snd_conv)
qed auto

declare foldName.simps [simp del]

text \<open>Storing one member; the flag records whether a value had the wrong type.\<close>

definition set_field :: "bytes \<times> json \<Rightarrow> orderEvent \<times> bool \<Rightarrow> orderEvent \<times> bool" where
  "set_field m st =
     (case st of (ev, bad) \<Rightarrow>
        (let name = foldName (fst m) in
         if name \<notin> {''SPECVERSION'', ''ID'', ''SOURCE'', ''TYPE'', ''SUBJECT''} then (ev, bad)
         else (case snd m of
                 JNull \<Rightarrow> (ev, bad)
               | JString v \<Rightarrow>
                   (if name = ''SPECVERSION'' then ev\<lparr>oe_SpecVersion := v\<rparr>
                    else if name = ''ID'' then ev\<lparr>oe_ID := v\<rparr>
                    else if name = ''SOURCE'' then ev\<lparr>oe_Source := v\<rparr>
                    else if name = ''TYPE'' then ev\<lparr>oe_Type := v\<rparr>
                    else ev\<lparr>oe_Subject := v\<rparr>, bad)
               | _ \<Rightarrow> (ev, True))))"

definition Unmarshal_order :: "bytes \<Rightarrow> orderEvent option" where
  "Unmarshal_order raw =
     (case parse_json raw of
        None \<Rightarrow> None
      | Some (v, rest) \<Rightarrow>
          if skip_ws rest \<noteq> [] then None
          else (case v of
                  JNull \<Rightarrow> Some no_event
                | JObject ms \<Rightarrow> (case fold set_field ms (no_event, False) of (ev, bad) \<Rightarrow> if bad then None else Some ev)
                | _ \<Rightarrow> None))"

text \<open>The event of a body, when the receiver takes it.\<close>

definition accepted_event :: "bytes \<Rightarrow> orderEvent option" where
  "accepted_event raw =
     (case Unmarshal_order raw of
        None \<Rightarrow> None
      | Some ev \<Rightarrow>
          if oe_SpecVersion ev \<noteq> ''1.0'' \<or> oe_ID ev = [] \<or> oe_Source ev = [] \<or> oe_Type ev \<noteq> ''order.paid'' \<or> oe_Subject ev = []
          then None else Some ev)"

text \<open>The headers are those the handler reads; an absent header is the empty string.\<close>

record http_post =
  hp_Method :: string
  hp_Path :: string
  hp_Authorization :: string
  hp_Keys :: "string list"
  hp_Failure :: string
  hp_Body :: bytes
  hp_BodyError :: bool

text \<open>A status with its text, the result that is encoded with status 200, or a connection closed without one.\<close>

datatype reply = Reply nat string | ReplyStatus InboxResult | Dropped | Aborted

text \<open>The table \<open>received_orders\<close>, keyed by source and event.\<close>

type_synonym orders = "string \<times> string \<Rightarrow> string option"

definition insert_order :: "bool \<Rightarrow> string \<Rightarrow> orderEvent \<Rightarrow> orders \<Rightarrow> orders handled" where
  "insert_order exec_fails mode ev t =
     (if exec_fails \<or> t (oe_Source ev, oe_ID ev) \<noteq> None then HandledErr ''insert''
      else if mode = ''rollback'' then HandledErr ''example rollback''
      else HandledOk (t((oe_Source ev, oe_ID ev) \<mapsto> oe_Subject ev)))"

definition inbox_reply :: "inbox_error \<Rightarrow> reply" where
  "inbox_reply err = (case err of
     ErrInvalidDelivery _ \<Rightarrow> Reply 400 ''invalid delivery key''
   | ErrInboxConflict \<Rightarrow> Reply 409 ''same key with different content''
   | _ \<Rightarrow> Reply 503 ''processing failed; retry the same key and body'')"

definition ServeHTTP ::
    "externals \<Rightarrow> InboxTable \<Rightarrow> inbox_env \<Rightarrow> bool \<Rightarrow> bool \<Rightarrow> http_post \<Rightarrow> orders inbox_db \<Rightarrow> orders inbox_db \<times> reply" where
  "ServeHTTP x table e exec_fails hijack_fails r d =
     (if hp_Method r \<noteq> ''POST'' \<or> hp_Path r \<noteq> ''/webhook'' then (d, Reply 404 ''404 page not found'')
      else if hp_Authorization r \<noteq> ''Bearer local-example-token'' then (d, Reply 401 ''unauthorized'')
      else if hp_BodyError r \<or> length (hp_Body r) > 262144 then (d, Reply 400 ''invalid or oversized body'')
      else (case accepted_event (hp_Body r) of
              None \<Rightarrow> (d, Reply 400 ''invalid order.paid event'')
            | Some ev \<Rightarrow>
                if length (hp_Keys r) \<noteq> 1 then (d, Reply 400 ''one Idempotency-Key required'')
                else if hp_Failure r \<notin> {[], ''rollback'', ''drop-response''} then (d, Reply 400 ''unknown example failure'')
                else
                  (case WithInbox x e (Some d) \<lparr>id_Table = table, id_Key = hd (hp_Keys r), id_Body = hp_Body r\<rparr>
                      (Some (insert_order exec_fails (hp_Failure r) ev)) of
                     (pool, res) \<Rightarrow>
                       (case pool of None \<Rightarrow> d | Some d' \<Rightarrow> d',
                        case res of
                          Err err \<Rightarrow> inbox_reply err
                        | Halted \<Rightarrow> Aborted
                        | Ok result \<Rightarrow>
                            if hp_Failure r = ''drop-response'' then (if hijack_fails then Aborted else Dropped)
                            else ReplyStatus result))))"

text \<open>The tables of the receiver's database, and the faults of creating them.\<close>

record receiver_tables =
  rt_inbox :: bool
  rt_orders :: bool

record init_env =
  ie_begin_fails :: bool
  ie_inbox_fails :: bool
  ie_orders_fails :: bool
  ie_commit :: commit_fault

definition initialize_receiver :: "init_env \<Rightarrow> receiver_tables \<Rightarrow> receiver_tables \<times> bool" where
  "initialize_receiver e t =
     (case InboxTableSQL \<lparr>ix_Schema = [], ix_Table = []\<rparr> of
        Inl _ \<Rightarrow> (t, False)
      | Inr ddl \<Rightarrow>
          if ie_begin_fails e then (t, False)
          else if ie_inbox_fails e \<or> rt_inbox t then (t, False)
          else if ie_orders_fails e \<or> rt_orders t then (t, False)
          else (case ie_commit e of
                  CommitOk \<Rightarrow> (t\<lparr>rt_inbox := True, rt_orders := True\<rparr>, True)
                | CommitLost \<Rightarrow> (t, False)
                | CommitLanded \<Rightarrow> (t\<lparr>rt_inbox := True, rt_orders := True\<rparr>, False)))"

text \<open>How serving ends: by itself, closed or with an error, or at a signal with a shutdown that may fail.\<close>

datatype serve_end = ServeClosed | ServeFailed | Interrupted bool

record receiver_env =
  re_config_fails :: bool
  re_pool_fails :: bool
  re_ping_fails :: bool
  re_init :: init_env
  re_listen_fails :: bool
  re_end :: serve_end

definition receiver_run :: "receiver_env \<Rightarrow> bool \<Rightarrow> receiver_tables \<Rightarrow> receiver_tables \<times> bool" where
  "receiver_run e initDB t =
     (if re_config_fails e \<or> re_pool_fails e \<or> re_ping_fails e then (t, False)
      else if initDB then initialize_receiver (re_init e) t
      else if re_listen_fails e then (t, False)
      else (case re_end e of
              ServeClosed \<Rightarrow> (t, True)
            | ServeFailed \<Rightarrow> (t, False)
            | Interrupted shutdown_fails \<Rightarrow> (t, \<not> shutdown_fails)))"

text \<open>The exit status. The flag package ends the process itself, with 0 when help was asked for.\<close>

definition flag_exit :: "flag_error \<Rightarrow> nat" where
  "flag_exit err = (if err = FlagHelp then 0 else 2)"

definition receiver_main :: "receiver_env \<Rightarrow> (string \<Rightarrow> string option) \<Rightarrow> string list \<Rightarrow> receiver_tables \<Rightarrow> receiver_tables \<times> nat" where
  "receiver_main e getenv args t =
     (case flag_Parse [(''init'', FlagBool False), (''port'', FlagInt 8081)] args of
        Inl err \<Rightarrow> (t, flag_exit err)
      | Inr (fs, rest) \<Rightarrow>
          (let dsn = (case getenv ''WRITERELAY_RECEIVER_DSN'' of None \<Rightarrow> [] | Some v \<Rightarrow> v); port = flag_int fs ''port'' in
           if dsn = [] \<or> rest \<noteq> [] \<or> port < 0 \<or> port > 65535 then (t, 2)
           else (case receiver_run e (flag_bool fs ''init'') t of (t', ok) \<Rightarrow> (t', if ok then 0 else 1))))"

section \<open>The producer\<close>

text \<open>The application's orders by id, and the messages of its committed transactions.\<close>

record producer_db =
  pd_orders :: "string \<Rightarrow> string option"
  pd_wal :: "LogicalDecodingMessage list"

record producer_env =
  pe_connect :: "string option"
  pe_begin :: "string option"
  pe_insert :: "string option"
  pe_emit :: "string option"
  pe_rollback :: "string option"
  pe_commit :: commit_fault
  pe_lsn :: lsn

datatype producer_error = ProducerEvent sdk_error | ProducerDatabase string

definition order_data :: string where
  "order_data = marshal_object [(''amount'', Itoa 12900), (''currency'', marshal_string ''USD'')]"

definition producer_event :: "string \<Rightarrow> Event" where
  "producer_event i =
     \<lparr>sd_ID = ''evt-go-'' @ i, sd_Source = ''urn:service:billing'', sd_Type = ''order.paid'', sd_SpecVersion = [],
      sd_Subject = Some i, sd_Time = [], sd_DataContentType = [], sd_Data = Some order_data\<rparr>"

text \<open>The statement of the SDK: the cast to \<open>jsonb\<close> and the installed function.\<close>

definition emit_statement ::
    "(bytes \<Rightarrow> json option) \<Rightarrow> (json \<Rightarrow> bytes) \<Rightarrow> producer_env \<Rightarrow> string \<Rightarrow> string + LogicalDecodingMessage option" where
  "emit_statement jsonb_in jsonb_text e payload =
     (case pe_emit e of
        Some err \<Rightarrow> Inl err
      | None \<Rightarrow>
          (case jsonb_in payload of
             None \<Rightarrow> Inl ''invalid input syntax for type json''
           | Some v \<Rightarrow>
               (case emit jsonb_text (pe_lsn e) (Some v) of
                  Inl (InvalidParameter t) \<Rightarrow> Inl (''WriteRelay '' @ t)
                | Inl (LimitExceeded t) \<Rightarrow> Inl (''WriteRelay '' @ t)
                | Inr m \<Rightarrow> Inr m)))"

definition statement_error :: "string + 'a \<Rightarrow> string option" where
  "statement_error r = (case r of Inl t \<Rightarrow> Some t | Inr _ \<Rightarrow> None)"

definition statement_messages :: "string + 'a option \<Rightarrow> 'a list" where
  "statement_messages r = (case r of Inr (Some m) \<Rightarrow> [m] | _ \<Rightarrow> [])"

definition recordOrder ::
    "(string \<Rightarrow> time option) \<Rightarrow> (bytes \<Rightarrow> json option) \<Rightarrow> (json \<Rightarrow> bytes) \<Rightarrow> producer_env \<Rightarrow> string \<Rightarrow> bool \<Rightarrow> producer_db \<Rightarrow>
     producer_db \<times> producer_error option" where
  "recordOrder parseTime jsonb_in jsonb_text e i rollback d =
     (case pe_connect e of
        Some err \<Rightarrow> (d, Some (ProducerDatabase err))
      | None \<Rightarrow>
     (case pe_begin e of
        Some err \<Rightarrow> (d, Some (ProducerDatabase err))
      | None \<Rightarrow>
     (case pe_insert e of
        Some err \<Rightarrow> (d, Some (ProducerDatabase err))
      | None \<Rightarrow>
          (let d1 = d\<lparr>pd_orders := (pd_orders d)(i \<mapsto> ''paid'')\<rparr>; run = emit_statement jsonb_in jsonb_text e in
           case Emit parseTime (\<lambda>p. statement_error (run p)) Transaction (producer_event i) of
             (_, Some err) \<Rightarrow> (d, Some (ProducerEvent err))
           | (sent, None) \<Rightarrow>
               (let d2 = d1\<lparr>pd_wal := pd_wal d1 @ concat (map (\<lambda>p. statement_messages (run p)) sent)\<rparr> in
                if rollback then (d, map_option ProducerDatabase (pe_rollback e))
                else (case pe_commit e of
                        CommitOk \<Rightarrow> (d2, None)
                      | CommitLost \<Rightarrow> (d, Some (ProducerDatabase ''commit''))
                      | CommitLanded \<Rightarrow> (d2, Some (ProducerDatabase ''commit''))))))))"

text \<open>What is written before the process ends. \<open>sqlstate\<close> gives the code of an error of the server.\<close>

datatype said = SaidUsage | SaidEvent string | SaidState string | SaidCheck | SaidUnconfirmed | SaidRolledBack | SaidCommitted

definition said_error :: "(string \<Rightarrow> string option) \<Rightarrow> producer_error \<Rightarrow> said" where
  "said_error sqlstate err =
     (let server = (\<lambda>t. case sqlstate t of Some c \<Rightarrow> SaidState c | None \<Rightarrow> SaidCheck) in
      case err of
        ProducerEvent (ErrInvalidEvent t) \<Rightarrow> SaidEvent t
      | ProducerEvent (ErrDatabase t) \<Rightarrow> server t
      | ProducerEvent ErrNilTransaction \<Rightarrow> SaidCheck
      | ProducerDatabase t \<Rightarrow> server t)"

definition producer_main ::
    "(string \<Rightarrow> time option) \<Rightarrow> (bytes \<Rightarrow> json option) \<Rightarrow> (json \<Rightarrow> bytes) \<Rightarrow> (string \<Rightarrow> string option) \<Rightarrow> producer_env \<Rightarrow>
     (string \<Rightarrow> string option) \<Rightarrow> string list \<Rightarrow> producer_db \<Rightarrow> producer_db \<times> said list \<times> nat" where
  "producer_main parseTime jsonb_in jsonb_text sqlstate e getenv args d =
     (case flag_Parse [(''id'', FlagString []), (''rollback'', FlagBool False)] args of
        Inl err \<Rightarrow> (d, [], flag_exit err)
      | Inr (fs, rest) \<Rightarrow>
          (let dsn = (case getenv ''WRITERELAY_APP_DSN'' of None \<Rightarrow> [] | Some v \<Rightarrow> v);
               i = flag_string fs ''id''; rollback = flag_bool fs ''rollback'' in
           if dsn = [] \<or> i = [] \<or> rest \<noteq> [] then (d, [SaidUsage], 2)
           else (case recordOrder parseTime jsonb_in jsonb_text e i rollback d of
                   (d', Some err) \<Rightarrow> (d', [said_error sqlstate err, SaidUnconfirmed], 1)
                 | (d', None) \<Rightarrow> (d', [if rollback then SaidRolledBack else SaidCommitted], 0))))"

section \<open>Histories of requests\<close>

record receiver_call =
  rc_env :: inbox_env
  rc_exec_fails :: bool
  rc_hijack_fails :: bool
  rc_request :: http_post

fun serve_all :: "externals \<Rightarrow> InboxTable \<Rightarrow> receiver_call list \<Rightarrow> orders inbox_db \<Rightarrow> orders inbox_db \<times> reply list" where
  "serve_all x table [] d = (d, [])"
| "serve_all x table (c # cs) d =
     (case ServeHTTP x table (rc_env c) (rc_exec_fails c) (rc_hijack_fails c) (rc_request c) d of
        (d', reply) \<Rightarrow> (case serve_all x table cs d' of (d'', replies) \<Rightarrow> (d'', reply # replies)))"

text \<open>The order of a body is in the table.\<close>

definition order_stored :: "bytes \<Rightarrow> orders \<Rightarrow> bool" where
  "order_stored body t \<longleftrightarrow>
     (case accepted_event body of None \<Rightarrow> False | Some ev \<Rightarrow> t (oe_Source ev, oe_ID ev) = Some (oe_Subject ev))"

text \<open>Every recorded digest is the one of a body whose order is stored, and every order comes from one
  of the bodies.\<close>

definition orders_inv :: "externals \<Rightarrow> bytes set \<Rightarrow> orders inbox_db \<Rightarrow> bool" where
  "orders_inv x bodies d \<longleftrightarrow>
     (\<forall>s v. recorded_at d s = Some v \<longrightarrow>
        (\<exists>body \<in> bodies. EncodeToString (Sum256 x body) = v \<and> order_stored body (rb_app d))) \<and>
     (\<forall>k v. rb_app d k = Some v \<longrightarrow>
        (\<exists>body \<in> bodies. \<exists>ev. accepted_event body = Some ev \<and> k = (oe_Source ev, oe_ID ev) \<and> v = oe_Subject ev))"

lemma order_stored_mono: "order_stored body t \<Longrightarrow> t \<subseteq>\<^sub>m t' \<Longrightarrow> order_stored body t'"
  by (auto simp: order_stored_def map_le_def split: option.splits) (metis domI)

lemma insert_order_Ok:
  assumes "insert_order f mode ev t = HandledOk t'"
  shows "t (oe_Source ev, oe_ID ev) = None" "t' = t((oe_Source ev, oe_ID ev) \<mapsto> oe_Subject ev)"
  using assms by (auto simp: insert_order_def split: if_splits)

lemma inbox_reply_status: "inbox_reply err \<noteq> ReplyStatus res"
  by (simp add: inbox_reply_def split: inbox_error.split)

text \<open>What a request does: nothing unless the body is accepted, and then one call of the inbox.\<close>

lemma ServeHTTP_cases:
  assumes "ServeHTTP x table e f h r d = (d', reply)"
  obtains (refused) "d' = d" "\<forall>res. reply \<noteq> ReplyStatus res"
    | (called) ev p res where "accepted_event (hp_Body r) = Some ev"
        "WithInbox x e (Some d) \<lparr>id_Table = table, id_Key = hd (hp_Keys r), id_Body = hp_Body r\<rparr>
           (Some (insert_order f (hp_Failure r) ev)) = (p, res)"
        "d' = (case p of None \<Rightarrow> d | Some d' \<Rightarrow> d')" "\<forall>v. reply = ReplyStatus v \<longrightarrow> res = Ok v"
proof (cases "accepted_event (hp_Body r)")
  case None
  then show thesis using assms refused by (auto simp: ServeHTTP_def split: if_splits)
next
  case (Some ev)
  obtain p res where call: "WithInbox x e (Some d) \<lparr>id_Table = table, id_Key = hd (hp_Keys r), id_Body = hp_Body r\<rparr>
           (Some (insert_order f (hp_Failure r) ev)) = (p, res)" by fastforce
  have "d' = d \<and> (\<forall>res. reply \<noteq> ReplyStatus res) \<or>
      d' = (case p of None \<Rightarrow> d | Some d' \<Rightarrow> d') \<and> (\<forall>v. reply = ReplyStatus v \<longrightarrow> res = Ok v)"
    using assms inbox_reply_status
    by (auto simp: ServeHTTP_def Some call split: if_splits outcome.splits)
  then show thesis using refused called [OF Some call] by blast
qed

lemma ServeHTTP_inv:
  assumes inv: "orders_inv x bodies d" and "ServeHTTP x table e f h r d = (d', reply)"
    and body: "hp_Body r \<in> bodies" and inj: "inj_on (Sum256 x) bodies"
  shows "orders_inv x bodies d' \<and> rb_app d \<subseteq>\<^sub>m rb_app d' \<and> (\<forall>res. reply = ReplyStatus res \<longrightarrow> order_stored (hp_Body r) (rb_app d'))"
  using assms(2)
proof (cases rule: ServeHTTP_cases)
  case refused
  then show ?thesis using inv by simp
next
  case (called ev p res)
  from called(2) show ?thesis
  proof (cases rule: WithInbox_cases)
    case same
    have "order_stored (hp_Body r) (rb_app d)" if "reply = ReplyStatus v" for v
    proof -
      have "res = Ok v" using called(4) that by blast
      then obtain s where "recorded_at d s = Some (EncodeToString (Sum256 x (hp_Body r)))"
        using same(2) by (auto simp: body_digest_def)
      then obtain b where "b \<in> bodies" "Sum256 x b = Sum256 x (hp_Body r)" "order_stored b (rb_app d)"
        using inv unfolding orders_inv_def by (metis EncodeToString_inj)
      then show ?thesis using inj_onD [OF inj] body by metis
    qed
    then show ?thesis using same(1) called(3) inv by simp
  next
    case (applied s t)
    note new = insert_order_Ok [OF applied(3)]
    have mono: "rb_app d \<subseteq>\<^sub>m t" using new by (auto simp: map_le_def)
    have stored: "order_stored (hp_Body r) t" using new(2) called(1) by (simp add: order_stored_def)
    have d': "d' = (record_key (fst s) (snd s) (EncodeToString (Sum256 x (hp_Body r))) d)\<lparr>rb_app := t\<rparr>"
      using applied(4) called(3) by (simp add: body_digest_def)
    have "\<exists>b \<in> bodies. EncodeToString (Sum256 x b) = v \<and> order_stored b t" if "recorded_at d' s' = Some v" for s' v
    proof (cases "s' = s")
      case True
      then show ?thesis using that d' stored body by (auto simp: record_key_def)
    next
      case False
      then have "recorded_at d s' = Some v" using that d' by (auto simp: record_key_def prod_eq_iff split: if_splits)
      then show ?thesis using inv order_stored_mono [OF _ mono] unfolding orders_inv_def by blast
    qed
    moreover have "\<exists>b \<in> bodies. \<exists>ev. accepted_event b = Some ev \<and> k = (oe_Source ev, oe_ID ev) \<and> v = oe_Subject ev"
      if "t k = Some v" for k v
      using that new(2) inv called(1) body unfolding orders_inv_def by (metis fun_upd_apply option.inject)
    ultimately have "orders_inv x bodies d'" using d' by (simp add: orders_inv_def)
    then show ?thesis using mono stored d' by simp
  qed
qed

lemma serve_all_inv:
  assumes "serve_all x table cs d = (d', replies)" and "orders_inv x bodies d"
    and "(\<lambda>c. hp_Body (rc_request c)) ` set cs \<subseteq> bodies" and "inj_on (Sum256 x) bodies"
  shows "orders_inv x bodies d' \<and> rb_app d \<subseteq>\<^sub>m rb_app d' \<and> length replies = length cs \<and>
    (\<forall>i < length cs. \<forall>res. replies ! i = ReplyStatus res \<longrightarrow> order_stored (hp_Body (rc_request (cs ! i))) (rb_app d'))"
  using assms(1-3)
proof (induction cs arbitrary: d replies)
  case (Cons c cs)
  obtain d1 reply where step: "ServeHTTP x table (rc_env c) (rc_exec_fails c) (rc_hijack_fails c) (rc_request c) d = (d1, reply)" by fastforce
  then obtain rs where rest: "serve_all x table cs d1 = (d', rs)" "replies = reply # rs"
    using Cons.prems(1) by (auto split: prod.splits)
  note one = ServeHTTP_inv [OF Cons.prems(2) step _ assms(4)]
  note all = Cons.IH [OF rest(1)]
  have "orders_inv x bodies d1" "rb_app d \<subseteq>\<^sub>m rb_app d1"
    "\<forall>res. reply = ReplyStatus res \<longrightarrow> order_stored (hp_Body (rc_request c)) (rb_app d1)"
    using one Cons.prems(3) by auto
  moreover from this(1) all have "rb_app d1 \<subseteq>\<^sub>m rb_app d'" "orders_inv x bodies d'" "length rs = length cs"
    "\<forall>i < length cs. \<forall>res. rs ! i = ReplyStatus res \<longrightarrow> order_stored (hp_Body (rc_request (cs ! i))) (rb_app d')"
    using Cons.prems(3) by auto
  ultimately show ?case
    using rest(2) order_stored_mono map_le_trans by (auto simp: nth_Cons split: nat.split)
qed simp

definition new_receiver :: "orders inbox_db" where
  "new_receiver = \<lparr>rb_inbox = \<lambda>_ _. None, rb_app = Map.empty\<rparr>"

text \<open>(C14) The receiver acknowledges an event only with its order stored, and keeps it: after any
  history of requests, with repeated deliveries, forced rollbacks, dropped responses and commits
  whose outcome is unknown, every request that was answered with a status has the order of its
  event in the table, and every order in the table comes from a request whose event was accepted.
  The digests of the bodies are assumed not to collide.\<close>

theorem receiver_stores:
  assumes "serve_all x table cs new_receiver = (d, replies)"
    and "inj_on (Sum256 x) ((\<lambda>c. hp_Body (rc_request c)) ` set cs)"
  shows "(\<forall>i < length cs. \<forall>res. replies ! i = ReplyStatus res \<longrightarrow>
      (\<exists>ev. accepted_event (hp_Body (rc_request (cs ! i))) = Some ev \<and> rb_app d (oe_Source ev, oe_ID ev) = Some (oe_Subject ev))) \<and>
    (\<forall>k v. rb_app d k = Some v \<longrightarrow>
      (\<exists>c \<in> set cs. \<exists>ev. accepted_event (hp_Body (rc_request c)) = Some ev \<and> k = (oe_Source ev, oe_ID ev) \<and> v = oe_Subject ev))"
proof -
  have "orders_inv x ((\<lambda>c. hp_Body (rc_request c)) ` set cs) new_receiver" by (simp add: orders_inv_def new_receiver_def)
  from serve_all_inv [OF assms(1) this subset_refl assms(2)] show ?thesis
    by (auto simp: orders_inv_def order_stored_def split: option.splits)
qed

section \<open>The producer's transaction\<close>

lemma recordOrder_cases:
  assumes "recordOrder parseTime jsonb_in jsonb_text e i rollback d = (d', r)"
  obtains (unchanged) "d' = d" "r = None \<Longrightarrow> rollback"
    | (committed) payload m where "\<not> rollback" "encode parseTime (producer_event i) = Inr payload"
        "emit_statement jsonb_in jsonb_text e payload = Inr m"
        "d' = \<lparr>pd_orders = (pd_orders d)(i \<mapsto> ''paid''), pd_wal = pd_wal d @ statement_messages (Inr m)\<rparr>"
proof (cases "encode parseTime (producer_event i)")
  case (Inl err)
  then have "d' = d \<and> r \<noteq> None"
    using assms by (auto simp: recordOrder_def Emit_def Let_def split: option.splits)
  then show thesis using unchanged by blast
next
  case (Inr payload)
  show thesis
  proof (cases "emit_statement jsonb_in jsonb_text e payload")
    case (Inl err)
    then have "d' = d \<and> r \<noteq> None"
      using assms Inr by (auto simp: recordOrder_def Emit_def statement_error_def Let_def split: option.splits)
    then show thesis using unchanged by blast
  next
    case m: (Inr m)
    have "d' = d \<and> (r = None \<longrightarrow> rollback) \<or>
        \<not> rollback \<and> d' = \<lparr>pd_orders = (pd_orders d)(i \<mapsto> ''paid''), pd_wal = pd_wal d @ statement_messages (Inr m)\<rparr>"
      using assms Inr m
      by (auto simp: recordOrder_def Emit_def statement_error_def Let_def split: option.splits if_splits commit_fault.splits)
    then show thesis using unchanged committed Inr m by blast
  qed
qed

lemma emit_statement_Inr:
  assumes "emit_statement jsonb_in jsonb_text e payload = Inr m"
  shows "\<exists>v msg. jsonb_in payload = Some v \<and> m = Some msg \<and> emit jsonb_text (pe_lsn e) (Some v) = Inr (Some msg) \<and>
    length (jsonb_text v) \<le> maxEmitBytes"
  using assms by (auto simp: emit_statement_def emit_def split: option.splits sum.splits emit_error.splits if_splits)

lemma producer_nests: "nests_below_limit (producer_event i)"
proof -
  have "nests_below_limit (producer_event [])" by code_simp
  then show ?thesis by (simp add: nests_below_limit_def producer_event_def)
qed

text \<open>(C13) The order and its event are one: whatever fails, a run of the producer either leaves both the
  orders and the log as they were, or marks the order as paid and appends exactly one message. A
  run that reports success without \<open>--rollback\<close> has committed, one with it has not. The message
  that was appended is buffered by any relay that has room for it, with the identity of the event.\<close>

theorem recordOrder_atomic:
  assumes "recordOrder parseTime jsonb_in jsonb_text e i rollback d = (d', r)"
    and "\<And>payload. encode parseTime (producer_event i) = Inr payload \<Longrightarrow> jsonb_stores jsonb_in jsonb_text payload js"
  shows "(r = None \<longrightarrow> (d' = d \<longleftrightarrow> rollback)) \<and>
    (d' = d \<or> \<not> rollback \<and> pd_orders d' = (pd_orders d)(i \<mapsto> ''paid'') \<and>
       pd_wal d' = pd_wal d @ [emitted_message jsonb_text (pe_lsn e) js] \<and>
       (\<forall>x s. has_room s (emitted_message jsonb_text (pe_lsn e) js) \<longrightarrow>
          (\<exists>s' ce. consumeLogicalMessage x parseTime (emitted_message jsonb_text (pe_lsn e) js) s = Inr s' \<and>
             sm_events s' = sm_events s @ [ce] \<and> ce_ID ce = ''evt-go-'' @ i \<and> ce_Source ce = ''urn:service:billing'')))"
  using assms(1)
proof (cases rule: recordOrder_cases)
  case (committed payload m)
  note stores = assms(2) [OF committed(2)]
  obtain msg where msg: "m = Some msg" "emit jsonb_text (pe_lsn e) (Some (JObject js)) = Inr (Some msg)"
    "length (jsonb_text (JObject js)) \<le> maxEmitBytes"
    using emit_statement_Inr [OF committed(3)] stores by (auto simp: jsonb_stores_def)
  have "msg = emitted_message jsonb_text (pe_lsn e) js"
    using msg(2) by (auto simp: emit_def emitted_message_def split: if_splits)
  moreover have "\<exists>s' ce. consumeLogicalMessage x parseTime (emitted_message jsonb_text (pe_lsn e) js) s = Inr s' \<and>
      sm_events s' = sm_events s @ [ce] \<and> ce_ID ce = ''evt-go-'' @ i \<and> ce_Source ce = ''urn:service:billing''"
    if "has_room s (emitted_message jsonb_text (pe_lsn e) js)" for x s
    using emit_message [OF committed(2) producer_nests stores msg(3) that, of x]
    by (simp add: buffered_event_def event_metadata_def producer_event_def)
  moreover have "pd_wal d' \<noteq> pd_wal d" using committed(4) msg(1) by (simp add: statement_messages_def)
  then have "d' \<noteq> d" by blast
  ultimately show ?thesis
    using committed(1,4) msg(1) by (simp add: statement_messages_def)
qed auto

text \<open>The producer says that it committed only after a run without \<open>--rollback\<close> that succeeded.\<close>

lemma said_error_not_committed [simp]: "said_error sqlstate err \<noteq> SaidCommitted" "SaidCommitted \<noteq> said_error sqlstate err"
  by (simp_all add: said_error_def Let_def split: producer_error.split sdk_error.split option.split)

lemma producer_main_committed:
  assumes "producer_main parseTime jsonb_in jsonb_text sqlstate e getenv args d = (d', out, status)" and "SaidCommitted \<in> set out"
  shows "status = 0 \<and> (\<exists>i. i \<noteq> [] \<and> recordOrder parseTime jsonb_in jsonb_text e i False d = (d', None))"
  using assms
  by (auto simp: producer_main_def Let_def split: sum.splits prod.splits if_splits option.splits)

text \<open>The receiver's tables are created together or not at all.\<close>

lemma initialize_receiver_atomic:
  assumes "initialize_receiver e t = (t', ok)"
  shows "(t' = t \<or> \<not> rt_inbox t \<and> \<not> rt_orders t \<and> rt_inbox t' \<and> rt_orders t') \<and> (ok \<longrightarrow> rt_inbox t' \<and> rt_orders t')"
  using assms by (auto simp: initialize_receiver_def split: sum.splits if_splits commit_fault.splits)

lemma receiver_main_tables:
  assumes "receiver_main e getenv args t = (t', status)"
  shows "t' = t \<or> \<not> rt_inbox t \<and> \<not> rt_orders t \<and> rt_inbox t' \<and> rt_orders t'"
proof -
  have "t' = t \<or> \<not> rt_inbox t \<and> \<not> rt_orders t \<and> rt_inbox t' \<and> rt_orders t'" if "receiver_run e i t = (t', ok)" for i t' ok
    using that initialize_receiver_atomic [of "re_init e" t]
    by (auto simp: receiver_run_def split: if_splits serve_end.splits)
  then show ?thesis
    using assms by (auto simp: receiver_main_def Let_def split: sum.splits prod.splits if_splits)
qed

section \<open>Concrete runs\<close>

definition order_body :: bytes where
  "order_body = marshal_object [(''specversion'', marshal_string ''1.0''), (''id'', marshal_string ''evt-go-7''),
     (''source'', marshal_string ''urn:service:billing''), (''type'', marshal_string ''order.paid''), (''subject'', marshal_string ''7'')]"

definition paid_event :: orderEvent where
  "paid_event = \<lparr>oe_SpecVersion = ''1.0'', oe_ID = ''evt-go-7'', oe_Source = ''urn:service:billing'', oe_Type = ''order.paid'', oe_Subject = ''7''\<rparr>"

lemma order_body_accepted: "accepted_event order_body = Some paid_event" "length order_body \<le> 262144" "order_body \<noteq> []"
  by code_simp+

definition order_call :: receiver_call where
  "order_call = \<lparr>rc_env = quiet_inbox, rc_exec_fails = False, rc_hijack_fails = False,
     rc_request = \<lparr>hp_Method = ''POST'', hp_Path = ''/webhook'', hp_Authorization = ''Bearer local-example-token'',
       hp_Keys = [replicate 64 CHR ''a''], hp_Failure = [], hp_Body = order_body, hp_BodyError = False\<rparr>\<rparr>"

text \<open>The first commit is lost on the way back, so the relay sends the delivery again.\<close>

definition order_calls :: "receiver_call list" where
  "order_calls = [order_call\<lparr>rc_env := quiet_inbox\<lparr>xe_commit := CommitLanded\<rparr>\<rparr>, order_call]"

abbreviation default_table :: InboxTable where
  "default_table \<equiv> \<lparr>ix_Schema = [], ix_Table = []\<rparr>"

lemma order_calls_served:
  "snd (serve_all x default_table order_calls new_receiver) =
     [Reply 503 ''processing failed; retry the same key and body'', ReplyStatus InboxDuplicate]"
  using order_slot order_body_accepted
  by (simp add: order_calls_def order_call_def quiet_inbox_def ServeHTTP_def WithInbox_def prepareInbox_def
      InboxTable_name_def runInbox_def finish_inbox_def record_key_def new_receiver_def insert_order_def inbox_reply_def)

theorem receiver_stores_witness:
  "rb_app (fst (serve_all example_externals default_table order_calls new_receiver)) (''urn:service:billing'', ''evt-go-7'') = Some ''7''"
proof -
  obtain d where served: "serve_all example_externals default_table order_calls new_receiver =
      (d, [Reply 503 ''processing failed; retry the same key and body'', ReplyStatus InboxDuplicate])"
    using order_calls_served by (metis prod.collapse)
  have "inj_on (Sum256 example_externals) ((\<lambda>c. hp_Body (rc_request c)) ` set order_calls)"
    by (simp add: order_calls_def order_call_def)
  note stores = conjunct1 [OF receiver_stores [OF served this], rule_format, of 1 InboxDuplicate]
  have "1 < length order_calls" by (simp add: order_calls_def)
  then obtain ev where "accepted_event (hp_Body (rc_request (order_calls ! 1))) = Some ev"
    "rb_app d (oe_Source ev, oe_ID ev) = Some (oe_Subject ev)"
    using stores by auto
  then show ?thesis
    using order_body_accepted(1) unfolding served by (auto simp: order_calls_def order_call_def paid_event_def)
qed

definition quiet_producer :: producer_env where
  "quiet_producer = \<lparr>pe_connect = None, pe_begin = None, pe_insert = None, pe_emit = None, pe_rollback = None,
     pe_commit = CommitOk, pe_lsn = 90\<rparr>"

definition new_producer :: producer_db where
  "new_producer = \<lparr>pd_orders = Map.empty, pd_wal = []\<rparr>"

definition order_message :: string where
  "order_message = (case encode shape_parser (producer_event ''7'') of Inl _ \<Rightarrow> [] | Inr p \<Rightarrow> p)"

definition message_fields :: "(string \<times> json) list" where
  "message_fields = (case parse_json order_message of Some (JObject ms, _) \<Rightarrow> ms | _ \<Rightarrow> [])"

definition message_text :: "json \<Rightarrow> bytes" where
  "message_text v = (if v = JObject message_fields then order_message else flat_text v)"

lemma order_message_facts:
  "encode shape_parser (producer_event ''7'') = Inr order_message"
  "parse_json order_message = Some (JObject message_fields, [])"
  "distinct (map fst message_fields)" "length order_message \<le> 1000"
  "emit_statement flat_in message_text quiet_producer order_message =
     Inr (Some (emitted_message message_text 90 message_fields))"
  by code_simp+

theorem recordOrder_atomic_witness:
  "\<exists>d' m. recordOrder shape_parser flat_in message_text quiet_producer ''7'' False new_producer = (d', None) \<and>
     pd_orders d' = [''7'' \<mapsto> ''paid''] \<and> pd_wal d' = [m]"
proof -
  let ?r = "recordOrder shape_parser flat_in message_text quiet_producer ''7'' False new_producer"
  have "pe_connect quiet_producer = None" "pe_begin quiet_producer = None" "pe_insert quiet_producer = None"
    "pe_commit quiet_producer = CommitOk" by (simp_all add: quiet_producer_def)
  then have run: "?r = (fst ?r, None)"
    by (simp add: recordOrder_def Emit_def order_message_facts(1,5) statement_error_def Let_def prod_eq_iff)
  have "jsonb_stores flat_in message_text payload message_fields"
    if "encode shape_parser (producer_event ''7'') = Inr payload" for payload
    using that same_strings_rev [OF order_message_facts(3)] order_message_facts(1,2)
    by (simp add: jsonb_stores_def flat_in_def message_text_def skip_ws_def)
  from recordOrder_atomic [OF run this] show ?thesis using run by (intro exI [of _ "fst ?r"]) (auto simp: new_producer_def)
qed

end
